(* ===== verification/Prelude.thy ===== *)
theory Prelude
  imports Main "HOL-Library.Sublist" "HOL-Library.Word"
begin

text \<open>
  Shared vocabulary of the development: Go's byte strings, results with an error message,
  the collections of facts the component theories add to, and generic lemmas on lists,
  maps and results.

  A Go string is a sequence of bytes; HOL's \<open>string\<close> is a list of 8-bit characters, so the
  two types agree, and a UTF-8 encoded rune is the list of its bytes. A Go \<open>error\<close> is
  modelled by its text, since callers of this program only print it, wrap it or search it
  for a substring; a function returning \<open>(T, error)\<close> returns \<open>string + T\<close>, with \<open>Inl\<close> for
  the error.
\<close>

section \<open>Collections of facts\<close>

named_theorems str_simps "evaluation rules of the string library"
named_theorems codec_simps "decoding after encoding"
named_theorems inv_intros "introduction rules of component invariants"

section \<open>Results\<close>

type_synonym 'a res = "string + 'a"

definition res_map_err :: "(string \<Rightarrow> string) \<Rightarrow> 'a res \<Rightarrow> 'a res" where
  "res_map_err f r = (case r of Inl e \<Rightarrow> Inl (f e) | Inr v \<Rightarrow> Inr v)"

definition is_ok :: "'a res \<Rightarrow> bool" where
  "is_ok r = (case r of Inl _ \<Rightarrow> False | Inr _ \<Rightarrow> True)"

definition res_bind :: "'a res \<Rightarrow> ('a \<Rightarrow> 'b res) \<Rightarrow> 'b res" where
  "res_bind r f = (case r of Inl e \<Rightarrow> Inl e | Inr v \<Rightarrow> f v)"

lemma res_bind_simps [simp]:
  "res_bind (Inl e) f = Inl e"
  "res_bind (Inr v) f = f v"
  by (simp_all add: res_bind_def)

lemma res_bind_Inr_iff: "res_bind r f = Inr w \<longleftrightarrow> (\<exists>v. r = Inr v \<and> f v = Inr w)"
  by (cases r) auto

lemma res_bind_Inl_iff: "res_bind r f = Inl e \<longleftrightarrow> r = Inl e \<or> (\<exists>v. r = Inr v \<and> f v = Inl e)"
  by (cases r) auto

lemma res_map_err_simps [simp]:
  "res_map_err f (Inl e) = Inl (f e)"
  "res_map_err f (Inr v) = Inr v"
  by (simp_all add: res_map_err_def)

lemma res_map_err_Inr_iff [simp]: "res_map_err f r = Inr v \<longleftrightarrow> r = Inr v"
  by (cases r) auto

lemma is_ok_simps [simp]: "is_ok (Inr v)" "\<not> is_ok (Inl e)"
  by (simp_all add: is_ok_def)

lemma is_ok_iff: "is_ok r \<longleftrightarrow> (\<exists>v. r = Inr v)"
  by (cases r) auto

section \<open>Bytes\<close>

definition byte :: "char \<Rightarrow> nat" where
  "byte c = of_char c"

lemma byte_less_256 [simp]: "byte c < 256"
  by (simp add: byte_def)

lemma byte_inject [simp]: "byte c = byte d \<longleftrightarrow> c = d"
  by (simp add: byte_def of_char_eq_iff)

lemma byte_char_of [simp]: "n < 256 \<Longrightarrow> byte (char_of n) = n"
  by (simp add: byte_def)

lemma char_of_byte [simp]: "char_of (byte c) = c"
  by (simp add: byte_def)

lemma byte_eq_iff: "byte c = n \<longleftrightarrow> n < 256 \<and> c = char_of n"
  using byte_less_256 [of c] by auto

section \<open>Machine integers\<close>

text \<open>Go's 64-bit \<open>int\<close> and \<open>int64\<close> are integers reduced to the signed range after each
  operation that can leave it.\<close>

definition wrap64 :: "int \<Rightarrow> int" where
  "wrap64 i = (i + 2 ^ 63) mod 2 ^ 64 - 2 ^ 63"

lemma wrap64_id [simp]: "- (2 ^ 63) \<le> i \<Longrightarrow> i < 2 ^ 63 \<Longrightarrow> wrap64 i = i"
  by (simp add: wrap64_def)

lemma wrap64_bounds: "- (2 ^ 63) \<le> wrap64 i" "wrap64 i < 2 ^ 63"
  using pos_mod_bound [of "2 ^ 64" "i + 2 ^ 63"] pos_mod_sign [of "2 ^ 64" "i + 2 ^ 63"]
  by (simp_all add: wrap64_def)

lemma wrap64_sint: "wrap64 i = sint (word_of_int i :: 64 word)"
  by (simp add: wrap64_def sint_sbintrunc' signed_take_bit_eq_take_bit_shift take_bit_eq_mod)

section \<open>Lists\<close>

text \<open>Overwriting an association list in place keeps the order of the other entries, as
  the position of a map's entry in one fixed iteration order does.\<close>

fun assoc_put :: "'k \<Rightarrow> 'v \<Rightarrow> ('k \<times> 'v) list \<Rightarrow> ('k \<times> 'v) list" where
  "assoc_put k v [] = [(k, v)]"
| "assoc_put k v ((k', v') # xs) = (if k = k' then (k, v) # xs else (k', v') # assoc_put k v xs)"

definition assoc_del :: "'k \<Rightarrow> ('k \<times> 'v) list \<Rightarrow> ('k \<times> 'v) list" where
  "assoc_del k xs = filter (\<lambda>(k', _). k' \<noteq> k) xs"

lemma map_of_assoc_put [simp]: "map_of (assoc_put k v xs) = (map_of xs)(k \<mapsto> v)"
  by (induction k v xs rule: assoc_put.induct) auto

lemma map_of_assoc_del [simp]: "map_of (assoc_del k xs) = (map_of xs)(k := None)"
  by (induction xs) (auto simp: assoc_del_def fun_eq_iff)

lemma keys_assoc_put [simp]: "fst ` set (assoc_put k v xs) = insert k (fst ` set xs)"
  by (induction k v xs rule: assoc_put.induct) auto

lemma keys_assoc_del [simp]: "fst ` set (assoc_del k xs) = fst ` set xs - {k}"
  by (force simp: assoc_del_def image_iff)

lemma distinct_assoc_put [simp]:
  "distinct (map fst xs) \<Longrightarrow> distinct (map fst (assoc_put k v xs))"
proof (induction k v xs rule: assoc_put.induct)
  case (2 k v k' v' xs)
  then show ?case
    using keys_assoc_put [of k v xs] by (auto simp flip: set_map)
qed simp

lemma distinct_assoc_del [simp]:
  "distinct (map fst xs) \<Longrightarrow> distinct (map fst (assoc_del k xs))"
  by (induction xs) (auto simp: assoc_del_def)

lemma map_of_rev: "distinct (map fst xs) \<Longrightarrow> map_of (rev xs) = map_of xs"
  by (metis distinct_rev map_of_inject_set rev_map set_rev)

lemma set_assoc_put:
  "distinct (map fst xs) \<Longrightarrow>
   set (assoc_put k v xs) = insert (k, v) {(k', v') \<in> set xs. k' \<noteq> k}"
  by (induction k v xs rule: assoc_put.induct) (auto simp: image_iff)

lemma set_assoc_del: "set (assoc_del k xs) = {(k', v') \<in> set xs. k' \<noteq> k}"
  by (auto simp: assoc_del_def)

text \<open>Appending to a list used as a set: Go's \<open>m[k] = true\<close> on a map of booleans.\<close>

definition add_once :: "'a \<Rightarrow> 'a list \<Rightarrow> 'a list" where
  "add_once x xs = (if x \<in> set xs then xs else xs @ [x])"

lemma set_add_once [simp]: "set (add_once x xs) = insert x (set xs)"
  by (auto simp: add_once_def)

lemma distinct_add_once [simp]: "distinct xs \<Longrightarrow> distinct (add_once x xs)"
  by (simp add: add_once_def)

lemma add_once_idem [simp]: "add_once x (add_once x xs) = add_once x xs"
  by (simp add: add_once_def)

lemma list_all_set: "list_all P xs \<longleftrightarrow> (\<forall>x\<in>set xs. P x)"
  by (simp add: list_all_iff)

end
