(* ===== verification/GoStrings.thy ===== *)
theory GoStrings
  imports Prelude
begin

text \<open>
  The parts of Go's \<open>strings\<close> and \<open>strconv\<close> packages the program uses, on byte strings.
  White space is Unicode white space in its UTF-8 encoding, as \<open>strings.TrimSpace\<close> and
  \<open>strings.Fields\<close> see it. Case mapping covers ASCII and the four other runes whose case
  mapping or case folding is an ASCII letter (the Kelvin sign, the long s, the dotted capital
  I and the dotless i); every other non-ASCII rune is left as it is, which no comparison with
  an ASCII string can tell from Go's mapping of it to another non-ASCII rune.
\<close>

section \<open>Character classes\<close>

definition in_range :: "nat \<Rightarrow> nat \<Rightarrow> char \<Rightarrow> bool" where
  "in_range lo hi c \<longleftrightarrow> lo \<le> byte c \<and> byte c \<le> hi"

definition is_digit :: "char \<Rightarrow> bool" where
  "is_digit c \<longleftrightarrow> in_range 48 57 c"

definition is_alnum :: "char \<Rightarrow> bool" where
  "is_alnum c \<longleftrightarrow> in_range 48 57 c \<or> in_range 65 90 c \<or> in_range 97 122 c"

definition is_space1 :: "char \<Rightarrow> bool" where
  "is_space1 a \<longleftrightarrow> in_range 9 13 a \<or> byte a = 32"

definition is_space2 :: "char \<Rightarrow> char \<Rightarrow> bool" where
  "is_space2 a b \<longleftrightarrow> byte a = 0xC2 \<and> (byte b = 0x85 \<or> byte b = 0xA0)"

definition is_space3 :: "char \<Rightarrow> char \<Rightarrow> char \<Rightarrow> bool" where
  "is_space3 a b c \<longleftrightarrow>
     (byte a = 0xE1 \<and> byte b = 0x9A \<and> byte c = 0x80) \<or>
     (byte a = 0xE2 \<and> byte b = 0x80 \<and>
       (in_range 0x80 0x8A c \<or> byte c = 0xA8 \<or> byte c = 0xA9 \<or> byte c = 0xAF)) \<or>
     (byte a = 0xE2 \<and> byte b = 0x81 \<and> byte c = 0x9F) \<or>
     (byte a = 0xE3 \<and> byte b = 0x80 \<and> byte c = 0x80)"

section \<open>Trimming and splitting\<close>

text \<open>\<open>strip_space\<close> removes one white space rune at the front, \<open>rstrip_space\<close> one at the
  front of a reversed string.\<close>

definition strip_space :: "string \<Rightarrow> string option" where
  "strip_space s = (case s of
      [] \<Rightarrow> None
    | a # t \<Rightarrow> if is_space1 a then Some t else (case t of
        [] \<Rightarrow> None
      | b # u \<Rightarrow> if is_space2 a b then Some u else (case u of
          [] \<Rightarrow> None
        | c # v \<Rightarrow> if is_space3 a b c then Some v else None)))"

definition rstrip_space :: "string \<Rightarrow> string option" where
  "rstrip_space s = (case s of
      [] \<Rightarrow> None
    | c # t \<Rightarrow> if is_space1 c then Some t else (case t of
        [] \<Rightarrow> None
      | b # u \<Rightarrow> if is_space2 b c then Some u else (case u of
          [] \<Rightarrow> None
        | a # v \<Rightarrow> if is_space3 a b c then Some v else None)))"

lemma strip_space_shorter: "strip_space s = Some t \<Longrightarrow> length t < length s"
  by (auto simp: strip_space_def split: list.splits if_splits)

lemma rstrip_space_shorter: "rstrip_space s = Some t \<Longrightarrow> length t < length s"
  by (auto simp: rstrip_space_def split: list.splits if_splits)

function trim_left :: "string \<Rightarrow> string" where
  "trim_left s = (case strip_space s of None \<Rightarrow> s | Some t \<Rightarrow> trim_left t)"
  by pat_completeness auto
termination by (relation "measure length") (auto dest: strip_space_shorter)

function trim_rev :: "string \<Rightarrow> string" where
  "trim_rev s = (case rstrip_space s of None \<Rightarrow> s | Some t \<Rightarrow> trim_rev t)"
  by pat_completeness auto
termination by (relation "measure length") (auto dest: rstrip_space_shorter)

declare trim_left.simps [simp del] trim_rev.simps [simp del]

definition trim_space :: "string \<Rightarrow> string" where
  "trim_space s = rev (trim_rev (rev (trim_left s)))"

function fields_go :: "string \<Rightarrow> string \<Rightarrow> string list" where
  "fields_go cur s = (case s of
      [] \<Rightarrow> (if cur = [] then [] else [cur])
    | a # t \<Rightarrow> (case strip_space s of
        None \<Rightarrow> fields_go (cur @ [a]) t
      | Some u \<Rightarrow> (if cur = [] then [] else [cur]) @ fields_go [] u))"
  by pat_completeness auto
termination by (relation "measure (length \<circ> snd)") (auto dest: strip_space_shorter)

declare fields_go.simps [simp del]

definition fields :: "string \<Rightarrow> string list" where
  "fields s = fields_go [] s"

fun split_on :: "char \<Rightarrow> string \<Rightarrow> string list" where
  "split_on c [] = [[]]"
| "split_on c (x # xs) = (if x = c then [] # split_on c xs
     else (case split_on c xs of [] \<Rightarrow> [[x]] | w # ws \<Rightarrow> (x # w) # ws))"

definition split2 :: "char \<Rightarrow> string \<Rightarrow> string list" where
  "split2 c s = (if c \<in> set s then [takeWhile (\<lambda>x. x \<noteq> c) s, tl (dropWhile (\<lambda>x. x \<noteq> c) s)]
     else [s])"

definition has_prefix :: "string \<Rightarrow> string \<Rightarrow> bool" where
  "has_prefix s p \<longleftrightarrow> prefix p s"

definition has_suffix :: "string \<Rightarrow> string \<Rightarrow> bool" where
  "has_suffix s p \<longleftrightarrow> prefix (rev p) (rev s)"

definition trim_prefix :: "string \<Rightarrow> string \<Rightarrow> string" where
  "trim_prefix s p = (if has_prefix s p then drop (length p) s else s)"

definition trim_suffix :: "string \<Rightarrow> string \<Rightarrow> string" where
  "trim_suffix s p = (if has_suffix s p then take (length s - length p) s else s)"

text \<open>\<open>strings.Trim\<close> with a cut set of ASCII characters.\<close>

definition trim_chars :: "char list \<Rightarrow> string \<Rightarrow> string" where
  "trim_chars cs s =
     rev (dropWhile (\<lambda>c. c \<in> set cs) (rev (dropWhile (\<lambda>c. c \<in> set cs) s)))"

fun contains :: "string \<Rightarrow> string \<Rightarrow> bool" where
  "contains [] sub \<longleftrightarrow> sub = []"
| "contains (x # xs) sub \<longleftrightarrow> prefix sub (x # xs) \<or> contains xs sub"

text \<open>\<open>strings.ReplaceAll\<close>; the program replaces non-empty strings only.\<close>

function replace_all :: "string \<Rightarrow> string \<Rightarrow> string \<Rightarrow> string" where
  "replace_all old new s = (case s of
      [] \<Rightarrow> []
    | x # xs \<Rightarrow> if old \<noteq> [] \<and> prefix old s then new @ replace_all old new (drop (length old) s)
        else x # replace_all old new xs)"
  by pat_completeness auto
termination
  by (relation "measure (\<lambda>(old, new, s). length s)") auto

declare replace_all.simps [simp del]

definition index_byte :: "char \<Rightarrow> string \<Rightarrow> nat option" where
  "index_byte c s = (if c \<in> set s then Some (length (takeWhile (\<lambda>x. x \<noteq> c) s)) else None)"

definition last_index_byte :: "char \<Rightarrow> string \<Rightarrow> nat option" where
  "last_index_byte c s =
     (if c \<in> set s then Some (length s - 1 - length (takeWhile (\<lambda>x. x \<noteq> c) (rev s))) else None)"

section \<open>Case mapping\<close>

definition lower_byte :: "char \<Rightarrow> char" where
  "lower_byte c = (if in_range 65 90 c then char_of (byte c + 32) else c)"

definition upper_byte :: "char \<Rightarrow> char" where
  "upper_byte c = (if in_range 97 122 c then char_of (byte c - 32) else c)"

fun to_lower :: "string \<Rightarrow> string" where
  "to_lower (a # b # c # s) =
     (if byte a = 0xE2 \<and> byte b = 0x84 \<and> byte c = 0xAA then CHR ''k'' # to_lower s
      else if byte a = 0xC4 \<and> byte b = 0xB0 then CHR ''i'' # to_lower (c # s)
      else lower_byte a # to_lower (b # c # s))"
| "to_lower [a, b] =
     (if byte a = 0xC4 \<and> byte b = 0xB0 then [CHR ''i''] else [lower_byte a, lower_byte b])"
| "to_lower [a] = [lower_byte a]"
| "to_lower [] = []"

fun to_upper :: "string \<Rightarrow> string" where
  "to_upper (a # b # s) =
     (if byte a = 0xC5 \<and> byte b = 0xBF then CHR ''S'' # to_upper s
      else if byte a = 0xC4 \<and> byte b = 0xB1 then CHR ''I'' # to_upper s
      else upper_byte a # to_upper (b # s))"
| "to_upper [a] = [upper_byte a]"
| "to_upper [] = []"

text \<open>Simple case folding, as \<open>strings.EqualFold\<close> and the field matching of
  \<open>encoding/json\<close> use it: the Kelvin sign folds with k and the long s with s.\<close>

fun fold_case :: "string \<Rightarrow> string" where
  "fold_case (a # b # c # s) =
     (if byte a = 0xE2 \<and> byte b = 0x84 \<and> byte c = 0xAA then CHR ''k'' # fold_case s
      else if byte a = 0xC5 \<and> byte b = 0xBF then CHR ''s'' # fold_case (c # s)
      else lower_byte a # fold_case (b # c # s))"
| "fold_case [a, b] =
     (if byte a = 0xC5 \<and> byte b = 0xBF then [CHR ''s''] else [lower_byte a, lower_byte b])"
| "fold_case [a] = [lower_byte a]"
| "fold_case [] = []"

definition equal_fold :: "string \<Rightarrow> string \<Rightarrow> bool" where
  "equal_fold s t \<longleftrightarrow> fold_case s = fold_case t"

declare to_lower.simps [simp del] to_upper.simps [simp del] fold_case.simps [simp del]

section \<open>Decimal integers\<close>

definition digit_char :: "nat \<Rightarrow> char" where
  "digit_char n = char_of (48 + n)"

fun nat_digits :: "nat \<Rightarrow> string" where
  "nat_digits n = (if n < 10 then [digit_char n] else nat_digits (n div 10) @ [digit_char (n mod 10)])"

declare nat_digits.simps [simp del]

definition itoa :: "int \<Rightarrow> string" where
  "itoa i = (if i < 0 then CHR ''-'' # nat_digits (nat (- i)) else nat_digits (nat i))"

text \<open>\<open>strconv.ParseInt\<close> at base 10 and 64 bits: on a range error Go returns the nearest
  64-bit value together with the error, on a syntax error 0.\<close>

datatype num_parse = NumOk int | NumRange int | NumSyntax

fun num_val :: "num_parse \<Rightarrow> int" where
  "num_val (NumOk i) = i"
| "num_val (NumRange i) = i"
| "num_val NumSyntax = 0"

fun parse_uint_go :: "nat \<Rightarrow> string \<Rightarrow> num_parse" where
  "parse_uint_go n [] = NumOk (int n)"
| "parse_uint_go n (c # cs) =
     (if \<not> is_digit c then NumSyntax
      else if n * 10 + (byte c - 48) > 2 ^ 64 - 1 then NumRange (2 ^ 64 - 1)
      else parse_uint_go (n * 10 + (byte c - 48)) cs)"

definition parse_uint :: "string \<Rightarrow> num_parse" where
  "parse_uint s = (if s = [] then NumSyntax else parse_uint_go 0 s)"

definition signed_range :: "bool \<Rightarrow> int \<Rightarrow> num_parse" where
  "signed_range neg u =
     (if \<not> neg \<and> u \<ge> 2 ^ 63 then NumRange (2 ^ 63 - 1)
      else if neg \<and> u > 2 ^ 63 then NumRange (- (2 ^ 63))
      else NumOk (if neg then - u else u))"

definition parse_int64 :: "string \<Rightarrow> num_parse" where
  "parse_int64 s =
     (let neg = (s \<noteq> [] \<and> hd s = CHR ''-'');
          body = (if s \<noteq> [] \<and> (hd s = CHR ''-'' \<or> hd s = CHR ''+'') then tl s else s)
      in case parse_uint body of
           NumSyntax \<Rightarrow> NumSyntax
         | NumRange u \<Rightarrow> signed_range neg u
         | NumOk u \<Rightarrow> signed_range neg u)"

section \<open>Facts\<close>

subsection \<open>Trimming\<close>

lemma strip_space_append: "strip_space p = Some t \<Longrightarrow> strip_space (p @ q) = Some (t @ q)"
  by (auto simp: strip_space_def split: list.splits if_splits)

lemma strip_space_suffix: "strip_space s = Some t \<Longrightarrow> set t \<subseteq> set s"
  by (auto simp: strip_space_def split: list.splits if_splits)

lemma rstrip_space_drop: "rstrip_space s = Some t \<Longrightarrow> \<exists>w. s = w @ t"
  by (auto simp: rstrip_space_def split: list.splits if_splits)

lemma trim_left_done: "strip_space s = None \<Longrightarrow> trim_left s = s"
  by (subst trim_left.simps) simp

lemma trim_rev_done: "rstrip_space s = None \<Longrightarrow> trim_rev s = s"
  by (subst trim_rev.simps) simp

lemma strip_space_trim_left [simp]: "strip_space (trim_left s) = None"
proof (induction s rule: trim_left.induct)
  case (1 s)
  then show ?case
    by (cases "strip_space s") (simp_all add: trim_left.simps [of s])
qed

lemma rstrip_space_trim_rev [simp]: "rstrip_space (trim_rev s) = None"
proof (induction s rule: trim_rev.induct)
  case (1 s)
  then show ?case
    by (cases "rstrip_space s") (simp_all add: trim_rev.simps [of s])
qed

lemma set_trim_left: "set (trim_left s) \<subseteq> set s"
proof (induction s rule: trim_left.induct)
  case (1 s)
  then show ?case
    by (cases "strip_space s") (auto simp: trim_left.simps [of s] dest: strip_space_suffix)
qed

lemma trim_rev_drop: "\<exists>w. s = w @ trim_rev s"
proof (induction s rule: trim_rev.induct)
  case (1 s)
  show ?case
  proof (cases "rstrip_space s")
    case None
    then show ?thesis by (simp add: trim_rev_done)
  next
    case (Some t)
    with 1 obtain w where "t = w @ trim_rev t" by blast
    moreover obtain v where "s = v @ t" using rstrip_space_drop [OF Some] by blast
    moreover have "trim_rev s = trim_rev t"
      using Some by (simp add: trim_rev.simps [of s])
    ultimately have "s = (v @ w) @ trim_rev s" by simp
    then show ?thesis by blast
  qed
qed

lemma trim_space_prefix: "\<exists>w. trim_left s = trim_space s @ w"
proof -
  obtain w where "rev (trim_left s) = w @ trim_rev (rev (trim_left s))"
    using trim_rev_drop by blast
  then have "trim_left s = trim_space s @ rev w"
    by (metis rev_append rev_rev_ident trim_space_def)
  then show ?thesis by blast
qed

lemma set_trim_space: "set (trim_space s) \<subseteq> set s"
  using trim_space_prefix [of s] set_trim_left [of s] by (metis Un_iff set_append subset_iff)

lemma strip_space_trim_space [simp]: "strip_space (trim_space s) = None"
proof (cases "strip_space (trim_space s)")
  case (Some t)
  obtain w where "trim_left s = trim_space s @ w" using trim_space_prefix by blast
  with Some have "strip_space (trim_left s) = Some (t @ w)"
    by (simp add: strip_space_append)
  then show ?thesis by simp
qed

lemma trim_space_done:
  "strip_space s = None \<Longrightarrow> rstrip_space (rev s) = None \<Longrightarrow> trim_space s = s"
  by (simp add: trim_space_def trim_left_done trim_rev_done)

lemma trim_space_idem [simp]: "trim_space (trim_space s) = trim_space s"
proof (rule trim_space_done)
  show "rstrip_space (rev (trim_space s)) = None" by (simp add: trim_space_def)
qed simp

lemma trim_space_Nil [simp]: "trim_space [] = []"
  by (rule trim_space_done) (simp_all add: strip_space_def rstrip_space_def)

text \<open>A string whose first and last byte are printable ASCII is already trimmed.\<close>

definition graphic :: "char \<Rightarrow> bool" where
  "graphic c \<longleftrightarrow> in_range 33 126 c"

lemma graphic_no_space:
  assumes "graphic c"
  shows "\<not> is_space1 c" "\<not> is_space2 c b" "\<not> is_space3 c a b" "\<not> is_space2 b c" "\<not> is_space3 a b c"
  using assms by (auto simp: graphic_def in_range_def is_space1_def is_space2_def is_space3_def)

lemma trim_space_graphic:
  assumes "s \<noteq> []" "graphic (hd s)" "graphic (last s)"
  shows "trim_space s = s"
proof (rule trim_space_done)
  obtain a t where "s = a # t" using assms(1) by (cases s) auto
  with assms(2) show "strip_space s = None"
    by (simp add: strip_space_def graphic_no_space split: list.split)
  obtain u b where "s = u @ [b]" using assms(1) by (cases s rule: rev_cases) auto
  with assms(3) show "rstrip_space (rev s) = None"
    by (simp add: rstrip_space_def graphic_no_space split: list.split)
qed

subsection \<open>Splitting\<close>

lemma split_on_not_Nil [simp]: "split_on c s \<noteq> []"
  by (cases s) (auto split: list.splits)

lemma split_on_no_sep: "w \<in> set (split_on c s) \<Longrightarrow> c \<notin> set w"
proof (induction s arbitrary: w)
  case (Cons x xs)
  then show ?case
    by (cases "split_on c xs") (auto split: if_splits)
qed simp

lemma split_on_chars: "w \<in> set (split_on c s) \<Longrightarrow> set w \<subseteq> set s"
proof (induction s arbitrary: w)
  case (Cons x xs)
  then show ?case
    by (cases "split_on c xs") (fastforce split: if_splits)+
qed simp

lemma split_on_absent: "c \<notin> set s \<Longrightarrow> split_on c s = [s]"
  by (induction s) auto

lemma split_on_append: "c \<notin> set s \<Longrightarrow> split_on c (s @ c # t) = s # split_on c t"
  by (induction s) auto

text \<open>Joining with the separator undoes the split.\<close>

fun join_with :: "char \<Rightarrow> string list \<Rightarrow> string" where
  "join_with c [] = []"
| "join_with c [w] = w"
| "join_with c (w # v # ws) = w @ c # join_with c (v # ws)"

lemma join_split: "join_with c (split_on c s) = s"
proof (induction s)
  case (Cons x xs)
  obtain w ws where w: "split_on c xs = w # ws" by (cases "split_on c xs") auto
  have "join_with c ((x # w) # ws) = x # join_with c (w # ws)" by (cases ws) auto
  moreover have "join_with c ([] # w # ws) = c # join_with c (w # ws)" by simp
  ultimately show ?case using Cons w by auto
qed simp

lemma split_join:
  "ws \<noteq> [] \<Longrightarrow> \<forall>w\<in>set ws. c \<notin> set w \<Longrightarrow> split_on c (join_with c ws) = ws"
  by (induction c ws rule: join_with.induct) (auto simp: split_on_append split_on_absent)

subsection \<open>Prefixes and suffixes\<close>

lemma has_prefix_iff: "has_prefix s p \<longleftrightarrow> (\<exists>t. s = p @ t)"
  by (auto simp: has_prefix_def prefix_def)

lemma has_suffix_iff: "has_suffix s p \<longleftrightarrow> (\<exists>t. s = t @ p)"
  unfolding has_suffix_def prefix_def by (metis rev_append rev_rev_ident)

lemma trim_prefix_append [simp]: "trim_prefix (p @ t) p = t"
  by (simp add: trim_prefix_def has_prefix_iff)

lemma trim_suffix_append [simp]: "trim_suffix (t @ p) p = t"
  by (simp add: trim_suffix_def has_suffix_iff)

lemma trim_prefix_absent: "\<not> has_prefix s p \<Longrightarrow> trim_prefix s p = s"
  by (simp add: trim_prefix_def)

lemma trim_suffix_absent: "\<not> has_suffix s p \<Longrightarrow> trim_suffix s p = s"
  by (simp add: trim_suffix_def)

lemma contains_iff: "contains s sub \<longleftrightarrow> (\<exists>u v. s = u @ sub @ v)"
proof (induction s)
  case (Cons x xs)
  show ?case
  proof
    assume "contains (x # xs) sub"
    then consider v where "x # xs = [] @ sub @ v" | u v where "x # xs = (x # u) @ sub @ v"
      using Cons.IH by (auto simp: prefix_def)
    then show "\<exists>u v. x # xs = u @ sub @ v" by cases blast+
  next
    assume "\<exists>u v. x # xs = u @ sub @ v"
    then obtain u v where e: "x # xs = u @ sub @ v" by blast
    show "contains (x # xs) sub"
    proof (cases u)
      case Nil
      with e have "prefix sub (x # xs)" unfolding prefix_def by (metis append_Nil)
      then show ?thesis by simp
    next
      case (Cons a w)
      with e have "\<exists>u v. xs = u @ sub @ v" by auto
      with Cons.IH show ?thesis by simp
    qed
  qed
qed auto

lemma contains_infix: "contains (u @ sub @ v) sub"
  using contains_iff by blast

subsection \<open>Positions of a byte\<close>

lemma index_byte_Some:
  assumes "index_byte c s = Some i"
  shows "\<exists>u v. s = u @ c # v \<and> i = length u \<and> c \<notin> set u"
proof -
  have "c \<in> set s" using assms by (auto simp: index_byte_def split: if_splits)
  then obtain u v where s: "s = u @ c # v" "c \<notin> set u" by (meson split_list_first)
  then have "takeWhile (\<lambda>x. x \<noteq> c) s = u" by (auto simp: takeWhile_tail)
  with s assms show ?thesis by (auto simp: index_byte_def)
qed

lemma last_index_byte_Some:
  assumes "last_index_byte c s = Some i"
  shows "\<exists>u v. s = u @ c # v \<and> i = length u \<and> c \<notin> set v"
proof -
  have "c \<in> set s" using assms by (auto simp: last_index_byte_def split: if_splits)
  then obtain u v where s: "s = u @ c # v" "c \<notin> set v" by (meson split_list_last)
  then have "takeWhile (\<lambda>x. x \<noteq> c) (rev s) = rev v" by (auto simp: takeWhile_tail)
  with s assms show ?thesis by (auto simp: last_index_byte_def)
qed

lemma last_index_byte_append:
  "c \<notin> set v \<Longrightarrow> last_index_byte c (u @ c # v) = Some (length u)"
proof -
  assume "c \<notin> set v"
  then have "takeWhile (\<lambda>x. x \<noteq> c) (rev v @ c # rev u) = rev v" by (auto simp: takeWhile_tail)
  then show ?thesis by (simp add: last_index_byte_def)
qed

subsection \<open>Integers\<close>

lemma digit_char_props:
  assumes "n < 10"
  shows "is_digit (digit_char n)" "byte (digit_char n) - 48 = n"
    "digit_char n \<noteq> CHR ''-''" "digit_char n \<noteq> CHR ''+''"
proof -
  have b: "byte (digit_char n) = 48 + n"
    using assms by (simp add: digit_char_def)
  then show "is_digit (digit_char n)" "byte (digit_char n) - 48 = n"
    using assms by (auto simp: is_digit_def in_range_def)
  have "byte (CHR ''-'') = 45" "byte (CHR ''+'') = 43" by (simp_all add: byte_def)
  with b show "digit_char n \<noteq> CHR ''-''" "digit_char n \<noteq> CHR ''+''" by auto
qed

lemma nat_digits_not_Nil [simp]: "nat_digits n \<noteq> []"
  by (subst nat_digits.simps) simp

lemma nat_digits_digit: "c \<in> set (nat_digits n) \<Longrightarrow> is_digit c"
proof (induction n rule: nat_digits.induct)
  case (1 n)
  show ?case
  proof (cases "n < 10")
    case True
    with 1 show ?thesis by (simp add: nat_digits.simps [of n] digit_char_props)
  next
    case False
    with 1 show ?thesis by (auto simp: nat_digits.simps [of n] digit_char_props)
  qed
qed

lemma parse_uint_go_append:
  "parse_uint_go n (s @ [c]) =
     (case parse_uint_go n s of
        NumOk u \<Rightarrow> parse_uint_go (nat u) [c]
      | NumRange u \<Rightarrow> NumRange u
      | NumSyntax \<Rightarrow> NumSyntax)"
  by (induction n s rule: parse_uint_go.induct) auto

lemma parse_uint_go_digits: "n < 2 ^ 64 \<Longrightarrow> parse_uint_go 0 (nat_digits n) = NumOk (int n)"
proof (induction n rule: nat_digits.induct)
  case (1 n)
  show ?case
  proof (cases "n < 10")
    case True
    then show ?thesis
      by (simp add: nat_digits.simps [of n] digit_char_props)
  next
    case False
    have m: "n mod 10 < 10" by simp
    have "n div 10 < 2 ^ 64" using "1.prems" by linarith
    with False 1 have "parse_uint_go 0 (nat_digits (n div 10)) = NumOk (int (n div 10))" by simp
    moreover have "n div 10 * 10 + n mod 10 = n" by simp
    ultimately show ?thesis
      using False "1.prems"
      by (simp add: nat_digits.simps [of n] parse_uint_go_append digit_char_props [OF m])
  qed
qed

lemma nat_digits_hd: "hd (nat_digits n) \<noteq> CHR ''-'' \<and> hd (nat_digits n) \<noteq> CHR ''+''"
proof -
  have "is_digit (hd (nat_digits n))"
    by (rule nat_digits_digit [of _ n]) simp
  then show ?thesis by (auto simp: is_digit_def in_range_def byte_def)
qed

lemma parse_int64_itoa [codec_simps]:
  assumes "- (2 ^ 63) \<le> i" "i < 2 ^ 63"
  shows "parse_int64 (itoa i) = NumOk i"
proof (cases "i < 0")
  case True
  then have "nat (- i) < 2 ^ 64" using assms by auto
  with True assms show ?thesis
    by (simp add: parse_int64_def itoa_def parse_uint_def parse_uint_go_digits signed_range_def Let_def)
next
  case False
  then have "nat i < 2 ^ 64" using assms by auto
  with False assms nat_digits_hd [of "nat i"] show ?thesis
    by (simp add: parse_int64_def itoa_def parse_uint_def parse_uint_go_digits signed_range_def Let_def)
qed

lemma parse_uint_go_bounds:
  "n < 2 ^ 64 \<Longrightarrow> 0 \<le> num_val (parse_uint_go n s) \<and> num_val (parse_uint_go n s) < 2 ^ 64"
  by (induction n s rule: parse_uint_go.induct) auto

lemma signed_range_bounds:
  "0 \<le> u \<Longrightarrow> - (2 ^ 63) \<le> num_val (signed_range neg u) \<and> num_val (signed_range neg u) < 2 ^ 63"
  by (simp add: signed_range_def)

lemma parse_uint_nonneg: "0 \<le> num_val (parse_uint t)"
  using parse_uint_go_bounds [of 0 t] by (simp add: parse_uint_def)

lemma parse_int64_bounds: "- (2 ^ 63) \<le> num_val (parse_int64 s) \<and> num_val (parse_int64 s) < 2 ^ 63"
proof -
  define body where "body = (if s \<noteq> [] \<and> (hd s = CHR ''-'' \<or> hd s = CHR ''+'') then tl s else s)"
  define neg where "neg = (s \<noteq> [] \<and> hd s = CHR ''-'')"
  have "num_val (parse_int64 s) = 0 \<or> (\<exists>u\<ge>0. parse_int64 s = signed_range neg u)"
    using parse_uint_nonneg [of body]
    by (cases "parse_uint body") (auto simp: parse_int64_def Let_def body_def neg_def)
  then show ?thesis
    using signed_range_bounds [of _ neg] by force
qed

lemma itoa_not_Nil [simp]: "itoa i \<noteq> []"
  by (simp add: itoa_def)

lemma itoa_inject:
  assumes "- (2 ^ 63) \<le> i" "i < 2 ^ 63" "- (2 ^ 63) \<le> j" "j < 2 ^ 63" "itoa i = itoa j"
  shows "i = j"
  using parse_int64_itoa [OF assms(1,2)] parse_int64_itoa [OF assms(3,4)] assms(5)
  by (metis num_parse.inject(1))

end
