(* ===== verification/GoRegex.thy ===== *)
theory GoRegex
  imports GoStrings
begin

text \<open>
  Regular expressions as Go's \<open>regexp\<close> package matches them: the program's patterns are
  anchored by \<open>^\<close> and \<open>$\<close> (without the multi-line flag \<open>$\<close> is the end of the text), so
  \<open>MatchString\<close> decides membership of the whole text in the pattern's language. \<open>rlang\<close> is
  that language, \<open>rmatch\<close> an executable matcher by derivatives, and \<open>rmatch_iff\<close> says the two
  agree. Classes are sets of byte ranges; every class of the program either lists ASCII
  characters or excludes ASCII characters, so matching bytes and matching UTF-8 runes agree.
\<close>

section \<open>Syntax and language\<close>

datatype regex =
    RNone
  | REmpty
  | RClass bool "(nat \<times> nat) list"
  | RSeq regex regex
  | RAlt regex regex
  | RStar regex

fun in_class :: "bool \<Rightarrow> (nat \<times> nat) list \<Rightarrow> char \<Rightarrow> bool" where
  "in_class pos rs c \<longleftrightarrow> (list_ex (\<lambda>(lo, hi). in_range lo hi c) rs \<longleftrightarrow> pos)"

declare in_class.simps [simp del]

inductive_set star_lang :: "string set \<Rightarrow> string set" for A where
  star_Nil: "[] \<in> star_lang A"
| star_step: "u \<in> A \<Longrightarrow> v \<in> star_lang A \<Longrightarrow> u @ v \<in> star_lang A"

fun rlang :: "regex \<Rightarrow> string set" where
  "rlang RNone = {}"
| "rlang REmpty = {[]}"
| "rlang (RClass pos rs) = {[c] | c. in_class pos rs c}"
| "rlang (RSeq r q) = {u @ v | u v. u \<in> rlang r \<and> v \<in> rlang q}"
| "rlang (RAlt r q) = rlang r \<union> rlang q"
| "rlang (RStar r) = star_lang (rlang r)"

section \<open>Derived forms\<close>

definition ropt :: "regex \<Rightarrow> regex" where
  "ropt r = RAlt r REmpty"

definition rplus :: "regex \<Rightarrow> regex" where
  "rplus r = RSeq r (RStar r)"

definition rchar :: "char \<Rightarrow> regex" where
  "rchar c = RClass True [(byte c, byte c)]"

text \<open>At most \<open>n\<close> copies, Go's \<open>r{0,n}\<close>, and exactly \<open>n\<close> copies.\<close>

fun rupto :: "nat \<Rightarrow> regex \<Rightarrow> regex" where
  "rupto 0 r = REmpty"
| "rupto (Suc n) r = ropt (RSeq r (rupto n r))"

fun rtimes :: "nat \<Rightarrow> regex \<Rightarrow> regex" where
  "rtimes 0 r = REmpty"
| "rtimes (Suc n) r = RSeq r (rtimes n r)"

definition rbetween :: "nat \<Rightarrow> nat \<Rightarrow> regex \<Rightarrow> regex" where
  "rbetween lo hi r = RSeq (rtimes lo r) (rupto (hi - lo) r)"

fun rlit :: "string \<Rightarrow> regex" where
  "rlit [] = REmpty"
| "rlit (c # cs) = RSeq (rchar c) (rlit cs)"

definition rany :: "regex list \<Rightarrow> regex" where
  "rany rs = foldr RAlt rs RNone"

section \<open>The matcher\<close>

fun nullable :: "regex \<Rightarrow> bool" where
  "nullable RNone \<longleftrightarrow> False"
| "nullable REmpty \<longleftrightarrow> True"
| "nullable (RClass _ _) \<longleftrightarrow> False"
| "nullable (RSeq r q) \<longleftrightarrow> nullable r \<and> nullable q"
| "nullable (RAlt r q) \<longleftrightarrow> nullable r \<or> nullable q"
| "nullable (RStar _) \<longleftrightarrow> True"

fun mk_seq :: "regex \<Rightarrow> regex \<Rightarrow> regex" where
  "mk_seq RNone q = RNone"
| "mk_seq REmpty q = q"
| "mk_seq r q = (if q = RNone then RNone else RSeq r q)"

fun mk_alt :: "regex \<Rightarrow> regex \<Rightarrow> regex" where
  "mk_alt RNone q = q"
| "mk_alt r q = (if q = RNone \<or> r = q then r else RAlt r q)"

fun rderiv :: "char \<Rightarrow> regex \<Rightarrow> regex" where
  "rderiv c RNone = RNone"
| "rderiv c REmpty = RNone"
| "rderiv c (RClass pos rs) = (if in_class pos rs c then REmpty else RNone)"
| "rderiv c (RSeq r q) =
     (if nullable r then mk_alt (mk_seq (rderiv c r) q) (rderiv c q) else mk_seq (rderiv c r) q)"
| "rderiv c (RAlt r q) = mk_alt (rderiv c r) (rderiv c q)"
| "rderiv c (RStar r) = mk_seq (rderiv c r) (RStar r)"

fun rmatch :: "regex \<Rightarrow> string \<Rightarrow> bool" where
  "rmatch r [] = nullable r"
| "rmatch r (c # cs) = rmatch (rderiv c r) cs"

section \<open>The matcher decides the language\<close>

lemma nullable_iff: "nullable r \<longleftrightarrow> [] \<in> rlang r"
  by (induction r) (auto intro: star_lang.intros)

lemma mk_seq_lang [simp]: "rlang (mk_seq r q) = rlang (RSeq r q)"
  by (cases r) auto

lemma mk_alt_lang [simp]: "rlang (mk_alt r q) = rlang r \<union> rlang q"
  by (cases r) auto

lemma star_lang_Cons:
  "c # s \<in> star_lang A \<longleftrightarrow> (\<exists>u v. c # u \<in> A \<and> v \<in> star_lang A \<and> s = u @ v)"
proof
  assume "c # s \<in> star_lang A"
  then show "\<exists>u v. c # u \<in> A \<and> v \<in> star_lang A \<and> s = u @ v"
  proof (induction "c # s")
    case (star_step u v)
    then show ?case by (cases u) auto
  qed
next
  assume "\<exists>u v. c # u \<in> A \<and> v \<in> star_lang A \<and> s = u @ v"
  then obtain u v where "c # u \<in> A" "v \<in> star_lang A" "s = u @ v" by blast
  then show "c # s \<in> star_lang A"
    using star_lang.star_step [of "c # u" A v] by simp
qed

lemma seq_lang_Cons:
  "(\<exists>u v. c # s = u @ v \<and> u \<in> A \<and> v \<in> B) \<longleftrightarrow>
   ([] \<in> A \<and> c # s \<in> B) \<or> (\<exists>u v. s = u @ v \<and> c # u \<in> A \<and> v \<in> B)"
  by (auto simp: Cons_eq_append_conv)

lemma rderiv_lang: "s \<in> rlang (rderiv c r) \<longleftrightarrow> c # s \<in> rlang r"
proof (induction r arbitrary: s)
  case (RSeq r q)
  have "c # s \<in> rlang (RSeq r q) \<longleftrightarrow>
    ([] \<in> rlang r \<and> c # s \<in> rlang q) \<or> (\<exists>u v. s = u @ v \<and> c # u \<in> rlang r \<and> v \<in> rlang q)"
    using seq_lang_Cons [of c s "rlang r" "rlang q"] by simp
  then show ?case
    using RSeq by (auto simp: nullable_iff)
next
  case (RStar r)
  then show ?case by (auto simp: star_lang_Cons)
qed auto

theorem rmatch_iff: "rmatch r s \<longleftrightarrow> s \<in> rlang r"
  by (induction s arbitrary: r) (simp_all add: nullable_iff rderiv_lang)

declare rmatch.simps [simp del]

section \<open>What a match says about the text\<close>

text \<open>\<open>only_chars P r\<close>: every class of the pattern is within \<open>P\<close>; then every matched text is.\<close>

fun only_chars :: "(char \<Rightarrow> bool) \<Rightarrow> regex \<Rightarrow> bool" where
  "only_chars P RNone = True"
| "only_chars P REmpty = True"
| "only_chars P (RClass pos rs) = (\<forall>c. in_class pos rs c \<longrightarrow> P c)"
| "only_chars P (RSeq r q) = (only_chars P r \<and> only_chars P q)"
| "only_chars P (RAlt r q) = (only_chars P r \<and> only_chars P q)"
| "only_chars P (RStar r) = only_chars P r"

lemma star_lang_chars:
  "s \<in> star_lang A \<Longrightarrow> (\<And>u. u \<in> A \<Longrightarrow> \<forall>c\<in>set u. P c) \<Longrightarrow> \<forall>c\<in>set s. P c"
  by (induction rule: star_lang.induct) auto

lemma only_chars_lang: "only_chars P r \<Longrightarrow> s \<in> rlang r \<Longrightarrow> \<forall>c\<in>set s. P c"
proof (induction r arbitrary: s)
  case (RStar r)
  then show ?case using star_lang_chars [of s "rlang r" P] by simp
next
  case (RSeq r q)
  then show ?case by fastforce
qed auto

lemma rmatch_chars: "rmatch r s \<Longrightarrow> only_chars P r \<Longrightarrow> c \<in> set s \<Longrightarrow> P c"
  using only_chars_lang by (auto simp: rmatch_iff)

lemma only_chars_ropt [simp]: "only_chars P (ropt r) = only_chars P r"
  by (simp add: ropt_def)

lemma only_chars_rplus [simp]: "only_chars P (rplus r) = only_chars P r"
  by (simp add: rplus_def)

lemma in_range_single: "in_range (byte c) (byte c) d \<longleftrightarrow> d = c"
  by (metis byte_inject in_range_def le_antisym order_refl)

lemma in_class_single [simp]: "in_class True [(byte c, byte c)] d \<longleftrightarrow> d = c"
  by (simp add: in_class.simps in_range_single)

lemma only_chars_rchar [simp]: "only_chars P (rchar c) = P c"
  by (simp add: rchar_def)

lemma only_chars_rupto [simp]: "only_chars P r \<Longrightarrow> only_chars P (rupto n r)"
  by (induction n) auto

lemma only_chars_rtimes [simp]: "only_chars P r \<Longrightarrow> only_chars P (rtimes n r)"
  by (induction n) auto

lemma only_chars_rbetween [simp]: "only_chars P r \<Longrightarrow> only_chars P (rbetween lo hi r)"
  by (simp add: rbetween_def)

lemma rlang_rlit [simp]: "rlang (rlit s) = {s}"
  by (induction s) (auto simp: rchar_def)

lemma rlang_rany [simp]: "rlang (rany rs) = (\<Union>r\<in>set rs. rlang r)"
  by (induction rs) (auto simp: rany_def)

text \<open>\<open>starts_in P r\<close>: every matched text is non-empty and starts with a character of \<open>P\<close>.\<close>

fun starts_in :: "(char \<Rightarrow> bool) \<Rightarrow> regex \<Rightarrow> bool" where
  "starts_in P RNone = True"
| "starts_in P REmpty = False"
| "starts_in P (RClass pos rs) = (\<forall>c. in_class pos rs c \<longrightarrow> P c)"
| "starts_in P (RSeq r q) = (starts_in P r \<or> rlang r = {[]} \<and> starts_in P q)"
| "starts_in P (RAlt r q) = (starts_in P r \<and> starts_in P q)"
| "starts_in P (RStar r) = False"

lemma starts_in_lang: "starts_in P r \<Longrightarrow> s \<in> rlang r \<Longrightarrow> s \<noteq> [] \<and> P (hd s)"
proof (induction r arbitrary: s)
  case (RSeq r q)
  then show ?case by fastforce
qed auto

lemma rmatch_starts: "rmatch r s \<Longrightarrow> starts_in P r \<Longrightarrow> s \<noteq> [] \<and> P (hd s)"
  using starts_in_lang by (auto simp: rmatch_iff)

lemma rmatch_rany_lits: "rmatch (rany (map rlit ws)) s \<longleftrightarrow> s \<in> set ws"
  by (simp add: rmatch_iff)

lemma rmatch_rplus_class:
  "rmatch (rplus (RClass pos rs)) s \<longleftrightarrow> s \<noteq> [] \<and> (\<forall>c\<in>set s. in_class pos rs c)"
proof -
  have star: "t \<in> star_lang {[c] | c. in_class pos rs c} \<longleftrightarrow> (\<forall>c\<in>set t. in_class pos rs c)" for t
  proof (induction t)
    case Nil
    show ?case by (simp add: star_lang.star_Nil)
  next
    case (Cons d t)
    then show ?case by (auto simp: star_lang_Cons)
  qed
  show ?thesis
  proof (cases s)
    case Nil
    then show ?thesis by (simp add: rmatch_iff rplus_def)
  next
    case (Cons a t)
    have "(\<exists>u v. a # t = u @ v \<and> (\<exists>c. u = [c] \<and> in_class pos rs c) \<and> (\<forall>c\<in>set v. in_class pos rs c)) \<longleftrightarrow>
      in_class pos rs a \<and> (\<forall>c\<in>set t. in_class pos rs c)"
      by (auto simp: Cons_eq_append_conv intro: exI [of _ "[a]"])
    with Cons show ?thesis by (simp add: rmatch_iff rplus_def star)
  qed
qed

lemma rlang_rupto_class:
  "s \<in> rlang (rupto n (RClass pos rs)) \<longleftrightarrow> length s \<le> n \<and> (\<forall>c\<in>set s. in_class pos rs c)"
proof (induction n arbitrary: s)
  case (Suc n)
  then show ?case
    by (cases s) (auto simp: ropt_def Cons_eq_append_conv intro: exI [of _ "[_]"])
qed auto

lemma rlang_rtimes_class:
  "s \<in> rlang (rtimes n (RClass pos rs)) \<longleftrightarrow> length s = n \<and> (\<forall>c\<in>set s. in_class pos rs c)"
proof (induction n arbitrary: s)
  case (Suc n)
  then show ?case by (cases s) (auto simp: Cons_eq_append_conv intro: exI [of _ "[_]"])
qed auto

lemma rlang_rbetween_class:
  assumes "lo \<le> hi"
  shows "s \<in> rlang (rbetween lo hi (RClass pos rs)) \<longleftrightarrow>
    lo \<le> length s \<and> length s \<le> hi \<and> (\<forall>c\<in>set s. in_class pos rs c)"
proof
  assume r: "lo \<le> length s \<and> length s \<le> hi \<and> (\<forall>c\<in>set s. in_class pos rs c)"
  then have "take lo s \<in> rlang (rtimes lo (RClass pos rs))"
    "drop lo s \<in> rlang (rupto (hi - lo) (RClass pos rs))"
    using assms by (auto simp: rlang_rtimes_class rlang_rupto_class dest: in_set_takeD in_set_dropD)
  moreover have "s = take lo s @ drop lo s" by simp
  ultimately show "s \<in> rlang (rbetween lo hi (RClass pos rs))"
    unfolding rbetween_def rlang.simps(4) by blast
qed (use assms in \<open>auto simp: rbetween_def rlang_rtimes_class rlang_rupto_class\<close>)

end
