(* ===== verification/GoNet.thy ===== *)
theory GoNet
  imports GoStrings
begin

text \<open>
  The parts of Go's \<open>net\<close> package the parameter checks use: whether \<open>net.ParseIP\<close> accepts a
  string (\<open>parse_ip\<close>; the program only tests the result against nil) and \<open>net.SplitHostPort\<close>.
\<close>

section \<open>IP addresses\<close>

text \<open>The field loop of \<open>parseIPv4Fields\<close>: \<open>pos\<close> fields are stored, the current one has
  \<open>digs\<close> digits and value \<open>val\<close>; \<open>first\<close> says no byte has been read, \<open>prevdot\<close> that the last
  byte was a dot.\<close>

fun ipv4_go :: "nat \<Rightarrow> nat \<Rightarrow> nat \<Rightarrow> bool \<Rightarrow> string \<Rightarrow> bool" where
  "ipv4_go pos digs val sep [] = (pos = 3)"
| "ipv4_go pos digs val sep (c # cs) =
     (if is_digit c then
        (if digs = 1 \<and> val = 0 then False
         else if val * 10 + (byte c - 48) > 255 then False
         else ipv4_go pos (Suc digs) (val * 10 + (byte c - 48)) False cs)
      else if c = CHR ''.'' then
        (if sep \<or> cs = [] then False
         else if pos = 3 then False
         else ipv4_go (Suc pos) 0 0 True cs)
      else False)"

definition parse_ipv4 :: "string \<Rightarrow> bool" where
  "parse_ipv4 s = ipv4_go 0 0 0 True s"

definition is_hex :: "char \<Rightarrow> bool" where
  "is_hex c \<longleftrightarrow> in_range 48 57 c \<or> in_range 65 70 c \<or> in_range 97 102 c"

text \<open>The group loop of \<open>parseIPv6\<close>: \<open>i\<close> of the 16 bytes are filled, \<open>ell\<close> says an ellipsis
  has been read. A group has one to four hexadecimal digits; a group followed by a dot starts
  an embedded IPv4 address.\<close>

function ipv6_go :: "nat \<Rightarrow> bool \<Rightarrow> string \<Rightarrow> bool" where
  "ipv6_go i ell s =
     (if i \<ge> 16 then s = [] \<and> \<not> ell
      else
        let grp = takeWhile is_hex s; rest = dropWhile is_hex s
        in if length grp > 4 then False
           else if grp = [] then False
           else if rest \<noteq> [] \<and> hd rest = CHR ''.'' then
             (if \<not> ell \<and> i \<noteq> 12 then False
              else if i + 4 > 16 then False
              else parse_ipv4 s \<and> (if i + 4 < 16 then ell else \<not> ell))
           else if rest = [] then (if i + 2 < 16 then ell else \<not> ell)
           else if hd rest \<noteq> CHR '':'' then False
           else if tl rest = [] then False
           else if hd (tl rest) = CHR '':'' then
             (if ell then False
              else if tl (tl rest) = [] then i + 2 < 16
              else ipv6_go (i + 2) True (tl (tl rest)))
           else ipv6_go (i + 2) ell (tl rest))"
  by pat_completeness auto
termination
  by (relation "measure (\<lambda>(i, ell, s). 16 - i)") auto

declare ipv6_go.simps [simp del]

definition parse_ipv6 :: "string \<Rightarrow> bool" where
  "parse_ipv6 s =
     (if CHR ''%'' \<in> set s then False
      else if has_prefix s ''::'' then (if length s = 2 then True else ipv6_go 0 True (drop 2 s))
      else ipv6_go 0 False s)"

text \<open>\<open>netip.ParseAddr\<close> decides by the first of the bytes dot, colon and percent; \<open>ParseIP\<close>
  refuses an address with a zone.\<close>

definition parse_ip :: "string \<Rightarrow> bool" where
  "parse_ip s = (case dropWhile (\<lambda>c. c \<noteq> CHR ''.'' \<and> c \<noteq> CHR '':'' \<and> c \<noteq> CHR ''%'') s of
      [] \<Rightarrow> False
    | c # _ \<Rightarrow> if c = CHR ''.'' then parse_ipv4 s
        else if c = CHR '':'' then parse_ipv6 s else False)"

section \<open>Host and port\<close>

definition split_host_port :: "string \<Rightarrow> (string \<times> string) option" where
  "split_host_port hp = (case last_index_byte CHR '':'' hp of
      None \<Rightarrow> None
    | Some i \<Rightarrow>
        if hd hp = CHR ''['' then
          (case index_byte CHR '']'' hp of
             None \<Rightarrow> None
           | Some e \<Rightarrow>
               if e + 1 = length hp then None
               else if e + 1 \<noteq> i then None
               else if CHR ''['' \<in> set (drop 1 hp) then None
               else if CHR '']'' \<in> set (drop (e + 1) hp) then None
               else Some (take (e - 1) (drop 1 hp), drop (i + 1) hp))
        else
          let host = take i hp in
            if CHR '':'' \<in> set host then None
            else if CHR ''['' \<in> set hp then None
            else if CHR '']'' \<in> set hp then None
            else Some (host, drop (i + 1) hp))"

section \<open>The characters of an address\<close>

definition ip_char :: "char \<Rightarrow> bool" where
  "ip_char c \<longleftrightarrow> is_hex c \<or> c = CHR ''.'' \<or> c = CHR '':''"

lemma is_hex_digit: "is_digit c \<Longrightarrow> is_hex c"
  by (simp add: is_hex_def is_digit_def)

lemma is_hex_alnum: "is_hex c \<Longrightarrow> is_alnum c"
  by (auto simp: is_hex_def is_alnum_def in_range_def)

lemma ipv4_go_chars: "ipv4_go pos digs val sep s \<Longrightarrow> c \<in> set s \<Longrightarrow> ip_char c"
  by (induction pos digs val sep s rule: ipv4_go.induct)
    (auto simp: ip_char_def is_hex_digit split: if_splits)

lemma parse_ipv4_chars: "parse_ipv4 s \<Longrightarrow> c \<in> set s \<Longrightarrow> ip_char c"
  unfolding parse_ipv4_def by (rule ipv4_go_chars)

lemma ipv4_go_True_hd: "ipv4_go pos digs val True s \<Longrightarrow> pos < 3 \<Longrightarrow> s \<noteq> [] \<and> is_digit (hd s)"
  by (cases s) (auto split: if_splits)

lemma parse_ipv4_hd: "parse_ipv4 s \<Longrightarrow> s \<noteq> [] \<and> is_digit (hd s)"
  using ipv4_go_True_hd [of 0 0 0 s] by (simp add: parse_ipv4_def)

text \<open>One round of the group loop: the text is empty, an IPv4 tail, or a group and what
  follows it.\<close>

definition hex_group :: "string \<Rightarrow> bool" where
  "hex_group g \<longleftrightarrow> g \<noteq> [] \<and> (\<forall>c\<in>set g. is_hex c)"

lemma ipv6_go_step:
  assumes "ipv6_go i ell s"
  shows "s = [] \<or> parse_ipv4 s \<or> hex_group s \<or>
    (\<exists>g u. s = g @ ''::'' @ u \<and> hex_group g \<and> (u = [] \<or> ipv6_go (i + 2) True u)) \<or>
    (\<exists>g t. s = g @ CHR '':'' # t \<and> hex_group g \<and> ipv6_go (i + 2) ell t)"
proof -
  define g where "g = takeWhile is_hex s"
  define r where "r = dropWhile is_hex s"
  have s: "s = g @ r" by (simp add: g_def r_def)
  note unf = assms [unfolded ipv6_go.simps [of i ell s] Let_def, folded g_def r_def]
  show ?thesis
  proof (cases "i \<ge> 16 \<or> parse_ipv4 s")
    case True
    then show ?thesis using unf by auto
  next
    case False
    have g: "hex_group g"
      using unf False by (auto simp: hex_group_def g_def dest: set_takeWhileD)
    show ?thesis
    proof (cases r)
      case Nil
      then show ?thesis using s g by simp
    next
      case (Cons d t)
      then have d: "d = CHR '':''" "t \<noteq> []" using unf False by (auto split: if_splits)
      then obtain e u where t: "t = e # u" by (cases t) auto
      have "(e = CHR '':'' \<and> (u = [] \<or> ipv6_go (i + 2) True u)) \<or> ipv6_go (i + 2) ell t"
        using unf False Cons d t by (auto split: if_splits)
      then show ?thesis using s g Cons d t by auto
    qed
  qed
qed

lemma hex_group_chars: "hex_group g \<Longrightarrow> c \<in> set g \<Longrightarrow> ip_char c"
  by (simp add: hex_group_def ip_char_def)

lemma ipv6_go_chars: "ipv6_go i ell s \<Longrightarrow> c \<in> set s \<Longrightarrow> ip_char c"
proof (induction s arbitrary: i ell rule: length_induct)
  case (1 s)
  have IH: "ipv6_go k e t \<Longrightarrow> length t < length s \<Longrightarrow> c \<in> set t \<Longrightarrow> ip_char c" for k e t
    using "1.IH" by blast
  have colon: "ip_char CHR '':''" by (simp add: ip_char_def)
  from ipv6_go_step [OF "1.prems"(1)] consider "parse_ipv4 s" | "hex_group s"
    | g u where "s = g @ ''::'' @ u" "hex_group g" "u = [] \<or> ipv6_go (i + 2) True u"
    | g t where "s = g @ CHR '':'' # t" "hex_group g" "ipv6_go (i + 2) ell t"
    using "1.prems"(2) by fastforce
  then show ?case
  proof cases
    case 1
    then show ?thesis using \<open>c \<in> set s\<close> by (rule parse_ipv4_chars)
  next
    case 2
    then show ?thesis using \<open>c \<in> set s\<close> by (rule hex_group_chars)
  next
    case 3
    then show ?thesis using IH [of "i + 2" True u] hex_group_chars [of g c] colon "1.prems"(2) by auto
  next
    case 4
    then show ?thesis using IH [of "i + 2" ell t] hex_group_chars [of g c] colon "1.prems"(2) by auto
  qed
qed

lemma parse_ip_chars: "parse_ip s \<Longrightarrow> c \<in> set s \<Longrightarrow> ip_char c"
proof -
  assume p: "parse_ip s" and c: "c \<in> set s"
  from p have "parse_ipv4 s \<or> parse_ipv6 s"
    by (auto simp: parse_ip_def split: list.splits if_splits)
  then show ?thesis
  proof
    assume "parse_ipv4 s"
    then show ?thesis using c by (rule parse_ipv4_chars)
  next
    assume six: "parse_ipv6 s"
    show ?thesis
    proof (cases "has_prefix s ''::''")
      case True
      then obtain t where s: "s = ''::'' @ t" by (auto simp: has_prefix_iff)
      with six have "t = [] \<or> ipv6_go 0 True t"
        by (auto simp: parse_ipv6_def has_prefix_iff split: if_splits)
      with s c show ?thesis using ipv6_go_chars by (auto simp: ip_char_def)
    next
      case False
      with six have "ipv6_go 0 False s" by (auto simp: parse_ipv6_def split: if_splits)
      then show ?thesis using c by (rule ipv6_go_chars)
    qed
  qed
qed

lemma parse_ip_not_Nil: "parse_ip s \<Longrightarrow> s \<noteq> []"
  by (auto simp: parse_ip_def)

lemma parse_ip_not_dash: "parse_ip s \<Longrightarrow> CHR ''-'' \<notin> set s"
  using parse_ip_chars [of s "CHR ''-''"]
  by (auto simp: ip_char_def is_hex_def in_range_def byte_def)

end
