(* ===== verification/GoJson.thy ===== *)
theory GoJson
  imports GoStrings
begin

text \<open>
  JSON documents and the decoding rules of Go's \<open>encoding/json\<close> for the kinds of struct fields
  the program has. A message is modelled after parsing: \<open>json option\<close>, where \<open>None\<close> is text
  that is not JSON (or no text at all). A number keeps its literal, as a decoder reads it
  differently for an \<open>int\<close> and for a \<open>float64\<close> field.

  The rules modelled: object keys are matched to struct fields ignoring case, later duplicates
  win, unknown keys are skipped, \<open>null\<close> leaves a string, number, boolean or struct field as it
  was and clears a pointer, slice or interface, an integer field takes only an integer literal
  in the 64-bit range, and any mismatch makes the whole decoding fail (Go goes on and returns
  the first error at the end; every caller here drops the value then).
\<close>

section \<open>Documents\<close>

datatype json =
    JNull
  | JBool bool
  | JNum string
  | JStr string
  | JArr "json list"
  | JObj "(string \<times> json) list"

definition jint :: "int \<Rightarrow> json" where
  "jint i = JNum (itoa i)"

definition int64_range :: "int \<Rightarrow> bool" where
  "int64_range i \<longleftrightarrow> - (2 ^ 63) \<le> i \<and> i < 2 ^ 63"

section \<open>Field decoders\<close>

text \<open>A decoder takes the field's current value and the JSON value for it.\<close>

type_synonym 'a decoder = "'a \<Rightarrow> json \<Rightarrow> 'a option"

fun dec_string :: "string decoder" where
  "dec_string prev JNull = Some prev"
| "dec_string prev (JStr s) = Some s"
| "dec_string prev _ = None"

fun dec_bool :: "bool decoder" where
  "dec_bool prev JNull = Some prev"
| "dec_bool prev (JBool b) = Some b"
| "dec_bool prev _ = None"

fun dec_int :: "int decoder" where
  "dec_int prev JNull = Some prev"
| "dec_int prev (JNum lit) = (case parse_int64 lit of NumOk i \<Rightarrow> Some i | _ \<Rightarrow> None)"
| "dec_int prev _ = None"

text \<open>\<open>json.RawMessage\<close> keeps any value, \<open>null\<close> included; the absent field is \<open>None\<close>.\<close>

fun dec_raw :: "json option decoder" where
  "dec_raw prev j = Some (Some j)"

text \<open>\<open>interface{}\<close>: \<open>null\<close> becomes \<open>nil\<close>.\<close>

fun dec_any :: "json option decoder" where
  "dec_any prev JNull = Some None"
| "dec_any prev j = Some (Some j)"

fun dec_all :: "'a decoder \<Rightarrow> 'a \<Rightarrow> json list \<Rightarrow> 'a list option" where
  "dec_all d zero [] = Some []"
| "dec_all d zero (j # js) = (case d zero j of None \<Rightarrow> None
     | Some x \<Rightarrow> map_option (Cons x) (dec_all d zero js))"

definition dec_list :: "'a decoder \<Rightarrow> 'a \<Rightarrow> 'a list decoder" where
  "dec_list d zero prev j = (case j of JNull \<Rightarrow> Some [] | JArr js \<Rightarrow> dec_all d zero js | _ \<Rightarrow> None)"

definition dec_struct :: "('a \<Rightarrow> (string \<times> json) list \<Rightarrow> 'a option) \<Rightarrow> 'a decoder" where
  "dec_struct f prev j = (case j of JNull \<Rightarrow> Some prev | JObj kvs \<Rightarrow> f prev kvs | _ \<Rightarrow> None)"

definition dec_ptr :: "'a decoder \<Rightarrow> 'a \<Rightarrow> 'a option decoder" where
  "dec_ptr d zero prev j = (case j of JNull \<Rightarrow> Some None
     | _ \<Rightarrow> map_option Some (d (case prev of None \<Rightarrow> zero | Some x \<Rightarrow> x) j))"

text \<open>One field of a struct, over all the keys of the object that name it.\<close>

fun field :: "string \<Rightarrow> 'a decoder \<Rightarrow> 'a \<Rightarrow> (string \<times> json) list \<Rightarrow> 'a option" where
  "field name d prev [] = Some prev"
| "field name d prev ((k, v) # kvs) =
     (if equal_fold k name then (case d prev v of None \<Rightarrow> None | Some x \<Rightarrow> field name d x kvs)
      else field name d prev kvs)"

text \<open>\<open>json.Unmarshal\<close> of a message into a zero value.\<close>

definition unmarshal :: "'a decoder \<Rightarrow> 'a \<Rightarrow> json option \<Rightarrow> 'a option" where
  "unmarshal d zero msg = (case msg of None \<Rightarrow> None | Some j \<Rightarrow> d zero j)"

section \<open>Encoders\<close>

definition enc_raw :: "json option \<Rightarrow> json" where
  "enc_raw r = (case r of None \<Rightarrow> JNull | Some j \<Rightarrow> j)"

definition omit_none :: "string \<Rightarrow> json option \<Rightarrow> (string \<times> json) list" where
  "omit_none k r = (case r of None \<Rightarrow> [] | Some j \<Rightarrow> [(k, j)])"

definition omit_empty :: "string \<Rightarrow> string \<Rightarrow> (string \<times> json) list" where
  "omit_empty k s = (if s = [] then [] else [(k, JStr s)])"

definition omit_zero :: "string \<Rightarrow> int \<Rightarrow> (string \<times> json) list" where
  "omit_zero k i = (if i = 0 then [] else [(k, jint i)])"

section \<open>Decoding what was encoded\<close>

lemma dec_int_jint [codec_simps]: "int64_range i \<Longrightarrow> dec_int prev (jint i) = Some i"
  by (simp add: jint_def int64_range_def parse_int64_itoa)

lemma dec_any_Some [codec_simps]: "j \<noteq> JNull \<Longrightarrow> dec_any prev j = Some (Some j)"
  by (cases j) auto

lemma dec_all_map [codec_simps]:
  "(\<And>x. x \<in> set xs \<Longrightarrow> d zero (enc x) = Some (f x)) \<Longrightarrow> dec_all d zero (map enc xs) = Some (map f xs)"
  by (induction xs) auto

lemma dec_all_strings [codec_simps]: "dec_all dec_string [] (map JStr xs) = Some xs"
  using dec_all_map [of xs dec_string "[]" JStr "\<lambda>x. x"] by simp

lemma field_append [codec_simps]:
  "field name d prev (xs @ ys) = (case field name d prev xs of None \<Rightarrow> None | Some v \<Rightarrow> field name d v ys)"
  by (induction name d prev xs rule: field.induct) (auto split: option.splits)

lemma field_skip [codec_simps]:
  "\<not> equal_fold k name \<Longrightarrow> field name d prev ((k, v) # kvs) = field name d prev kvs"
  by simp

text \<open>The field names of the program are lower case identifiers, which case folding leaves as
  they are.\<close>

definition lower_ident :: "char \<Rightarrow> bool" where
  "lower_ident c \<longleftrightarrow> in_range 97 122 c \<or> c = CHR ''_''"

lemma lower_ident_bytes:
  "lower_ident c \<Longrightarrow> byte c \<noteq> 0xE2 \<and> byte c \<noteq> 0xC5 \<and> lower_byte c = c"
  by (auto simp: lower_ident_def in_range_def lower_byte_def byte_def)

lemma fold_case_ident: "list_all lower_ident s \<Longrightarrow> fold_case s = s"
  by (induction s rule: fold_case.induct) (auto simp: fold_case.simps dest: lower_ident_bytes)

end
