(* ===== verification/GoBase64.thy ===== *)
theory GoBase64
  imports GoStrings
begin

text \<open>
  Go's \<open>encoding/base64\<close> (standard and URL alphabets, with and without padding) and
  \<open>encoding/hex\<close>. Both callers only ask whether decoding failed, so a failure is \<open>None\<close>. The
  decoders are the lenient ones of the Go encodings the program uses: line breaks inside the
  text are skipped and the unused low bits of a last quantum are not checked.
\<close>

section \<open>Base64\<close>

record b64_encoding =
  b64_url :: bool
  b64_padded :: bool

definition std_encoding :: b64_encoding where
  "std_encoding = \<lparr>b64_url = False, b64_padded = True\<rparr>"

definition url_encoding :: b64_encoding where
  "url_encoding = \<lparr>b64_url = True, b64_padded = True\<rparr>"

definition raw_std_encoding :: b64_encoding where
  "raw_std_encoding = \<lparr>b64_url = False, b64_padded = False\<rparr>"

definition raw_url_encoding :: b64_encoding where
  "raw_url_encoding = \<lparr>b64_url = True, b64_padded = False\<rparr>"

definition b64_char :: "bool \<Rightarrow> nat \<Rightarrow> char" where
  "b64_char url n =
     (if n < 26 then char_of (65 + n) else if n < 52 then char_of (71 + n)
      else if n < 62 then char_of (n - 4) else if n = 62 then (if url then CHR ''-'' else CHR ''+'')
      else if url then CHR ''_'' else CHR ''/'')"

definition b64_val :: "bool \<Rightarrow> char \<Rightarrow> nat option" where
  "b64_val url c =
     (if in_range 65 90 c then Some (byte c - 65) else if in_range 97 122 c then Some (byte c - 71)
      else if is_digit c then Some (byte c + 4)
      else if c = (if url then CHR ''-'' else CHR ''+'') then Some 62
      else if c = (if url then CHR ''_'' else CHR ''/'') then Some 63 else None)"

fun b64_encode :: "b64_encoding \<Rightarrow> string \<Rightarrow> string" where
  "b64_encode e [] = []"
| "b64_encode e [a] =
     [b64_char (b64_url e) (byte a div 4), b64_char (b64_url e) (byte a mod 4 * 16)]
       @ (if b64_padded e then ''=='' else [])"
| "b64_encode e [a, b] =
     [b64_char (b64_url e) (byte a div 4),
      b64_char (b64_url e) (byte a mod 4 * 16 + byte b div 16),
      b64_char (b64_url e) (byte b mod 16 * 4)]
       @ (if b64_padded e then ''='' else [])"
| "b64_encode e (a # b # c # rest) =
     [b64_char (b64_url e) (byte a div 4),
      b64_char (b64_url e) (byte a mod 4 * 16 + byte b div 16),
      b64_char (b64_url e) (byte b mod 16 * 4 + byte c div 64),
      b64_char (b64_url e) (byte c mod 64)] @ b64_encode e rest"

text \<open>The bytes of two, three and four six-bit groups.\<close>

definition b64_bytes1 :: "nat \<Rightarrow> nat \<Rightarrow> string" where
  "b64_bytes1 p q = [char_of (p * 4 + q div 16)]"

definition b64_bytes2 :: "nat \<Rightarrow> nat \<Rightarrow> nat \<Rightarrow> string" where
  "b64_bytes2 p q r = [char_of (p * 4 + q div 16), char_of (q mod 16 * 16 + r div 4)]"

definition b64_bytes3 :: "nat \<Rightarrow> nat \<Rightarrow> nat \<Rightarrow> nat \<Rightarrow> string" where
  "b64_bytes3 p q r t =
     [char_of (p * 4 + q div 16), char_of (q mod 16 * 16 + r div 4), char_of (r mod 4 * 64 + t)]"

fun b64_quanta :: "b64_encoding \<Rightarrow> string \<Rightarrow> string option" where
  "b64_quanta e [] = Some []"
| "b64_quanta e [x] = None"
| "b64_quanta e [x, y] =
     (if b64_padded e then None
      else (case (b64_val (b64_url e) x, b64_val (b64_url e) y) of
              (Some p, Some q) \<Rightarrow> Some (b64_bytes1 p q) | _ \<Rightarrow> None))"
| "b64_quanta e [x, y, z] =
     (if b64_padded e then None
      else (case (b64_val (b64_url e) x, b64_val (b64_url e) y, b64_val (b64_url e) z) of
              (Some p, Some q, Some r) \<Rightarrow> Some (b64_bytes2 p q r) | _ \<Rightarrow> None))"
| "b64_quanta e (x # y # z # u # rest) =
     (case (b64_val (b64_url e) x, b64_val (b64_url e) y) of
        (Some p, Some q) \<Rightarrow>
          (if b64_padded e \<and> z = CHR ''='' then
             (if u = CHR ''='' \<and> rest = [] then Some (b64_bytes1 p q) else None)
           else (case b64_val (b64_url e) z of
              None \<Rightarrow> None
            | Some r \<Rightarrow>
               (if b64_padded e \<and> u = CHR ''='' then (if rest = [] then Some (b64_bytes2 p q r) else None)
                else (case b64_val (b64_url e) u of
                   None \<Rightarrow> None
                 | Some t \<Rightarrow> map_option ((@) (b64_bytes3 p q r t)) (b64_quanta e rest)))))
      | _ \<Rightarrow> None)"

definition newline_char :: "char \<Rightarrow> bool" where
  "newline_char c \<longleftrightarrow> byte c = 10 \<or> byte c = 13"

definition b64_decode :: "b64_encoding \<Rightarrow> string \<Rightarrow> string option" where
  "b64_decode e s = b64_quanta e (filter (\<lambda>c. \<not> newline_char c) s)"

section \<open>Hexadecimal\<close>

definition hex_val :: "char \<Rightarrow> nat option" where
  "hex_val c = (if is_digit c then Some (byte c - 48) else if in_range 97 102 c then Some (byte c - 87)
     else if in_range 65 70 c then Some (byte c - 55) else None)"

fun hex_decode :: "string \<Rightarrow> string option" where
  "hex_decode [] = Some []"
| "hex_decode [x] = None"
| "hex_decode (x # y # rest) =
     (case (hex_val x, hex_val y) of
        (Some p, Some q) \<Rightarrow> map_option (Cons (char_of (p * 16 + q))) (hex_decode rest)
      | _ \<Rightarrow> None)"

section \<open>Facts\<close>

lemma byte_b64_char:
  "n < 64 \<Longrightarrow> byte (b64_char url n) =
     (if n < 26 then 65 + n else if n < 52 then 71 + n else if n < 62 then n - 4
      else if n = 62 then (if url then 45 else 43) else if url then 95 else 47)"
  by (auto simp: b64_char_def) (simp_all add: byte_def)

lemma b64_val_bytes:
  "b64_val url c =
     (if 65 \<le> byte c \<and> byte c \<le> 90 then Some (byte c - 65)
      else if 97 \<le> byte c \<and> byte c \<le> 122 then Some (byte c - 71)
      else if 48 \<le> byte c \<and> byte c \<le> 57 then Some (byte c + 4)
      else if byte c = (if url then 45 else 43) then Some 62
      else if byte c = (if url then 95 else 47) then Some 63 else None)"
proof -
  have "byte CHR ''-'' = 45" "byte CHR ''+'' = 43" "byte CHR ''_'' = 95" "byte CHR ''/'' = 47"
    by (simp_all add: byte_def)
  then have "c = CHR ''-'' \<longleftrightarrow> byte c = 45" "c = CHR ''+'' \<longleftrightarrow> byte c = 43"
    "c = CHR ''_'' \<longleftrightarrow> byte c = 95" "c = CHR ''/'' \<longleftrightarrow> byte c = 47"
    by (metis byte_inject)+
  then show ?thesis by (simp add: b64_val_def in_range_def is_digit_def)
qed

lemma b64_val_char [simp]: "n < 64 \<Longrightarrow> b64_val url (b64_char url n) = Some n"
  by (auto simp: b64_val_bytes byte_b64_char not_less)

lemma b64_char_plain:
  assumes "n < 64"
  shows "b64_char url n \<noteq> CHR ''=''" "\<not> newline_char (b64_char url n)"
proof -
  have "byte CHR ''='' = 61" by (simp add: byte_def)
  moreover have "byte (b64_char url n) \<noteq> 61"
    using assms byte_b64_char [of n url] by (simp split: if_splits; linarith)
  ultimately show "b64_char url n \<noteq> CHR ''=''" by metis
  have "byte (b64_char url n) \<noteq> 10 \<and> byte (b64_char url n) \<noteq> 13"
    using assms byte_b64_char [of n url] by (simp split: if_splits; linarith)
  then show "\<not> newline_char (b64_char url n)" by (simp add: newline_char_def)
qed

lemma pad_char_plain: "\<not> newline_char CHR ''=''" "graphic CHR ''=''"
  by (simp_all add: newline_char_def graphic_def in_range_def byte_def)

lemma b64_groups [simp]:
  "byte a div 4 < 64" "byte a mod 4 * 16 + byte b div 16 < 64"
  "byte b mod 16 * 4 + byte c div 64 < 64" "byte c mod 64 < 64" "byte a mod 4 * 16 < 64"
  "byte b mod 16 * 4 < 64"
  using byte_less_256 [of a] byte_less_256 [of b] byte_less_256 [of c] by linarith+

lemma b64_encode_chars: "c \<in> set (b64_encode e s) \<Longrightarrow> \<not> newline_char c"
proof (induction e s rule: b64_encode.induct)
  case (2 e a)
  then show ?case
    using b64_char_plain(2) [of _ "b64_url e"] pad_char_plain by (auto split: if_splits)
next
  case (3 e a b)
  then show ?case
    using b64_char_plain(2) [of _ "b64_url e"] pad_char_plain by (auto split: if_splits)
next
  case (4 e a b c rest)
  then show ?case using b64_char_plain(2) [of _ "b64_url e"] by auto
qed simp

lemma b64_bytes_encode:
  "b64_bytes1 (byte a div 4) (byte a mod 4 * 16) = [a]"
  "b64_bytes2 (byte a div 4) (byte a mod 4 * 16 + byte b div 16) (byte b mod 16 * 4) = [a, b]"
  "b64_bytes3 (byte a div 4) (byte a mod 4 * 16 + byte b div 16) (byte b mod 16 * 4 + byte c div 64)
     (byte c mod 64) = [a, b, c]"
proof -
  have "byte b div 16 < 16" "byte c div 64 < 4"
    using byte_less_256 [of b] byte_less_256 [of c] by linarith+
  then have "(byte a mod 4 * 16 + byte b div 16) div 16 = byte a mod 4"
    "(byte a mod 4 * 16 + byte b div 16) mod 16 = byte b div 16"
    by simp_all
  moreover have "(byte b mod 16 * 4 + byte c div 64) div 4 = byte b mod 16"
    "(byte b mod 16 * 4 + byte c div 64) mod 4 = byte c div 64"
    using \<open>byte c div 64 < 4\<close> by simp_all
  ultimately show
    "b64_bytes1 (byte a div 4) (byte a mod 4 * 16) = [a]"
    "b64_bytes2 (byte a div 4) (byte a mod 4 * 16 + byte b div 16) (byte b mod 16 * 4) = [a, b]"
    "b64_bytes3 (byte a div 4) (byte a mod 4 * 16 + byte b div 16) (byte b mod 16 * 4 + byte c div 64)
       (byte c mod 64) = [a, b, c]"
    by (simp_all add: b64_bytes1_def b64_bytes2_def b64_bytes3_def)
qed

lemma b64_quanta_encode: "b64_quanta e (b64_encode e s) = Some s"
proof (induction e s rule: b64_encode.induct)
  case (2 e a)
  then show ?case
    using b64_char_plain(1) [of _ "b64_url e"] b64_bytes_encode(1) [of a] by simp
next
  case (3 e a b)
  then show ?case
    using b64_char_plain(1) [of _ "b64_url e"] b64_bytes_encode(2) [of a b] by simp
next
  case (4 e a b c rest)
  then show ?case
    using b64_char_plain(1) [of _ "b64_url e"] b64_bytes_encode(3) [of a b c] by simp
qed simp

lemma b64_decode_encode [codec_simps]: "b64_decode e (b64_encode e s) = Some s"
proof -
  have "filter (\<lambda>c. \<not> newline_char c) (b64_encode e s) = b64_encode e s"
    by (rule filter_True) (auto dest: b64_encode_chars)
  then show ?thesis by (simp add: b64_decode_def b64_quanta_encode)
qed

text \<open>How long the encoded text is: 44 characters for a padded key of 32 bytes.\<close>

lemma length_b64_encode_padded:
  "b64_padded e \<Longrightarrow> length (b64_encode e s) = 4 * ((length s + 2) div 3)"
  by (induction e s rule: b64_encode.induct) (simp_all, presburger)

lemma length_b64_encode_raw:
  "\<not> b64_padded e \<Longrightarrow> length (b64_encode e s) = (4 * length s + 2) div 3"
proof (induction e s rule: b64_encode.induct)
  case (4 e a b c rest)
  then have "length (b64_encode e (a # b # c # rest)) = 4 + (4 * length rest + 2) div 3" by simp
  then show ?case by simp
qed simp_all

text \<open>The encoded text is printable, so trimming white space leaves it alone.\<close>

lemma graphic_b64_char: "n < 64 \<Longrightarrow> graphic (b64_char url n)"
  using byte_b64_char [of n url] by (auto simp: graphic_def in_range_def split: if_splits)

lemma b64_encode_graphic: "list_all graphic (b64_encode e s)"
proof (induction e s rule: b64_encode.induct)
  case (2 e a)
  then show ?case by (simp add: graphic_b64_char pad_char_plain)
next
  case (3 e a b)
  then show ?case by (simp add: graphic_b64_char pad_char_plain)
next
  case (4 e a b c rest)
  then show ?case by (simp add: graphic_b64_char)
qed simp

end
