(* ===== verification/GoPath.thy ===== *)
theory GoPath
  imports GoStrings
begin

text \<open>
  Go's \<open>path/filepath\<close> on Unix: lexical cleaning and joining of paths. \<open>Clean\<close> works on the
  list of path elements: empty elements and single dots vanish, a double dot removes the
  element before it, at the root it vanishes and at the front of a relative path it stays.
\<close>

section \<open>Cleaning\<close>

text \<open>\<open>acc\<close> holds the elements kept so far, last first.\<close>

definition clean_push :: "bool \<Rightarrow> string \<Rightarrow> string list \<Rightarrow> string list" where
  "clean_push r e acc =
     (if e = [] \<or> e = ''.'' then acc
      else if e = ''..'' then
        (case acc of
           [] \<Rightarrow> if r then [] else [''..'']
         | a # as \<Rightarrow> if a = ''..'' then ''..'' # acc else as)
      else e # acc)"

definition clean_go :: "bool \<Rightarrow> string list \<Rightarrow> string list" where
  "clean_go r es = rev (fold (clean_push r) es [])"

definition rooted :: "string \<Rightarrow> bool" where
  "rooted p \<longleftrightarrow> has_prefix p ''/''"

definition path_elems :: "string \<Rightarrow> string list" where
  "path_elems p = clean_go (rooted p) (split_on CHR ''/'' p)"

definition render_path :: "bool \<Rightarrow> string list \<Rightarrow> string" where
  "render_path r es = (if r then CHR ''/'' # join_with CHR ''/'' es
     else if es = [] then ''.'' else join_with CHR ''/'' es)"

definition clean_path :: "string \<Rightarrow> string" where
  "clean_path p = render_path (rooted p) (path_elems p)"

definition join_path :: "string \<Rightarrow> string \<Rightarrow> string" where
  "join_path dir name =
     (if dir = [] then (if name = [] then [] else clean_path name)
      else clean_path (dir @ CHR ''/'' # name))"

section \<open>Facts\<close>

text \<open>A cleaned element list: no empty element, no dot, and double dots only in front.\<close>

definition plain_elem :: "string \<Rightarrow> bool" where
  "plain_elem e \<longleftrightarrow> e \<noteq> [] \<and> e \<noteq> ''.'' \<and> e \<noteq> ''..''"

definition clean_elems :: "bool \<Rightarrow> string list \<Rightarrow> bool" where
  "clean_elems r es \<longleftrightarrow> (\<exists>n ps. es = replicate n ''..'' @ ps \<and> (r \<longrightarrow> n = 0) \<and> list_all plain_elem ps)"

lemma clean_elems_snoc:
  assumes "clean_elems r es" "plain_elem e"
  shows "clean_elems r (es @ [e])"
proof -
  obtain n ps where "es = replicate n ''..'' @ ps" "r \<longrightarrow> n = 0" "list_all plain_elem ps"
    using assms(1) by (auto simp: clean_elems_def)
  then have "es @ [e] = replicate n ''..'' @ (ps @ [e])" "list_all plain_elem (ps @ [e])"
    using assms(2) by simp_all
  then show ?thesis using \<open>r \<longrightarrow> n = 0\<close> unfolding clean_elems_def by blast
qed

lemma clean_elems_butlast:
  assumes "clean_elems r (es @ [e])" "e \<noteq> ''..''"
  shows "clean_elems r es"
proof -
  obtain n ps where d: "es @ [e] = replicate n ''..'' @ ps" "r \<longrightarrow> n = 0" "list_all plain_elem ps"
    using assms(1) by (auto simp: clean_elems_def)
  show ?thesis
  proof (cases ps rule: rev_cases)
    case Nil
    then have "e \<in> set (replicate n ''..'')" using d(1) by (metis append_Nil2 in_set_conv_decomp)
    then show ?thesis using assms(2) by simp
  next
    case (snoc qs q)
    then show ?thesis using d by (auto simp: clean_elems_def)
  qed
qed

lemma clean_elems_dots:
  assumes "clean_elems r (es @ [''..''])"
  shows "clean_elems r (es @ [''..'', ''..''])"
proof -
  obtain n ps where d: "es @ [''..''] = replicate n ''..'' @ ps" "r \<longrightarrow> n = 0" "list_all plain_elem ps"
    using assms by (auto simp: clean_elems_def)
  have "ps = []" using d by (cases ps rule: rev_cases) (auto simp: plain_elem_def)
  then have "es @ [''..'', ''..''] = replicate (Suc n) ''..''"
    using d(1) by (metis append.assoc append_Cons append_Nil append_Nil2 replicate_Suc replicate_append_same)
  moreover have "\<not> r" using d(1,2) \<open>ps = []\<close> by auto
  ultimately show ?thesis
    unfolding clean_elems_def by (metis append_Nil2 list.pred_inject(1))
qed

lemma clean_push_clean:
  assumes "clean_elems r (rev acc)"
  shows "clean_elems r (rev (clean_push r e acc))"
proof -
  consider "e = [] \<or> e = ''.''" | "e = ''..''" | "plain_elem e" by (auto simp: plain_elem_def)
  then show ?thesis
  proof cases
    case 1
    then show ?thesis using assms by (simp add: clean_push_def)
  next
    case 2
    show ?thesis
    proof (cases acc)
      case Nil
      have "clean_elems False [''..'']" "clean_elems r []"
        by (auto simp: clean_elems_def intro!: exI [of _ "1::nat"])
      then show ?thesis using Nil 2 by (cases r) (simp_all add: clean_push_def)
    next
      case (Cons a as)
      then show ?thesis
        using 2 assms clean_elems_butlast [of r "rev as" a] clean_elems_dots [of r "rev as"]
        by (cases "a = ''..''") (simp_all add: clean_push_def)
    qed
  next
    case 3
    then show ?thesis using assms clean_elems_snoc by (simp add: clean_push_def plain_elem_def)
  qed
qed

lemma clean_go_clean: "clean_elems r (clean_go r es)"
proof -
  have "clean_elems r (rev acc) \<Longrightarrow> clean_elems r (rev (fold (clean_push r) es acc))" for acc
    by (induction es arbitrary: acc) (auto intro: clean_push_clean)
  moreover have "clean_elems r (rev [])" by (simp add: clean_elems_def)
  ultimately show ?thesis unfolding clean_go_def by blast
qed

lemma clean_go_snoc: "plain_elem e \<Longrightarrow> clean_go r (es @ [e]) = clean_go r es @ [e]"
  by (simp add: clean_go_def clean_push_def plain_elem_def)

lemma split_on_sep: "split_on c (s @ c # t) = split_on c s @ split_on c t"
proof (induction s)
  case (Cons x s)
  obtain w ws where "split_on c s = w # ws" by (metis list.exhaust split_on_not_Nil)
  then have "split_on c (s @ c # t) = w # ws @ split_on c t" using Cons by simp
  with \<open>split_on c s = w # ws\<close> show ?case by simp
qed (simp only: append_Nil append_Cons split_on.simps if_True refl)

text \<open>Joining a directory with one plain element appends that element: the result names a
  direct child of the cleaned directory.\<close>

lemma join_path_elems:
  assumes "dir \<noteq> []" "plain_elem name" "CHR ''/'' \<notin> set name"
  shows "join_path dir name = render_path (rooted dir) (path_elems dir @ [name])"
proof -
  have r: "rooted (dir @ CHR ''/'' # name) = rooted dir"
    using assms(1) by (cases dir) (auto simp: rooted_def has_prefix_def)
  have "clean_go (rooted dir) (split_on CHR ''/'' dir @ [name]) = path_elems dir @ [name]"
    using assms(2) by (simp add: clean_go_snoc path_elems_def)
  then show ?thesis
    using assms r by (simp add: join_path_def clean_path_def path_elems_def split_on_sep split_on_absent)
qed

lemma path_elems_clean: "clean_elems (rooted p) (path_elems p)"
  unfolding path_elems_def by (rule clean_go_clean)

lemma join_with_inject:
  assumes "\<forall>w\<in>set us. c \<notin> set w" "\<forall>w\<in>set vs. c \<notin> set w" "us \<noteq> []" "vs \<noteq> []"
    and "join_with c us = join_with c vs"
  shows "us = vs"
  using split_join [OF assms(3,1)] split_join [OF assms(4,2)] assms(5) by metis

lemma set_clean_push: "set (clean_push r e acc) \<subseteq> insert ''..'' (insert e (set acc))"
proof -
  define d where "d = ''..''"
  have "set (if e = [] \<or> e = ''.'' then acc else if e = d
      then (case acc of [] \<Rightarrow> if r then [] else [d] | a # as \<Rightarrow> if a = d then d # acc else as)
      else e # acc) \<subseteq> insert d (insert e (set acc))"
    by (cases acc) auto
  then show ?thesis unfolding clean_push_def d_def .
qed

lemma set_clean_fold: "set (fold (clean_push r) es acc) \<subseteq> insert ''..'' (set es \<union> set acc)"
proof (induction es arbitrary: acc)
  case (Cons e es)
  have "set (fold (clean_push r) es (clean_push r e acc))
    \<subseteq> insert ''..'' (set es \<union> insert ''..'' (insert e (set acc)))"
    using Cons.IH [of "clean_push r e acc"] set_clean_push [of r e acc] by blast
  then have "set (fold (clean_push r) es (clean_push r e acc)) \<subseteq> insert ''..'' (set (e # es) \<union> set acc)"
    by (simp only: list.set Un_insert_left Un_insert_right insert_commute insert_absorb2)
  then show ?case by (simp only: fold_simps)
qed (simp only: fold_simps list.set Un_empty_left subset_insertI)

lemma set_clean_go: "set (clean_go r es) \<subseteq> insert ''..'' (set es)"
  using set_clean_fold [of r es "[]"] by (simp add: clean_go_def)

lemma path_elems_no_slash: "e \<in> set (path_elems p) \<Longrightarrow> CHR ''/'' \<notin> set e"
  using set_clean_go [of "rooted p" "split_on CHR ''/'' p"] split_on_no_sep [of e "CHR ''/''" p]
  unfolding path_elems_def by auto

text \<open>Different plain elements give different paths in one directory.\<close>

lemma join_path_inject:
  assumes "dir \<noteq> []" "plain_elem a" "CHR ''/'' \<notin> set a" "plain_elem b" "CHR ''/'' \<notin> set b"
    and "join_path dir a = join_path dir b"
  shows "a = b"
proof -
  have "join_with CHR ''/'' (path_elems dir @ [a]) = join_with CHR ''/'' (path_elems dir @ [b])"
    using assms by (simp add: join_path_elems render_path_def split: if_splits)
  then have "path_elems dir @ [a] = path_elems dir @ [b]"
    by (rule join_with_inject [rotated 4]) (use assms path_elems_no_slash in auto)
  then show ?thesis by simp
qed

end
