(* ===== verification/GoFloat.thy ===== *)
theory GoFloat
  imports GoJson "HOL-Library.Log_Nat" Complex_Main
begin

text \<open>
  Go's \<open>float64\<close> as the program uses it: \<open>strconv.ParseFloat\<close> and \<open>FormatFloat\<close>, the default
  formatting of \<open>fmt\<close>, the numbers of \<open>encoding/json\<close>, \<open>math.Round\<close> and the conversion to an
  integer. A finite value is its exact rational value; the sign of a zero is not kept.
\<close>

section \<open>Values and rounding\<close>

datatype f64 = Fin rat | Inf bool | NaN

text \<open>\<open>Inf\<close> carries its sign: \<open>True\<close> for minus infinity.\<close>

definition pow2 :: "int \<Rightarrow> rat" where
  "pow2 e = (if 0 \<le> e then 2 ^ nat e else inverse (2 ^ nat (- e)))"

definition pow10 :: "int \<Rightarrow> rat" where
  "pow10 e = (if 0 \<le> e then 10 ^ nat e else inverse (10 ^ nat (- e)))"

text \<open>The exponent of the leading binary and decimal digit of a positive rational.\<close>

definition exp2_of :: "rat \<Rightarrow> int" where
  "exp2_of a = (let (n, d) = quotient_of a;
      k = int (floorlog 2 (nat n)) - int (floorlog 2 (nat d))
    in if pow2 k \<le> a then k else k - 1)"

definition exp10_of :: "rat \<Rightarrow> int" where
  "exp10_of a = (let (n, d) = quotient_of a;
      k = int (length (nat_digits (nat n))) - int (length (nat_digits (nat d)))
    in if pow10 k \<le> a then k else k - 1)"

text \<open>Round half to even, and round half away from zero, which is \<open>math.Round\<close>.\<close>

definition round_even :: "rat \<Rightarrow> int" where
  "round_even q = (let f = \<lfloor>q\<rfloor>; r = q - of_int f in
     if r < 1 / 2 then f else if r > 1 / 2 then f + 1 else if even f then f else f + 1)"

definition round_away :: "rat \<Rightarrow> int" where
  "round_away q = (if 0 \<le> q then \<lfloor>q + 1 / 2\<rfloor> else - \<lfloor>- q + 1 / 2\<rfloor>)"

text \<open>The nearest double: 53 significant bits, fewer below the normal range, infinity above the
  largest one.\<close>

definition ulp_exp :: "rat \<Rightarrow> int" where
  "ulp_exp a = max (exp2_of a - 52) (- 1074)"

definition round64 :: "rat \<Rightarrow> f64" where
  "round64 q =
     (if q = 0 then Fin 0
      else (let a = \<bar>q\<bar>; u = pow2 (ulp_exp a); v = of_int (round_even (a / u)) * u in
        if pow2 1024 \<le> v then Inf (q < 0) else Fin (if q < 0 then - v else v)))"

section \<open>Parsing\<close>

text \<open>\<open>strconv.ParseFloat\<close>: the value and whether there is no error. A syntax error gives 0, a
  value too large gives an infinity together with an error.\<close>

definition low_bit :: "char \<Rightarrow> nat" where
  "low_bit c = (if in_range 65 90 c then byte c + 32 else byte c)"

definition is_hex_letter :: "char \<Rightarrow> bool" where
  "is_hex_letter c \<longleftrightarrow> 97 \<le> low_bit c \<and> low_bit c \<le> 102"

definition digit_val :: "bool \<Rightarrow> char \<Rightarrow> nat option" where
  "digit_val hex c =
     (if is_digit c then Some (byte c - 48)
      else if hex \<and> is_hex_letter c then Some (low_bit c - 87) else None)"

record mantissa =
  mt_value :: nat
  mt_frac :: nat
  mt_dot :: bool
  mt_digits :: bool

fun scan_mantissa :: "bool \<Rightarrow> mantissa \<Rightarrow> string \<Rightarrow> mantissa \<times> string" where
  "scan_mantissa hex m [] = (m, [])"
| "scan_mantissa hex m (c # cs) =
     (if c = CHR ''_'' then scan_mantissa hex m cs
      else if c = CHR ''.'' then
        (if mt_dot m then (m, c # cs) else scan_mantissa hex (m\<lparr>mt_dot := True\<rparr>) cs)
      else (case digit_val hex c of
          None \<Rightarrow> (m, c # cs)
        | Some v \<Rightarrow> scan_mantissa hex
            (m\<lparr>mt_value := mt_value m * (if hex then 16 else 10) + v,
               mt_frac := mt_frac m + (if mt_dot m then 1 else 0), mt_digits := True\<rparr>) cs))"

fun scan_exponent :: "int \<Rightarrow> string \<Rightarrow> int \<times> string" where
  "scan_exponent e [] = (e, [])"
| "scan_exponent e (c # cs) =
     (if c = CHR ''_'' then scan_exponent e cs
      else if is_digit c then scan_exponent (if e < 10000 then e * 10 + int (byte c - 48) else e) cs
      else (e, c # cs))"

text \<open>The exponent part, which hexadecimal numbers must have: \<open>None\<close> is a syntax error.\<close>

definition read_exponent :: "bool \<Rightarrow> string \<Rightarrow> (int \<times> string) option" where
  "read_exponent hex s =
     (case s of
        [] \<Rightarrow> if hex then None else Some (0, [])
      | c # t \<Rightarrow>
          if low_bit c = (if hex then 112 else 101) then
            (let neg = (t \<noteq> [] \<and> hd t = CHR ''-'');
                 u = (if t \<noteq> [] \<and> (hd t = CHR ''-'' \<or> hd t = CHR ''+'') then tl t else t)
             in if u = [] \<or> \<not> is_digit (hd u) then None
                else (let (e, r) = scan_exponent 0 u in Some (if neg then - e else e, r)))
          else if hex then None else Some (0, s))"

fun underscores_ok :: "bool \<Rightarrow> char \<Rightarrow> string \<Rightarrow> bool" where
  "underscores_ok hex saw [] \<longleftrightarrow> saw \<noteq> CHR ''_''"
| "underscores_ok hex saw (c # cs) \<longleftrightarrow>
     (if is_digit c \<or> hex \<and> is_hex_letter c then underscores_ok hex CHR ''0'' cs
      else if c = CHR ''_'' then saw = CHR ''0'' \<and> underscores_ok hex CHR ''_'' cs
      else saw \<noteq> CHR ''_'' \<and> underscores_ok hex CHR ''!'' cs)"

definition underscore_ok :: "string \<Rightarrow> bool" where
  "underscore_ok body =
     (case body of
        z # x # t \<Rightarrow>
          if z = CHR ''0'' \<and> low_bit x \<in> {98, 111, 120}
          then underscores_ok (low_bit x = 120) CHR ''0'' t
          else underscores_ok False CHR ''^'' body
      | _ \<Rightarrow> underscores_ok False CHR ''^'' body)"

definition float_sign :: "string \<Rightarrow> bool \<times> bool \<times> string" where
  "float_sign s =
     (case s of
        [] \<Rightarrow> (False, False, [])
      | c # t \<Rightarrow> if c = CHR ''-'' then (True, True, t)
          else if c = CHR ''+'' then (True, False, t) else (False, False, s))"

definition parse_float :: "string \<Rightarrow> f64 \<times> bool" where
  "parse_float s =
     (let (signed, neg, body) = float_sign s in
      if equal_fold body ''inf'' \<or> equal_fold body ''infinity'' then (Inf neg, True)
      else if \<not> signed \<and> equal_fold body ''nan'' then (NaN, True)
      else
     (let hex = (2 < length body \<and> hd body = CHR ''0'' \<and> low_bit (hd (tl body)) = 120);
          (m, r) = scan_mantissa hex \<lparr>mt_value = 0, mt_frac = 0, mt_dot = False, mt_digits = False\<rparr>
            (if hex then drop 2 body else body)
      in if \<not> mt_digits m then (Fin 0, False)
         else (case read_exponent hex r of
             None \<Rightarrow> (Fin 0, False)
           | Some (e, rest) \<Rightarrow>
               if rest \<noteq> [] \<or> CHR ''_'' \<in> set body \<and> \<not> underscore_ok body then (Fin 0, False)
               else (let q = of_nat (mt_value m) *
                         (if hex then pow2 (e - 4 * int (mt_frac m)) else pow10 (e - int (mt_frac m)));
                         v = round64 (if neg then - q else q)
                     in (v, (case v of Fin _ \<Rightarrow> True | _ \<Rightarrow> False))))))"

text \<open>The value alone, for callers that ignore the error.\<close>

definition float_of :: "string \<Rightarrow> f64" where
  "float_of s = fst (parse_float s)"

section \<open>Formatting\<close>

text \<open>The shortest decimal that reads back as the same value, and of those the nearest one, as its
  digits and the exponent of the last one. Seventeen digits always suffice. A value just below a
  power of ten may round up to it, which leaves one zero to drop.\<close>

definition reads_back :: "rat \<Rightarrow> rat \<Rightarrow> bool" where
  "reads_back a q \<longleftrightarrow> round64 q = Fin a"

definition decimal_of :: "rat \<Rightarrow> nat \<Rightarrow> (nat \<times> int) option" where
  "decimal_of a n =
     (let e = exp10_of a - int n + 1; u = pow10 e; q = \<lfloor>a / u\<rfloor> in
      case (reads_back a (of_int q * u), reads_back a (of_int (q + 1) * u)) of
        (True, True) \<Rightarrow> Some (nat (if a - of_int q * u \<le> of_int (q + 1) * u - a then q else q + 1), e)
      | (True, False) \<Rightarrow> Some (nat q, e)
      | (False, True) \<Rightarrow> Some (nat (q + 1), e)
      | (False, False) \<Rightarrow> None)"

fun shortest_from :: "rat \<Rightarrow> nat list \<Rightarrow> nat \<times> int" where
  "shortest_from a [] = (0, 0)"
| "shortest_from a (n # ns) = (case decimal_of a n of Some r \<Rightarrow> r | None \<Rightarrow> shortest_from a ns)"

definition shortest :: "rat \<Rightarrow> nat \<times> int" where
  "shortest a = (let (c, e) = shortest_from a [1..<18] in if c mod 10 = 0 then (c div 10, e + 1) else (c, e))"

definition place_point :: "string \<Rightarrow> int \<Rightarrow> string" where
  "place_point ds e =
     (if 0 \<le> e then ds @ replicate (nat e) CHR ''0''
      else if - e < int (length ds)
           then take (nat (int (length ds) + e)) ds @ CHR ''.'' # drop (nat (int (length ds) + e)) ds
      else ''0.'' @ replicate (nat (- e) - length ds) CHR ''0'' @ ds)"

text \<open>\<open>FormatFloat\<close> with format \<open>f\<close> and precision -1.\<close>

definition format_f :: "f64 \<Rightarrow> string" where
  "format_f x =
     (case x of
        NaN \<Rightarrow> ''NaN'' | Inf neg \<Rightarrow> if neg then ''-Inf'' else ''+Inf''
      | Fin q \<Rightarrow> if q = 0 then ''0''
          else (let (c, e) = shortest \<bar>q\<bar> in
            (if q < 0 then ''-'' else []) @ place_point (nat_digits c) e))"

text \<open>The format \<open>e\<close>, with an exponent of at least two digits.\<close>

definition format_e :: "rat \<Rightarrow> string" where
  "format_e q =
     (let (c, e) = shortest \<bar>q\<bar>;
          ds = nat_digits c;
          x = e + int (length (nat_digits c)) - 1;
          xs = nat_digits (nat \<bar>x\<bar>)
      in (if q < 0 then ''-'' else []) @ take 1 ds @ (if tl ds = [] then [] else CHR ''.'' # tl ds) @
         ''e'' @ (if x < 0 then ''-'' else ''+'') @ (if length xs < 2 then CHR ''0'' # xs else xs))"

text \<open>\<open>fmt\<close>'s \<open>%v\<close>, the shortest format \<open>g\<close>: decimal exponents below -4 and from 6 on switch to the
  format \<open>e\<close>, so a million prints as \<open>1e+06\<close>.\<close>

definition format_v :: "f64 \<Rightarrow> string" where
  "format_v x =
     (case x of
        Fin q \<Rightarrow> if q = 0 then ''0''
          else (let (c, e) = shortest \<bar>q\<bar>; x10 = e + int (length (nat_digits c)) - 1
            in if x10 < - 4 \<or> 6 \<le> x10 then format_e q else format_f x)
      | _ \<Rightarrow> format_f x)"

text \<open>\<open>encoding/json\<close>: infinities and NaN cannot be marshalled; a one-digit negative exponent
  loses its leading zero.\<close>

definition json_exponent :: "string \<Rightarrow> string" where
  "json_exponent s =
     (let n = length s in
      if 4 \<le> n \<and> s ! (n - 4) = CHR ''e'' \<and> s ! (n - 3) = CHR ''-'' \<and> s ! (n - 2) = CHR ''0''
      then take (n - 2) s @ drop (n - 1) s else s)"

definition micro :: rat where
  "micro = (case round64 (pow10 (- 6)) of Fin q \<Rightarrow> q | _ \<Rightarrow> 0)"

definition enc_float :: "f64 \<Rightarrow> json option" where
  "enc_float x =
     (case x of
        Fin q \<Rightarrow> Some (JNum (if q \<noteq> 0 \<and> (\<bar>q\<bar> < micro \<or> pow10 21 \<le> \<bar>q\<bar>)
          then json_exponent (format_e q) else format_f x))
      | _ \<Rightarrow> None)"

section \<open>Conversions\<close>

text \<open>\<open>int64(f)\<close> truncates; outside the 64-bit range and for NaN the result is the processor's,
  here the least integer, as on amd64.\<close>

definition to_int64 :: "f64 \<Rightarrow> int" where
  "to_int64 x =
     (case x of
        Fin q \<Rightarrow> (let i = (if 0 \<le> q then \<lfloor>q\<rfloor> else - \<lfloor>- q\<rfloor>) in if int64_range i then i else - (2 ^ 63))
      | _ \<Rightarrow> - (2 ^ 63))"

definition f64_map :: "(rat \<Rightarrow> rat) \<Rightarrow> f64 \<Rightarrow> f64" where
  "f64_map f x = (case x of Fin q \<Rightarrow> round64 (f q) | _ \<Rightarrow> x)"

text \<open>\<open>math.Round\<close>.\<close>

definition f64_round :: "f64 \<Rightarrow> f64" where
  "f64_round x = f64_map (\<lambda>q. of_int (round_away q)) x"

definition f64_positive :: "f64 \<Rightarrow> bool" where
  "f64_positive x = (case x of Fin q \<Rightarrow> 0 < q | Inf neg \<Rightarrow> \<not> neg | NaN \<Rightarrow> False)"

section \<open>Whole numbers\<close>

lemma round_even_int [simp]: "round_even (of_int i) = i"
  by (simp add: round_even_def)

lemma floorlog2_le: "n < 2 ^ k \<Longrightarrow> floorlog 2 n \<le> k"
  by (simp add: floorlog_le_iff)

lemma exp2_of_nat_le: "0 < n \<Longrightarrow> n < 2 ^ 53 \<Longrightarrow> exp2_of (of_nat n) \<le> 52"
proof -
  assume n: "0 < n" "n < 2 ^ 53"
  have q: "quotient_of (of_nat n :: rat) = (int n, 1)"
    using quotient_of_int [of "int n"] by simp
  have "floorlog 2 n \<le> 53" "floorlog 2 (Suc 0) = 1"
    using floorlog2_le [OF n(2)] by (simp_all add: floorlog_def)
  then show ?thesis by (auto simp: exp2_of_def q Let_def)
qed

text \<open>Whole numbers below \<open>2 ^ 53\<close> are exact.\<close>

lemma round64_nat [codec_simps]:
  assumes "n < 2 ^ 53"
  shows "round64 (of_nat n) = Fin (of_nat n)"
proof (cases "n = 0")
  case False
  define j where "j = nat (- ulp_exp (of_nat n))"
  have u: "pow2 (ulp_exp (of_nat n)) = inverse (2 ^ j)"
    using exp2_of_nat_le [of n] False assms by (auto simp: ulp_exp_def pow2_def j_def max_def)
  have "(of_nat n :: rat) / inverse (2 ^ j) = of_int (int n * 2 ^ j)" by (simp add: divide_inverse)
  then have r: "round_even (of_nat n / inverse (2 ^ j)) = int n * 2 ^ j"
    by (simp only: round_even_int)
  have "(of_nat n :: rat) < 2 ^ 53" using assms by (metis of_nat_less_iff of_nat_numeral of_nat_power)
  also have "\<dots> \<le> pow2 1024" unfolding pow2_def by (simp add: power_increasing)
  finally have "\<not> pow2 1024 \<le> (of_nat n :: rat)" by simp
  moreover have "of_int (int n * 2 ^ j) * inverse (2 ^ j) = (of_nat n :: rat)" by simp
  ultimately show ?thesis using False by (simp add: round64_def u r Let_def del: of_int_mult of_int_power)
qed (simp add: round64_def)

lemma scan_mantissa_digits:
  "list_all is_digit ds \<Longrightarrow> scan_mantissa False m (ds @ t) =
     scan_mantissa False (m\<lparr>mt_value := foldl (\<lambda>v c. v * 10 + (byte c - 48)) (mt_value m) ds,
       mt_frac := mt_frac m + (if mt_dot m then length ds else 0), mt_digits := mt_digits m \<or> ds \<noteq> []\<rparr>) t"
proof (induction ds arbitrary: m)
  case (Cons c ds)
  have c: "c \<noteq> CHR ''_''" "c \<noteq> CHR ''.''" "is_digit c"
    using Cons.prems by (auto simp: is_digit_def in_range_def byte_def)
  show ?case using Cons.IH Cons.prems c by (simp add: digit_val_def)
qed simp

lemma nat_digits_value: "foldl (\<lambda>v c. v * 10 + (byte c - 48)) 0 (nat_digits n) = n"
proof (induction n rule: nat_digits.induct)
  case (1 n)
  then show ?case
    by (cases "n < 10") (auto simp: nat_digits.simps [of n] digit_char_def)
qed

lemma nat_digits_inject: "nat_digits m = nat_digits n \<longleftrightarrow> m = n"
  by (metis nat_digits_value)

lemma nat_digits_all: "list_all is_digit (nat_digits n)"
  by (simp add: list_all_iff nat_digits_digit)

lemma fold_case_lower: "list_all (\<lambda>c. byte c < 128 \<and> \<not> in_range 65 90 c) s \<Longrightarrow> fold_case s = s"
  by (induction s rule: fold_case.induct) (auto simp: fold_case.simps lower_byte_def)

lemma fold_case_digits: "list_all is_digit s \<Longrightarrow> fold_case s = s"
  by (rule fold_case_lower) (auto simp: list_all_iff is_digit_def in_range_def)

lemma digit_hd_not: "is_digit c \<Longrightarrow> c # cs \<noteq> ''inf'' \<and> c # cs \<noteq> ''infinity'' \<and> c # cs \<noteq> ''nan''"
  by (auto simp: is_digit_def in_range_def byte_def)

lemma parse_float_nat [codec_simps]:
  assumes "n < 2 ^ 53"
  shows "parse_float (nat_digits n) = (Fin (of_nat n), True)"
proof -
  let ?ds = "nat_digits n"
  obtain c cs where ds: "?ds = c # cs" by (cases ?ds) auto
  have d: "is_digit c" "list_all is_digit (c # cs)" using nat_digits_all [of n] ds by auto
  have sign: "float_sign ?ds = (False, False, ?ds)"
    using d(1) by (auto simp: float_sign_def ds is_digit_def in_range_def byte_def)
  have words: "\<not> equal_fold ?ds ''inf''" "\<not> equal_fold ?ds ''infinity''" "\<not> equal_fold ?ds ''nan''"
    using fold_case_digits [OF d(2)] digit_hd_not [OF d(1), of cs]
    by (auto simp: equal_fold_def ds fold_case_ident lower_ident_def in_range_def byte_def)
  have hex: "\<not> (2 < length ?ds \<and> hd ?ds = CHR ''0'' \<and> low_bit (hd (tl ?ds)) = 120)"
    using d(2) ds by (cases cs) (auto simp: low_bit_def is_digit_def in_range_def)
  have us: "CHR ''_'' \<notin> set ?ds"
    using nat_digits_digit [of "CHR ''_''" n] by (auto simp: is_digit_def in_range_def byte_def)
  have m: "scan_mantissa False \<lparr>mt_value = 0, mt_frac = 0, mt_dot = False, mt_digits = False\<rparr> ?ds =
      (\<lparr>mt_value = n, mt_frac = 0, mt_dot = False, mt_digits = True\<rparr>, [])"
    using scan_mantissa_digits [OF nat_digits_all [of n], of _ "[]"] nat_digits_value [of n] by simp
  show ?thesis
    unfolding parse_float_def sign Let_def
    using hex us by (auto simp: words m read_exponent_def round64_nat [OF assms] pow10_def)
qed

section \<open>Decimal fractions\<close>

lemma exp2_of_le:
  assumes "0 < q" "q \<le> 2 ^ 53"
  shows "exp2_of q \<le> 53"
proof -
  obtain n d where nd: "quotient_of q = (n, d)" by force
  have d: "0 < d" using quotient_of_denom_pos [OF nd] .
  have q: "q = of_int n / of_int d" using quotient_of_div [OF nd] .
  have n: "0 < n" using assms(1) d by (simp add: q zero_less_divide_iff)
  have "of_int n \<le> (of_int (d * 2 ^ 53) :: rat)" using assms(2) d by (simp add: q field_simps)
  then have "n \<le> d * 2 ^ 53" by (simp only: of_int_le_iff)
  then have "nat n \<le> nat d * 2 ^ 53" using d by (simp add: nat_le_iff nat_mult_distrib)
  then have "floorlog 2 (nat n) \<le> floorlog 2 (nat d * 2 ^ 53)" by (rule floorlog_mono)
  also have "\<dots> = floorlog 2 (nat d) + 53" using d by (intro floorlog_power) simp_all
  finally show ?thesis by (simp add: exp2_of_def nd Let_def)
qed

lemma round_even_le: "of_int (round_even q) \<le> q + 1"
proof -
  have "of_int \<lfloor>q\<rfloor> \<le> q + 1" using of_int_floor_le [of q] by linarith
  then show ?thesis by (auto simp: round_even_def Let_def)
qed

text \<open>A value of at most \<open>2 ^ 53\<close> never overflows.\<close>

lemma round64_finite:
  assumes "0 \<le> q" "q \<le> 2 ^ 53"
  shows "\<exists>v. round64 q = Fin v"
proof (cases "q = 0")
  case False
  define u where "u = pow2 (ulp_exp q)"
  have "ulp_exp q \<le> 1" using exp2_of_le [of q] assms False by (simp add: ulp_exp_def)
  moreover have "0 < pow2 e \<and> pow2 e \<le> 2" if "e \<le> 1" for e
  proof (cases "0 \<le> e")
    case True
    then have "e = 0 \<or> e = 1" using that by linarith
    then show ?thesis by (auto simp: pow2_def)
  next
    case False
    then have "inverse (2 ^ nat (- e)) \<le> (1 :: rat)" by (simp add: inverse_le_1_iff)
    then show ?thesis using False by (simp add: pow2_def)
  qed
  ultimately have u: "0 < u" "u \<le> 2" by (simp_all add: u_def)
  have "of_int (round_even (q / u)) \<le> q / u + 1" by (rule round_even_le)
  then have "of_int (round_even (q / u)) * u \<le> (q / u + 1) * u" using u(1) by (intro mult_right_mono) simp_all
  also have "\<dots> = q + u" using u(1) by (simp add: field_simps)
  also have "\<dots> < 2 ^ 54" using u(2) assms(2) by simp
  also have "(2 ^ 54 :: rat) \<le> pow2 1024" unfolding pow2_def by (simp add: power_increasing)
  finally show ?thesis using assms(1) False by (simp add: round64_def Let_def u_def)
qed (simp add: round64_def)

lemma parse_float_decimal:
  assumes "list_all is_digit a" "list_all is_digit b" "a \<noteq> []"
    and "foldl (\<lambda>v c. v * 10 + (byte c - 48)) 0 (a @ b) \<le> 2 ^ 53"
  shows "snd (parse_float (a @ CHR ''.'' # b))"
proof -
  define s where "s = a @ CHR ''.'' # b"
  define n where "n = foldl (\<lambda>v c. v * 10 + (byte c - 48)) 0 (a @ b)"
  obtain c cs where a: "a = c # cs" using assms(3) by (cases a) auto
  have c: "is_digit c" using assms(1) by (simp add: a)
  have sign: "float_sign s = (False, False, s)"
    using c by (auto simp: s_def a float_sign_def is_digit_def in_range_def byte_def)
  have "fold_case s = s"
    using assms(1,2) unfolding s_def
    by (intro fold_case_lower) (auto simp: list_all_iff is_digit_def in_range_def byte_def)
  then have words: "\<not> equal_fold s ''inf''" "\<not> equal_fold s ''infinity''" "\<not> equal_fold s ''nan''"
    using digit_hd_not [OF c] by (auto simp: s_def a equal_fold_def fold_case_ident lower_ident_def in_range_def byte_def)
  have hex: "(2 < length s \<and> hd s = CHR ''0'' \<and> low_bit (hd (tl s)) = 120) = False"
    using assms(1) by (cases cs) (auto simp: s_def a low_bit_def is_digit_def in_range_def byte_def)
  have us: "CHR ''_'' \<notin> set s"
    using assms(1,2) by (auto simp: s_def list_all_iff is_digit_def in_range_def byte_def)
  have m: "scan_mantissa False \<lparr>mt_value = 0, mt_frac = 0, mt_dot = False, mt_digits = False\<rparr> s =
      (\<lparr>mt_value = n, mt_frac = length b, mt_dot = True, mt_digits = True\<rparr>, [])"
    using scan_mantissa_digits [OF assms(1)] scan_mantissa_digits [OF assms(2), of _ "[]"] assms(3)
    by (simp add: s_def n_def)
  have "(of_nat n :: rat) * pow10 (- int (length b)) \<le> of_nat n"
    by (simp add: pow10_def field_simps mult_le_cancel_left1)
  also have "\<dots> \<le> 2 ^ 53" using assms(4) by (metis n_def of_nat_le_iff of_nat_numeral of_nat_power)
  finally obtain v where "round64 (of_nat n * pow10 (- int (length b))) = Fin v"
    using round64_finite [of "of_nat n * pow10 (- int (length b))"] by (auto simp: pow10_def)
  then have "snd (parse_float s)"
    unfolding parse_float_def sign Let_def prod.case hex if_False m
    using words us by (simp add: read_exponent_def)
  then show ?thesis by (simp add: s_def)
qed

text \<open>A text that starts with an exclamation mark is not a number.\<close>

lemma parse_float_mark: "parse_float (CHR ''!'' # s) = (Fin 0, False)"
proof -
  have "hd (fold_case (CHR ''!'' # s)) = CHR ''!''"
    by (cases s rule: fold_case.cases) (simp_all add: fold_case.simps lower_byte_def byte_def in_range_def)
  then have "\<not> equal_fold (CHR ''!'' # s) w" if "w \<in> {''inf'', ''infinity'', ''nan''}" for w
    using that by (auto simp: equal_fold_def fold_case_ident lower_ident_def in_range_def byte_def)
  then show ?thesis
    by (simp add: parse_float_def float_sign_def digit_val_def is_digit_def in_range_def byte_def)
qed

end
