(* ===== verification/GoGlob.thy ===== *)
theory GoGlob
  imports GoPath
begin

text \<open>
  \<open>filepath.Match\<close> on Unix, which a custom command's \<open>allowed_paths\<close> are matched with: \<open>*\<close> is
  any run of bytes without a slash, \<open>?\<close> one rune other than a slash, \<open>[...]\<close> a class of runes
  and a backslash makes the next byte literal. A malformed pattern is the error \<open>None\<close>.
\<close>

section \<open>Runes\<close>

definition cont_byte :: "nat \<Rightarrow> nat \<Rightarrow> char \<Rightarrow> bool" where
  "cont_byte lo hi c \<longleftrightarrow> lo \<le> byte c \<and> byte c \<le> hi"

definition second_range :: "nat \<Rightarrow> nat \<times> nat" where
  "second_range b =
     (if b = 0xE0 then (0xA0, 0xBF) else if b = 0xED then (0x80, 0x9F)
      else if b = 0xF0 then (0x90, 0xBF) else if b = 0xF4 then (0x80, 0x8F) else (0x80, 0xBF))"

text \<open>\<open>utf8.DecodeRuneInString\<close> of a non-empty string: the rune and its number of bytes; bytes
  that are not UTF-8 give the replacement character and one byte.\<close>

definition decode_rune :: "string \<Rightarrow> nat \<times> nat" where
  "decode_rune s =
     (let b = (\<lambda>i. byte (s ! i)); (lo, hi) = second_range (b 0);
          follows = (\<lambda>n. n < length s \<and> (\<forall>i\<in>set [2..<Suc n]. cont_byte 0x80 0xBF (s ! i)) \<and>
                          cont_byte lo hi (s ! 1))
      in if s = [] then (0xFFFD, 0)
         else if b 0 < 0x80 then (b 0, 1)
         else if 0xC2 \<le> b 0 \<and> b 0 \<le> 0xDF \<and> follows 1 then ((b 0 - 0xC0) * 64 + (b 1 - 0x80), 2)
         else if 0xE0 \<le> b 0 \<and> b 0 \<le> 0xEF \<and> follows 2
           then ((b 0 - 0xE0) * 4096 + (b 1 - 0x80) * 64 + (b 2 - 0x80), 3)
         else if 0xF0 \<le> b 0 \<and> b 0 \<le> 0xF4 \<and> follows 3
           then ((b 0 - 0xF0) * 262144 + (b 1 - 0x80) * 4096 + (b 2 - 0x80) * 64 + (b 3 - 0x80), 4)
         else (0xFFFD, 1))"

lemma decode_rune_size: "s \<noteq> [] \<Longrightarrow> 0 < snd (decode_rune s)"
  by (simp add: decode_rune_def Let_def split: prod.split)

section \<open>Matching\<close>

text \<open>One end of a range in a class, which must not be the end of the pattern.\<close>

definition get_esc :: "string \<Rightarrow> (nat \<times> string) option" where
  "get_esc chunk =
     (case chunk of
        [] \<Rightarrow> None
      | c # t \<Rightarrow>
          if c = CHR ''-'' \<or> c = CHR '']'' then None
          else (let body = (if c = CHR 0x5C then t else chunk);
                    (r, n) = decode_rune body; rest = drop n body
            in if body = [] \<or> (r = 0xFFFD \<and> n = 1) \<or> rest = [] then None else Some (r, rest)))"

lemma get_esc_shorter: "get_esc chunk = Some (r, rest) \<Longrightarrow> length rest < length chunk"
proof -
  assume h: "get_esc chunk = Some (r, rest)"
  then obtain c t where c: "chunk = c # t" by (cases chunk) (simp_all add: get_esc_def)
  define body where "body = (if c = CHR 0x5C then t else chunk)"
  have "body \<noteq> []" "rest = drop (snd (decode_rune body)) body"
    using h by (auto simp: get_esc_def c body_def Let_def split: if_splits prod.splits)
  then have "length rest < length body"
    using decode_rune_size [of body] by (cases body) auto
  then show ?thesis by (simp add: body_def c split: if_splits)
qed

text \<open>The ranges of a class, up to its closing bracket: whether the rune \<open>r\<close> is in one of them.\<close>

function scan_class :: "nat \<Rightarrow> bool \<Rightarrow> bool \<Rightarrow> string \<Rightarrow> (bool \<times> string) option" where
  "scan_class r matched some chunk =
     (if some \<and> chunk \<noteq> [] \<and> hd chunk = CHR '']'' then Some (matched, tl chunk)
      else (case get_esc chunk of
          None \<Rightarrow> None
        | Some (lo, c1) \<Rightarrow>
            if hd c1 = CHR ''-''
            then (case get_esc (tl c1) of
                None \<Rightarrow> None
              | Some (hi, c2) \<Rightarrow> scan_class r (matched \<or> lo \<le> r \<and> r \<le> hi) True c2)
            else scan_class r (matched \<or> lo = r) True c1))"
  by pat_completeness auto
termination
proof (relation "measure (\<lambda>(r, m, s, chunk). length chunk)")
  fix r matched some chunk and x lo c1 y hi c2
  assume "get_esc chunk = Some x" "(lo, c1) = x" "get_esc (tl c1) = Some y" "(hi, c2) = y"
  then have "length c1 < length chunk" "length c2 < length (tl c1)"
    using get_esc_shorter by blast+
  then show "((r, matched \<or> lo \<le> r \<and> r \<le> hi, True, c2), (r, matched, some, chunk))
      \<in> measure (\<lambda>(r, m, s, chunk). length chunk)" by simp
qed (auto dest: get_esc_shorter)

declare scan_class.simps [simp del]

lemma scan_class_shorter: "scan_class r m s chunk = Some (b, rest) \<Longrightarrow> length rest < length chunk"
proof (induction r m s chunk rule: scan_class.induct)
  case (1 r m s chunk)
  show ?case
  proof (cases "s \<and> chunk \<noteq> [] \<and> hd chunk = CHR '']''")
    case True
    then show ?thesis using "1.prems" by (subst (asm) scan_class.simps) (auto simp: neq_Nil_conv)
  next
    case False
    then obtain lo c1 where e: "get_esc chunk = Some (lo, c1)"
      using "1.prems" by (auto simp: scan_class.simps [of r m s chunk] split: option.splits)
    show ?thesis
    proof (cases "hd c1 = CHR ''-''")
      case True
      then obtain hi c2 where e2: "get_esc (tl c1) = Some (hi, c2)"
        using "1.prems" False e by (auto simp: scan_class.simps [of r m s chunk] split: option.splits)
      have "length rest < length c2"
        using "1.IH"(1) [OF False e refl True e2 refl] "1.prems" False e True e2
        by (simp add: scan_class.simps [of r m s chunk])
      then show ?thesis using get_esc_shorter [OF e] get_esc_shorter [OF e2] by simp
    next
      case no: False
      have "length rest < length c1"
        using "1.IH"(2) [OF False e refl no] "1.prems" False e no
        by (simp add: scan_class.simps [of r m s chunk])
      then show ?thesis using get_esc_shorter [OF e] by simp
    qed
  qed
qed

text \<open>A chunk against the front of the name. The name is \<open>None\<close> once the match has failed: the
  rest of the chunk is then only checked. The result is \<open>None\<close> for a bad pattern.\<close>

definition advance :: "string option \<Rightarrow> string option" where
  "advance s = (case s of Some (c # t) \<Rightarrow> Some (c # t) | _ \<Rightarrow> None)"

function match_chunk :: "string \<Rightarrow> string option \<Rightarrow> string option option" where
  "match_chunk chunk name =
     (case chunk of
        [] \<Rightarrow> Some name
      | c # t \<Rightarrow>
          (let s = advance name in
           if c = CHR ''['' then
             (let (r, n) = (case s of Some u \<Rightarrow> decode_rune u | None \<Rightarrow> (0, 0));
                  s1 = map_option (drop n) s;
                  negated = (t \<noteq> [] \<and> hd t = CHR ''^'')
              in (case scan_class r False False (if negated then tl t else t) of
                    None \<Rightarrow> None
                  | Some (m, rest) \<Rightarrow> match_chunk rest (if m = negated then None else s1)))
           else if c = CHR ''?'' then
             match_chunk t (case s of
                 Some u \<Rightarrow> if hd u = CHR ''/'' then None else Some (drop (snd (decode_rune u)) u)
               | None \<Rightarrow> None)
           else if c = CHR 0x5C \<and> t = [] then None
           else (let lit = (if c = CHR 0x5C then hd t else c); rest = (if c = CHR 0x5C then tl t else t)
             in match_chunk rest (case s of
                 Some u \<Rightarrow> if hd u = lit then Some (tl u) else None
               | None \<Rightarrow> None))))"
  by pat_completeness auto
termination
proof (relation "measure (\<lambda>(chunk, name). length chunk)", goal_cases)
  case (2 chunk name c t s p r n s1 negated y m rest)
  then show ?case using scan_class_shorter [of r False False "if negated then tl t else t" m rest]
    by (auto split: if_splits)
qed auto

declare match_chunk.simps [simp del]

text \<open>The stars in front, the chunk after them and the rest of the pattern.\<close>

fun chunk_end :: "bool \<Rightarrow> string \<Rightarrow> string \<times> string" where
  "chunk_end inrange [] = ([], [])"
| "chunk_end inrange (c # t) =
     (if c = CHR 0x5C then (case t of
          [] \<Rightarrow> ([c], [])
        | d # u \<Rightarrow> (let (a, b) = chunk_end inrange u in (c # d # a, b)))
      else if c = CHR ''*'' \<and> \<not> inrange then ([], c # t)
      else (let (a, b) = chunk_end (if c = CHR ''['' then True else if c = CHR '']'' then False else inrange) t
            in (c # a, b)))"

definition scan_chunk :: "string \<Rightarrow> bool \<times> string \<times> string" where
  "scan_chunk pat = (pat \<noteq> [] \<and> hd pat = CHR ''*'', chunk_end False (dropWhile (\<lambda>c. c = CHR ''*'') pat))"

lemma chunk_end_append: "chunk_end r s = (a, b) \<Longrightarrow> s = a @ b"
  by (induction r s arbitrary: a b rule: chunk_end.induct)
    (auto split: if_splits list.splits prod.splits)

lemma chunk_end_nonempty: "chunk_end False (c # t) = (a, b) \<Longrightarrow> c \<noteq> CHR ''*'' \<Longrightarrow> a \<noteq> []"
  by (auto split: if_splits list.splits prod.splits)

lemma scan_chunk_shorter: "pat \<noteq> [] \<Longrightarrow> scan_chunk pat = (star, chunk, rest) \<Longrightarrow> length rest < length pat"
proof -
  assume p: "pat \<noteq> []" and s: "scan_chunk pat = (star, chunk, rest)"
  let ?q = "dropWhile (\<lambda>c. c = CHR ''*'') pat"
  have e: "chunk_end False ?q = (chunk, rest)" using s by (simp add: scan_chunk_def)
  have l: "length ?q = length chunk + length rest" using chunk_end_append [OF e] by simp
  show ?thesis
  proof (cases "hd pat = CHR ''*''")
    case True
    then have "length ?q < length pat" using p by (cases pat) (auto simp: le_imp_less_Suc length_dropWhile_le)
    then show ?thesis using l by simp
  next
    case False
    then obtain c t where "?q = c # t" "c \<noteq> CHR ''*''" using p by (cases pat) auto
    then have "chunk \<noteq> []" using chunk_end_nonempty e by metis
    moreover have "length ?q \<le> length pat" by (rule length_dropWhile_le)
    ultimately show ?thesis using l by (cases chunk) auto
  qed
qed

text \<open>The first position a chunk after a star matches at, skipping bytes other than a slash:
  \<open>Some None\<close> when there is none.\<close>

fun star_match :: "bool \<Rightarrow> string \<Rightarrow> string \<Rightarrow> string option option" where
  "star_match final chunk [] = Some None"
| "star_match final chunk (c # name) =
     (if c = CHR ''/'' then Some None
      else (case match_chunk chunk (Some name) of
          None \<Rightarrow> None
        | Some (Some t) \<Rightarrow> if final \<and> t \<noteq> [] then star_match final chunk name else Some (Some t)
        | Some None \<Rightarrow> star_match final chunk name))"

text \<open>Whether the rest of a pattern is well formed.\<close>

function chunks_ok :: "string \<Rightarrow> bool" where
  "chunks_ok pat =
     (if pat = [] then True
      else (let (star, chunk, rest) = scan_chunk pat in match_chunk chunk (Some []) \<noteq> None \<and> chunks_ok rest))"
  by pat_completeness auto
termination by (relation "measure length") (auto dest: scan_chunk_shorter [OF _ sym])

declare chunks_ok.simps [simp del]

function glob_match :: "string \<Rightarrow> string \<Rightarrow> bool option" where
  "glob_match pat name =
     (if pat = [] then Some (name = [])
      else (let (star, chunk, rest) = scan_chunk pat in
        if star \<and> chunk = [] then Some (CHR ''/'' \<notin> set name)
        else (case match_chunk chunk (Some name) of
            None \<Rightarrow> None
          | Some (Some t) \<Rightarrow>
              if t = [] \<or> rest \<noteq> [] then glob_match rest t
              else (case (if star then star_match (rest = []) chunk name else Some None) of
                  None \<Rightarrow> None
                | Some (Some u) \<Rightarrow> glob_match rest u
                | Some None \<Rightarrow> if chunks_ok rest then Some False else None)
          | Some None \<Rightarrow>
              (case (if star then star_match (rest = []) chunk name else Some None) of
                  None \<Rightarrow> None
                | Some (Some u) \<Rightarrow> glob_match rest u
                | Some None \<Rightarrow> if chunks_ok rest then Some False else None))))"
  by pat_completeness auto
termination by (relation "measure (length \<circ> fst)") (auto dest: scan_chunk_shorter [OF _ sym])

declare glob_match.simps [simp del]

end
