(* ===== verification/Interfaces.thy ===== *)
theory Interfaces
  imports GoJson
begin

text \<open>
  The contracts several components share, each a locale that a component proves about its own
  operations: a first-in first-out store of messages (the send queue of a satellite connection,
  the satellite's cache of results on disk), a keyed store (the schedules of a hub, its files)
  and a codec between values and JSON documents (the wire types).
\<close>

section \<open>First in, first out\<close>

text \<open>\<open>room s x\<close> says whether \<open>put\<close> keeps \<open>x\<close>; otherwise \<open>put\<close> loses it and changes
  nothing.\<close>

locale fifo =
  fixes items :: "'s \<Rightarrow> 'a list"
    and wf :: "'s \<Rightarrow> bool"
    and room :: "'s \<Rightarrow> 'a \<Rightarrow> bool"
    and put :: "'a \<Rightarrow> 's \<Rightarrow> 's"
  assumes wf_put: "wf s \<Longrightarrow> wf (put x s)"
    and items_put: "wf s \<Longrightarrow> room s x \<Longrightarrow> items (put x s) = items s @ [x]"
    and items_full: "wf s \<Longrightarrow> \<not> room s x \<Longrightarrow> items (put x s) = items s"
begin

lemma wf_puts: "wf s \<Longrightarrow> wf (fold put xs s)"
  by (induction xs arbitrary: s) (auto intro: wf_put)

text \<open>Whatever is lost, what is kept is kept in order, behind what was there.\<close>

lemma puts_in_order: "wf s \<Longrightarrow> \<exists>ys. subseq ys xs \<and> items (fold put xs s) = items s @ ys"
proof (induction xs arbitrary: s)
  case Nil
  then show ?case by simp
next
  case (Cons x xs)
  obtain ys where ys: "subseq ys xs" "items (fold put xs (put x s)) = items (put x s) @ ys"
    using Cons wf_put by blast
  show ?case
  proof (cases "room s x")
    case True
    then have "items (fold put (x # xs) s) = items s @ (x # ys)"
      using ys items_put [OF Cons.prems] by simp
    then show ?thesis using ys(1) by (blast intro: subseq_Cons2)
  next
    case False
    then have "items (fold put (x # xs) s) = items s @ ys"
      using ys items_full [OF Cons.prems] by simp
    then show ?thesis using ys(1) by (blast intro: list_emb_Cons)
  qed
qed

lemma puts_all:
  assumes "wf s" "\<And>t x. wf t \<Longrightarrow> x \<in> set xs \<Longrightarrow> room t x"
  shows "items (fold put xs s) = items s @ xs"
  using assms
proof (induction xs arbitrary: s)
  case (Cons x xs)
  have "items (fold put xs (put x s)) = items (put x s) @ xs"
    using Cons.prems by (intro Cons.IH wf_put) auto
  then show ?case using Cons.prems items_put [of s x] by simp
qed simp

end

text \<open>With a consumer that takes the oldest message.\<close>

locale fifo_take = fifo +
  fixes take_one :: "'s \<Rightarrow> ('a \<times> 's) option"
  assumes take_None: "wf s \<Longrightarrow> take_one s = None \<longleftrightarrow> items s = []"
    and take_Some: "wf s \<Longrightarrow> take_one s = Some (x, s') \<Longrightarrow> wf s' \<and> items s = x # items s'"
begin

lemma take_oldest:
  assumes "wf s" "items s = x # xs"
  obtains s' where "take_one s = Some (x, s')" "wf s'" "items s' = xs"
proof (cases "take_one s")
  case None
  then show ?thesis using assms take_None by simp
next
  case (Some p)
  then show ?thesis using assms take_Some [of s "fst p" "snd p"] that by (cases p) auto
qed

text \<open>What was put first comes out first: taking after putting into a store with room serves
  the older messages before the new one.\<close>

lemma take_put:
  assumes "wf s" "room s x" "take_one (put x s) = Some (y, s')"
  shows "items s = [] \<and> y = x \<or> (\<exists>xs. items s = y # xs \<and> items s' = xs @ [x])"
  using take_Some [OF wf_put [OF assms(1)] assms(3)] items_put [OF assms(1,2)]
  by (cases "items s") auto

end

text \<open>With a consumer that reads everything, works on a part of it, and then drops that part.\<close>

locale fifo_flush = fifo +
  fixes drop_oldest :: "nat \<Rightarrow> 's \<Rightarrow> 's"
  assumes wf_drop: "wf s \<Longrightarrow> wf (drop_oldest n s)"
    and items_drop: "wf s \<Longrightarrow> items (drop_oldest n s) = drop n (items s)"
begin

text \<open>Messages put while the consumer works are neither lost nor dropped: the part handed over
  and what remains are together what was there and what came, in order.\<close>

lemma flush_conserves:
  assumes "wf s" "n \<le> length (items s)" "\<And>t x. wf t \<Longrightarrow> x \<in> set xs \<Longrightarrow> room t x"
  shows "take n (items s) @ items (drop_oldest n (fold put xs s)) = items s @ xs"
proof -
  have "items (drop_oldest n (fold put xs s)) = drop n (items s @ xs)"
    using puts_all [OF assms(1,3)] items_drop [OF wf_puts [OF assms(1)]] by simp
  then show ?thesis using assms(2) by simp
qed

end

section \<open>Keyed stores\<close>

text \<open>A store of values that carry their own key.\<close>

locale keyed_store =
  fixes key :: "'v \<Rightarrow> 'k"
    and lookup :: "'s \<Rightarrow> 'k \<Rightarrow> 'v option"
    and store :: "'v \<Rightarrow> 's \<Rightarrow> 's"
    and erase :: "'k \<Rightarrow> 's \<Rightarrow> 's"
  assumes lookup_store: "lookup (store v s) = (lookup s)(key v \<mapsto> v)"
    and lookup_erase: "lookup (erase k s) = (lookup s)(k := None)"
begin

lemma lookup_stores: "lookup (fold store vs s) = lookup s ++ map_of (rev (map (\<lambda>v. (key v, v)) vs))"
  by (induction vs arbitrary: s)
    (auto simp: lookup_store map_add_def fun_eq_iff split: option.splits)

text \<open>Storing the values of another store brings in every one of them, and a second time
  changes nothing.\<close>

lemma stores_idem: "lookup (fold store vs (fold store vs s)) = lookup (fold store vs s)"
  by (auto simp: lookup_stores map_add_def fun_eq_iff split: option.splits)

lemma lookup_stores_distinct:
  assumes "distinct (map key vs)" "v \<in> set vs"
  shows "lookup (fold store vs s) (key v) = Some v"
proof -
  have "distinct (map fst (rev (map (\<lambda>v. (key v, v)) vs)))"
    using assms(1) by (simp add: rev_map [symmetric] comp_def)
  then have "map_of (rev (map (\<lambda>v. (key v, v)) vs)) (key v) = Some v"
    using assms(2) by (simp add: map_of_eq_Some_iff)
  then show ?thesis by (simp add: lookup_stores map_add_Some_iff)
qed

lemma lookup_stores_other: "k \<notin> key ` set vs \<Longrightarrow> lookup (fold store vs s) k = lookup s k"
  by (induction vs arbitrary: s) (auto simp: lookup_store)

lemma erase_store: "lookup (erase (key v) (store v s)) = lookup (erase (key v) s)"
  by (simp add: lookup_erase lookup_store)

end

section \<open>Codecs\<close>

text \<open>\<open>seen\<close> is what the reader gets of a value in the encoder's range.\<close>

locale codec =
  fixes enc :: "'a \<Rightarrow> json"
    and dec :: "'a decoder"
    and zero :: 'a
    and encodable :: "'a \<Rightarrow> bool"
    and seen :: "'a \<Rightarrow> 'a"
  assumes dec_enc: "encodable x \<Longrightarrow> dec zero (enc x) = Some (seen x)"
    and seen_encodable: "encodable x \<Longrightarrow> encodable (seen x)"
begin

lemma unmarshal_enc: "encodable x \<Longrightarrow> unmarshal dec zero (Some (enc x)) = Some (seen x)"
  by (simp add: unmarshal_def dec_enc)

lemma list_enc:
  "list_all encodable xs \<Longrightarrow> dec_list dec zero prev (JArr (map enc xs)) = Some (map seen xs)"
  by (simp add: dec_list_def list_all_iff dec_enc dec_all_map)

lemma unmarshal_list:
  "list_all encodable xs \<Longrightarrow> unmarshal (dec_list dec zero) [] (Some (JArr (map enc xs))) = Some (map seen xs)"
  by (simp add: unmarshal_def list_enc)

end

text \<open>A codec that loses nothing.\<close>

locale exact_codec = codec +
  assumes seen_id: "encodable x \<Longrightarrow> seen x = x"
begin

lemma enc_inject: "encodable x \<Longrightarrow> encodable y \<Longrightarrow> enc x = enc y \<Longrightarrow> x = y"
  by (metis dec_enc option.inject seen_id)

lemma list_exact: "list_all encodable xs \<Longrightarrow> dec_list dec zero prev (JArr (map enc xs)) = Some xs"
  by (simp add: list_enc list_all_iff seen_id map_idI cong: map_cong)

end

end
