(* ===== verification/JobParams.thy ===== *)
theory JobParams
  imports GoRegex GoNet
begin

text \<open>
  The job parameters of \<open>common/metrics.go\<close>: their structs as records, the validation
  patterns, the \<open>Validate\<close> methods and \<open>BuildCLIArgs\<close>. A Go \<open>Validate\<close> normalises the struct
  through its pointer and returns an error; its model returns the normalised struct or the
  error's text. Every caller drops the struct when there is an error, so the partly
  normalised struct of a failing call is not kept. Go's \<open>int\<close> is modelled by \<open>int\<close>: the
  decoder of the wire format only delivers 64-bit values and nothing is computed from them
  here.
\<close>

section \<open>Validation patterns\<close>

definition alnum_ranges :: "(nat \<times> nat) list" where
  "alnum_ranges = [(97, 122), (65, 90), (48, 57)]"

definition alnum_re :: regex where
  "alnum_re = RClass True alnum_ranges"

text \<open>One label: \<open>[a-zA-Z0-9]([a-zA-Z0-9\-]{0,61}[a-zA-Z0-9])?\<close>.\<close>

definition label_re :: regex where
  "label_re = RSeq alnum_re (ropt (RSeq (rupto 61 (RClass True (alnum_ranges @ [(45, 45)]))) alnum_re))"

definition hostname_regex :: regex where
  "hostname_regex = RSeq label_re (RStar (RSeq (rchar CHR ''.'') label_re))"

definition digits_re :: regex where
  "digits_re = rplus (RClass True [(48, 57)])"

definition oid_regex :: regex where
  "oid_regex = RSeq (ropt (rchar CHR ''.'')) (RSeq (RStar (RSeq digits_re (rchar CHR ''.''))) digits_re)"

definition community_regex :: regex where
  "community_regex = rplus (RClass True (alnum_ranges @ [(95, 95), (45, 45)]))"

definition sec_name_regex :: regex where
  "sec_name_regex = rplus (RClass True (alnum_ranges @ [(95, 95), (45, 45), (46, 46), (64, 64)]))"

definition auth_protocol_regex :: regex where
  "auth_protocol_regex =
     rany (map rlit [''MD5'', ''SHA'', ''SHA-224'', ''SHA-256'', ''SHA-384'', ''SHA-512''])"

definition priv_protocol_regex :: regex where
  "priv_protocol_regex = rany (map rlit [''DES'', ''AES'', ''AES-128'', ''AES-192'', ''AES-256''])"

text \<open>White space (tab, newline, form feed, return, blank), both quotes, semicolon, bar,
  ampersand, angle brackets and backquote are excluded.\<close>

definition safe_passphrase_regex :: regex where
  "safe_passphrase_regex = rplus (RClass False
     [(9, 10), (12, 13), (32, 32), (34, 34), (39, 39), (59, 59), (124, 124), (38, 38),
      (60, 60), (62, 62), (96, 96)])"

definition context_name_regex :: regex where
  "context_name_regex = rplus (RClass True (alnum_ranges @ [(95, 95), (45, 45), (46, 46)]))"

definition engine_id_regex :: regex where
  "engine_id_regex = RSeq (ropt (rlit ''0x'')) (rplus alnum_re)"

definition vmware_uuid_regex :: regex where
  "vmware_uuid_regex = rbetween 8 64 (RClass True [(48, 57), (97, 102), (65, 70), (45, 45)])"

section \<open>Hosts and bounded numbers\<close>

definition valid_host :: "string \<Rightarrow> bool" where
  "valid_host h \<longleftrightarrow> parse_ip h \<or> rmatch hostname_regex h"

text \<open>The host of a target that may carry a port.\<close>

definition host_part :: "string \<Rightarrow> string" where
  "host_part t = (case split_host_port t of Some (h, _) \<Rightarrow> h | None \<Rightarrow> t)"

definition default_or_max :: "int \<Rightarrow> int \<Rightarrow> string \<Rightarrow> int \<Rightarrow> int res" where
  "default_or_max dflt limit msg n = (if n \<le> 0 then Inr dflt else if n > limit then Inl msg else Inr n)"

section \<open>Ping\<close>

record ping_params =
  pg_host :: string
  pg_count :: int
  pg_timeout :: int

definition ping_validate :: "ping_params \<Rightarrow> ping_params res" where
  "ping_validate p =
     (let host = trim_space (pg_host p) in
      if host = [] then Inl ''host cannot be empty''
      else if \<not> valid_host host then Inl ''invalid or unsafe host name''
      else res_bind (default_or_max 4 10 ''ping count exceeds maximum allowed value (10)'' (pg_count p))
        (\<lambda>count. res_bind (default_or_max 5 15 ''ping timeout exceeds maximum allowed value (15 seconds)'' (pg_timeout p))
        (\<lambda>timeout. Inr \<lparr>pg_host = host, pg_count = count, pg_timeout = timeout\<rparr>)))"

section \<open>Traceroute\<close>

record traceroute_params =
  tr_host :: string
  tr_max_hops :: int
  tr_timeout :: int

definition traceroute_validate :: "traceroute_params \<Rightarrow> traceroute_params res" where
  "traceroute_validate t =
     (let host = trim_space (tr_host t) in
      if host = [] then Inl ''host cannot be empty''
      else if \<not> valid_host host then Inl ''invalid or unsafe host name''
      else res_bind (default_or_max 30 64 ''traceroute max hops exceeds maximum allowed value (64)'' (tr_max_hops t))
        (\<lambda>hops. res_bind (default_or_max 5 15 ''traceroute timeout exceeds maximum allowed value (15 seconds)'' (tr_timeout t))
        (\<lambda>timeout. Inr \<lparr>tr_host = host, tr_max_hops = hops, tr_timeout = timeout\<rparr>)))"

section \<open>SNMP\<close>

record snmp_params =
  sn_version :: string
  sn_target :: string
  sn_community :: string
  sn_oid :: string
  sn_timeout :: int
  sn_sec_level :: string
  sn_sec_name :: string
  sn_auth_protocol :: string
  sn_auth_passphrase :: string
  sn_priv_protocol :: string
  sn_priv_passphrase :: string
  sn_context_name :: string
  sn_engine_id :: string

definition snmp_check_target :: "snmp_params \<Rightarrow> snmp_params res" where
  "snmp_check_target s =
     (let target = trim_space (sn_target s) in
      if target = [] then Inl ''target cannot be empty''
      else if \<not> valid_host (host_part target) then Inl ''invalid or unsafe target address''
      else Inr (s\<lparr>sn_target := target\<rparr>))"

definition norm_version :: "string \<Rightarrow> string" where
  "norm_version v =
     (let w = trim_space (to_lower v) in
      if w = [] \<or> w = ''v2c'' then ''2c'' else if w = ''v1'' then ''1''
      else if w = ''v3'' then ''3'' else w)"

definition snmp_check_version :: "snmp_params \<Rightarrow> snmp_params res" where
  "snmp_check_version s =
     (let v = norm_version (sn_version s) in
      if v \<noteq> ''1'' \<and> v \<noteq> ''2c'' \<and> v \<noteq> ''3'' then Inl ''invalid SNMP version (must be 1, 2c, or 3)''
      else Inr (s\<lparr>sn_version := v\<rparr>))"

definition snmp_check_community :: "snmp_params \<Rightarrow> snmp_params res" where
  "snmp_check_community s =
     (let c = trim_space (sn_community s) in
      if c = [] then Inr (s\<lparr>sn_community := ''public''\<rparr>)
      else if \<not> rmatch community_regex c
      then Inl ''invalid community string (only alphanumeric, underscores, and dashes allowed)''
      else Inr (s\<lparr>sn_community := c\<rparr>))"

definition snmp_check_sec_name :: "snmp_params \<Rightarrow> snmp_params res" where
  "snmp_check_sec_name s =
     (let n = trim_space (sn_sec_name s) in
      if n = [] then Inl ''sec_name (username) is required for SNMP v3''
      else if \<not> rmatch sec_name_regex n then Inl ''invalid sec_name format''
      else Inr (s\<lparr>sn_sec_name := n\<rparr>))"

text \<open>An empty security level is inferred from the passphrases given.\<close>

definition infer_sec_level :: "snmp_params \<Rightarrow> string" where
  "infer_sec_level s =
     (let l = trim_space (sn_sec_level s) in
      if l \<noteq> [] then l
      else if sn_priv_passphrase s \<noteq> [] then ''authPriv''
      else if sn_auth_passphrase s \<noteq> [] then ''authNoPriv''
      else ''noAuthNoPriv'')"

definition snmp_check_sec_level :: "snmp_params \<Rightarrow> snmp_params res" where
  "snmp_check_sec_level s =
     (let l = to_lower (infer_sec_level s) in
      if l = ''noauthnopriv'' then Inr (s\<lparr>sn_sec_level := ''noAuthNoPriv''\<rparr>)
      else if l = ''authnopriv'' then Inr (s\<lparr>sn_sec_level := ''authNoPriv''\<rparr>)
      else if l = ''authpriv'' then Inr (s\<lparr>sn_sec_level := ''authPriv''\<rparr>)
      else Inl ''invalid sec_level (must be noAuthNoPriv, authNoPriv, or authPriv)'')"

definition norm_auth_protocol :: "string \<Rightarrow> string" where
  "norm_auth_protocol p =
     (let u = trim_space (to_upper p); v = (if u = [] then ''SHA'' else u) in
      if v = ''SHA1'' then ''SHA'' else if v = ''SHA256'' then ''SHA-256''
      else if v = ''SHA384'' then ''SHA-384'' else if v = ''SHA512'' then ''SHA-512'' else v)"

definition snmp_check_auth :: "snmp_params \<Rightarrow> snmp_params res" where
  "snmp_check_auth s =
     (if sn_sec_level s = ''authNoPriv'' \<or> sn_sec_level s = ''authPriv'' then
        (let a = norm_auth_protocol (sn_auth_protocol s) in
         if \<not> rmatch auth_protocol_regex a
         then Inl ''invalid auth_protocol (must be MD5, SHA, SHA-224, SHA-256, SHA-384, or SHA-512)''
         else if sn_auth_passphrase s = []
         then Inl ''auth_passphrase is required when sec_level is authNoPriv or authPriv''
         else if \<not> rmatch safe_passphrase_regex (sn_auth_passphrase s)
         then Inl ''auth_passphrase contains invalid characters''
         else Inr (s\<lparr>sn_auth_protocol := a\<rparr>))
      else Inr s)"

definition norm_priv_protocol :: "string \<Rightarrow> string" where
  "norm_priv_protocol p =
     (let u = trim_space (to_upper p); v = (if u = [] then ''AES'' else u) in
      if v = ''AES128'' then ''AES-128'' else if v = ''AES192'' then ''AES-192''
      else if v = ''AES256'' then ''AES-256'' else v)"

definition snmp_check_priv :: "snmp_params \<Rightarrow> snmp_params res" where
  "snmp_check_priv s =
     (if sn_sec_level s = ''authPriv'' then
        (let x = norm_priv_protocol (sn_priv_protocol s) in
         if \<not> rmatch priv_protocol_regex x
         then Inl ''invalid priv_protocol (must be DES, AES, AES-128, AES-192, or AES-256)''
         else if sn_priv_passphrase s = []
         then Inl ''priv_passphrase is required when sec_level is authPriv''
         else if \<not> rmatch safe_passphrase_regex (sn_priv_passphrase s)
         then Inl ''priv_passphrase contains invalid characters''
         else Inr (s\<lparr>sn_priv_protocol := x\<rparr>))
      else Inr s)"

definition snmp_check_context :: "snmp_params \<Rightarrow> snmp_params res" where
  "snmp_check_context s =
     (let c = trim_space (sn_context_name s); e = trim_space (sn_engine_id s) in
      if c \<noteq> [] \<and> \<not> rmatch context_name_regex c then Inl ''invalid context_name format''
      else if e \<noteq> [] \<and> \<not> rmatch engine_id_regex e then Inl ''invalid engine_id format''
      else Inr (s\<lparr>sn_context_name := c, sn_engine_id := e\<rparr>))"

definition snmp_check_v3 :: "snmp_params \<Rightarrow> snmp_params res" where
  "snmp_check_v3 s =
     res_bind (snmp_check_sec_name s) (\<lambda>s. res_bind (snmp_check_sec_level s) (\<lambda>s.
     res_bind (snmp_check_auth s) (\<lambda>s. res_bind (snmp_check_priv s) snmp_check_context)))"

definition snmp_check_oid :: "snmp_params \<Rightarrow> snmp_params res" where
  "snmp_check_oid s =
     (let oid = trim_space (sn_oid s) in
      if oid = [] then Inr (s\<lparr>sn_oid := ''.1.3.6''\<rparr>)
      else if \<not> rmatch oid_regex oid then Inl ''invalid OID format''
      else Inr (s\<lparr>sn_oid := oid\<rparr>))"

definition snmp_check_timeout :: "snmp_params \<Rightarrow> snmp_params res" where
  "snmp_check_timeout s =
     res_bind (default_or_max 5 15 ''snmp timeout exceeds maximum allowed value (15 seconds)'' (sn_timeout s))
       (\<lambda>t. Inr (s\<lparr>sn_timeout := t\<rparr>))"

definition snmp_validate :: "snmp_params \<Rightarrow> snmp_params res" where
  "snmp_validate s =
     res_bind (snmp_check_target s) (\<lambda>s. res_bind (snmp_check_version s) (\<lambda>s.
     res_bind (if sn_version s = ''3'' then snmp_check_v3 s else snmp_check_community s) (\<lambda>s.
     res_bind (snmp_check_oid s) snmp_check_timeout)))"

definition build_cli_args :: "snmp_params \<Rightarrow> string list" where
  "build_cli_args s =
     (if sn_version s = ''3'' then
        [''-v'', ''3'', ''-u'', sn_sec_name s]
        @ (if sn_sec_level s \<noteq> [] then [''-l'', sn_sec_level s] else [])
        @ (if sn_sec_level s = ''authNoPriv'' \<or> sn_sec_level s = ''authPriv'' then
             (if sn_auth_protocol s \<noteq> [] then [''-a'', sn_auth_protocol s] else [])
             @ (if sn_auth_passphrase s \<noteq> [] then [''-A'', sn_auth_passphrase s] else [])
           else [])
        @ (if sn_sec_level s = ''authPriv'' then
             (if sn_priv_protocol s \<noteq> [] then [''-x'', sn_priv_protocol s] else [])
             @ (if sn_priv_passphrase s \<noteq> [] then [''-X'', sn_priv_passphrase s] else [])
           else [])
        @ (if sn_context_name s \<noteq> [] then [''-n'', sn_context_name s] else [])
        @ (if sn_engine_id s \<noteq> [] then [''-e'', sn_engine_id s] else [])
      else
        [''-v'', (if sn_version s = [] then ''2c'' else sn_version s),
         ''-c'', (if sn_community s = [] then ''public'' else sn_community s)])
     @ [''-t'', itoa (sn_timeout s), sn_target s, sn_oid s]"

section \<open>VMware\<close>

record vmware_params =
  vm_host :: string
  vm_username :: string
  vm_password :: string
  vm_timeout :: int

record vmware_hw_params = vmware_params +
  vm_name :: string
  vm_uuid :: string

definition vmware_validate :: "('a) vmware_params_scheme \<Rightarrow> ('a) vmware_params_scheme res" where
  "vmware_validate v =
     (let host = trim_space (vm_host v); user = trim_space (vm_username v) in
      if host = [] then Inl ''host cannot be empty''
      else if \<not> valid_host (host_part host) then Inl ''invalid or unsafe host address''
      else if user = [] then Inl ''username cannot be empty''
      else if vm_password v = [] then Inl ''password cannot be empty''
      else res_bind (default_or_max 30 300 ''timeout exceeds maximum allowed value (300 seconds)'' (vm_timeout v))
        (\<lambda>t. Inr (v\<lparr>vm_host := host, vm_username := user, vm_timeout := t\<rparr>)))"

definition vmware_hw_validate :: "vmware_hw_params \<Rightarrow> vmware_hw_params res" where
  "vmware_hw_validate v =
     res_bind (vmware_validate v) (\<lambda>v.
       (let name = trim_space (vm_name v); uuid = trim_space (vm_uuid v) in
        if name = [] \<and> uuid = [] then Inl ''either vm_name or uuid must be provided''
        else if has_prefix name ''-'' then Inl ''invalid vm_name''
        else if uuid \<noteq> [] \<and> \<not> rmatch vmware_uuid_regex uuid then Inl ''invalid uuid''
        else Inr (v\<lparr>vm_name := name, vm_uuid := uuid\<rparr>)))"

section \<open>What the patterns accept\<close>

lemma in_alnum_ranges [simp]: "in_class True alnum_ranges c \<longleftrightarrow> is_alnum c"
  by (auto simp: in_class.simps alnum_ranges_def is_alnum_def)

lemma in_alnum_ranges_append [simp]:
  "in_class True (alnum_ranges @ rs) c \<longleftrightarrow> is_alnum c \<or> in_class True rs c"
  by (auto simp: in_class.simps alnum_ranges_def is_alnum_def)

lemma byte_dash [simp]: "byte CHR ''-'' = 45"
  by (simp add: byte_def)

lemma in_class_dash [simp]: "in_class True [(45, 45)] c \<longleftrightarrow> c = CHR ''-''"
  using in_class_single [of "CHR ''-''" c] by simp

lemma rlang_alnum [simp]: "rlang alnum_re = {[c] | c. is_alnum c}"
  by (simp add: alnum_re_def)

text \<open>A label of a host name in words: one to 63 letters, digits and dashes, a letter or digit
  at both ends.\<close>

definition valid_label :: "string \<Rightarrow> bool" where
  "valid_label l \<longleftrightarrow> 1 \<le> length l \<and> length l \<le> 63 \<and> is_alnum (hd l) \<and> is_alnum (last l) \<and>
     (\<forall>c\<in>set l. is_alnum c \<or> c = CHR ''-'')"

lemma label_re_iff: "l \<in> rlang label_re \<longleftrightarrow> valid_label l"
proof
  assume "l \<in> rlang label_re"
  then obtain a t where l: "l = a # t" "is_alnum a"
    and t: "t = [] \<or> (\<exists>m b. t = m @ [b] \<and> is_alnum b \<and> length m \<le> 61 \<and>
      (\<forall>c\<in>set m. is_alnum c \<or> c = CHR ''-''))"
    by (auto simp: label_re_def ropt_def rlang_rupto_class)
  then show "valid_label l" by (auto simp: valid_label_def)
next
  assume v: "valid_label l"
  then obtain a t where l: "l = a # t" by (cases l) (auto simp: valid_label_def)
  have "t \<in> rlang (ropt (RSeq (rupto 61 (RClass True (alnum_ranges @ [(45, 45)]))) alnum_re))"
  proof (cases t rule: rev_cases)
    case (snoc m b)
    then show ?thesis
      using v l by (auto simp: valid_label_def ropt_def rlang_rupto_class)
  qed (simp add: ropt_def)
  moreover have "[a] \<in> rlang alnum_re" using v l by (simp add: valid_label_def)
  ultimately have "[a] @ t \<in> rlang label_re" unfolding label_re_def rlang.simps(4) by blast
  then show "l \<in> rlang label_re" using l by simp
qed

lemma valid_label_no_dot: "valid_label l \<Longrightarrow> CHR ''.'' \<notin> set l"
  by (auto simp: valid_label_def is_alnum_def in_range_def byte_def)

definition dotted_labels :: "string set" where
  "dotted_labels = star_lang {CHR ''.'' # l | l. valid_label l}"

lemma dotted_labels_iff:
  "valid_label l \<and> t \<in> dotted_labels \<Longrightarrow> \<forall>w\<in>set (split_on CHR ''.'' (l @ t)). valid_label w"
proof -
  assume a: "valid_label l \<and> t \<in> dotted_labels"
  then have "t \<in> star_lang {CHR ''.'' # l | l. valid_label l}" by (simp add: dotted_labels_def)
  then show ?thesis
    using a [THEN conjunct1]
  proof (induction t arbitrary: l)
    case star_Nil
    then show ?case by (simp add: split_on_absent valid_label_no_dot)
  next
    case (star_step u v)
    then show ?case by (auto simp: split_on_append valid_label_no_dot)
  qed
qed

lemma dotted_labels_join:
  "ws \<noteq> [] \<Longrightarrow> \<forall>w\<in>set ws. valid_label w \<Longrightarrow>
   \<exists>l t. valid_label l \<and> t \<in> dotted_labels \<and> join_with CHR ''.'' ws = l @ t"
proof (induction "CHR ''.''" ws rule: join_with.induct)
  case (2 w)
  then show ?case by (auto simp: dotted_labels_def intro: star_lang.star_Nil)
next
  case (3 w v ws)
  then obtain l t where lt: "valid_label l" "t \<in> dotted_labels" "join_with CHR ''.'' (v # ws) = l @ t"
    by auto
  have "(CHR ''.'' # l) @ t \<in> dotted_labels"
    using lt unfolding dotted_labels_def by (intro star_lang.star_step) auto
  then show ?case using 3 lt by (intro exI [of _ w] exI [of _ "(CHR ''.'' # l) @ t"]) simp
qed simp

text \<open>The host name pattern accepts exactly the dot-separated sequences of labels of one
  to 63 letters, digits and dashes that start and end with a letter or digit: the compact
  regular expression of the code and the rule in words are the same set of strings.\<close>

theorem hostname_regex_labels:
  "rmatch hostname_regex h \<longleftrightarrow> list_all valid_label (split_on CHR ''.'' h)"
proof -
  have lang: "rlang hostname_regex = {l @ t | l t. valid_label l \<and> t \<in> dotted_labels}"
  proof -
    have "{u @ v | u v. (u = [CHR ''.'']) \<and> valid_label v} = {CHR ''.'' # l | l. valid_label l}"
      by auto
    then show ?thesis
      by (simp add: hostname_regex_def label_re_iff dotted_labels_def rchar_def)
  qed
  have "rmatch hostname_regex h \<longleftrightarrow> (\<forall>l\<in>set (split_on CHR ''.'' h). valid_label l)"
  proof
    assume "rmatch hostname_regex h"
    then show "\<forall>l\<in>set (split_on CHR ''.'' h). valid_label l"
      using dotted_labels_iff by (auto simp: rmatch_iff lang)
  next
    assume "\<forall>l\<in>set (split_on CHR ''.'' h). valid_label l"
    then show "rmatch hostname_regex h"
      using dotted_labels_join [of "split_on CHR ''.'' h"] by (auto simp: rmatch_iff lang join_split)
  qed
  then show ?thesis by (simp add: list_all_iff)
qed

text \<open>The UUID pattern accepts exactly 8 to 64 hexadecimal digits and dashes.\<close>

theorem uuid_regex_iff:
  "rmatch vmware_uuid_regex u \<longleftrightarrow>
     8 \<le> length u \<and> length u \<le> 64 \<and> (\<forall>c\<in>set u. is_hex c \<or> c = CHR ''-'')"
proof -
  have cls: "in_class True [(48, 57), (97, 102), (65, 70), (45, 45)] c \<longleftrightarrow> is_hex c \<or> c = CHR ''-''" for c
    using in_class_dash [of c] by (auto simp: in_class.simps is_hex_def)
  show ?thesis by (simp add: rmatch_iff vmware_uuid_regex_def rlang_rbetween_class cls)
qed

section \<open>Hosts that passed the check\<close>

definition safe_host_char :: "char \<Rightarrow> bool" where
  "safe_host_char c \<longleftrightarrow> is_alnum c \<or> c = CHR ''.'' \<or> c = CHR ''-'' \<or> c = CHR '':''"

text \<open>A command line argument that no option parser takes for an option.\<close>

definition plain_arg :: "string \<Rightarrow> bool" where
  "plain_arg a \<longleftrightarrow> a \<noteq> [] \<and> hd a \<noteq> CHR ''-''"

lemma is_alnum_not_dash: "is_alnum c \<Longrightarrow> c \<noteq> CHR ''-''"
  by (auto simp: is_alnum_def in_range_def byte_def)

lemma hostname_regex_chars:
  "rmatch hostname_regex h \<Longrightarrow> c \<in> set h \<Longrightarrow> is_alnum c \<or> c = CHR ''.'' \<or> c = CHR ''-''"
  by (rule rmatch_chars [where P = "\<lambda>c. is_alnum c \<or> c = CHR ''.'' \<or> c = CHR ''-''" and r = hostname_regex])
    (simp_all add: hostname_regex_def label_re_def alnum_re_def)

lemma hostname_regex_starts: "rmatch hostname_regex h \<Longrightarrow> h \<noteq> [] \<and> is_alnum (hd h)"
  by (rule rmatch_starts [where r = hostname_regex])
    (simp_all add: hostname_regex_def label_re_def alnum_re_def)

lemma valid_host_plain: "valid_host h \<Longrightarrow> plain_arg h"
  unfolding valid_host_def plain_arg_def
  using parse_ip_not_Nil parse_ip_not_dash hostname_regex_starts is_alnum_not_dash
  by (metis list.set_sel(1))

lemma valid_host_chars: "valid_host h \<Longrightarrow> c \<in> set h \<Longrightarrow> safe_host_char c"
  unfolding valid_host_def safe_host_char_def
  using parse_ip_chars [of h c] hostname_regex_chars [of h c] is_hex_alnum
  by (auto simp: ip_char_def)

lemma split_host_port_Some:
  assumes "split_host_port t = Some (h, p)"
  shows "hd t = CHR ''['' \<or> t = h @ CHR '':'' # p"
proof (rule disjCI)
  assume n: "t \<noteq> h @ CHR '':'' # p"
  show "hd t = CHR ''[''"
  proof (rule ccontr)
    assume b: "hd t \<noteq> CHR ''[''"
    obtain i where i: "last_index_byte CHR '':'' t = Some i"
      using assms by (auto simp: split_host_port_def split: option.splits)
    with assms b have hp: "h = take i t" "p = drop (i + 1) t"
      by (auto simp: split_host_port_def Let_def split: if_splits)
    have "\<exists>u v. t = u @ CHR '':'' # v \<and> i = length u"
      using last_index_byte_Some [OF i] by blast
    then show False using hp n by auto
  qed
qed

lemma host_part_plain: "valid_host (host_part t) \<Longrightarrow> t \<noteq> [] \<Longrightarrow> plain_arg t"
proof -
  assume v: "valid_host (host_part t)" and t: "t \<noteq> []"
  show ?thesis
  proof (cases "split_host_port t")
    case None
    then show ?thesis using v valid_host_plain by (simp add: host_part_def)
  next
    case (Some hp)
    obtain h p where "hp = (h, p)" by (cases hp)
    with Some v have h: "plain_arg h" and sp: "split_host_port t = Some (h, p)"
      using valid_host_plain by (auto simp: host_part_def)
    from split_host_port_Some [OF sp] h t show ?thesis
      by (auto simp: plain_arg_def)
  qed
qed

lemma default_or_max_Inr:
  "default_or_max d m msg n = Inr k \<longleftrightarrow> (n \<le> 0 \<and> k = d) \<or> (0 < n \<and> n \<le> m \<and> k = n)"
  by (auto simp: default_or_max_def)

section \<open>Command lines\<close>

text \<open>The argument vectors of \<open>runPingCommand\<close> and \<open>runTracerouteCommand\<close>.\<close>

definition ping_argv :: "ping_params \<Rightarrow> string list" where
  "ping_argv p = [''-c'', itoa (pg_count p), ''-W'', itoa (pg_timeout p), pg_host p]"

definition traceroute_argv :: "traceroute_params \<Rightarrow> string list" where
  "traceroute_argv t = [''-w'', itoa (tr_timeout t), ''-m'', itoa (tr_max_hops t), tr_host t]"

text \<open>How a command reads its arguments, as the reference for the argument vectors: an
  argument that starts with a dash must be one of the options \<open>opts\<close>, which take the next
  argument as their value; every other argument is positional.\<close>

fun getopt :: "string list \<Rightarrow> string list \<Rightarrow> ((string \<times> string) list \<times> string list) option" where
  "getopt opts [] = Some ([], [])"
| "getopt opts (a # as) =
     (if has_prefix a ''-'' then
        (case as of [] \<Rightarrow> None
         | v # as' \<Rightarrow> if a \<in> set opts
             then map_option (\<lambda>(os, ps). ((a, v) # os, ps)) (getopt opts as') else None)
      else map_option (\<lambda>(os, ps). (os, a # ps)) (getopt opts as))"

lemma plain_arg_no_prefix [simp]: "plain_arg a \<Longrightarrow> \<not> has_prefix a ''-''"
  by (cases a) (auto simp: plain_arg_def has_prefix_def)

lemma has_prefix_dash [simp]: "has_prefix (CHR ''-'' # w) ''-''"
  by (simp add: has_prefix_def)

lemma getopt_plain [simp]:
  "plain_arg a \<Longrightarrow> getopt opts (a # as) = map_option (\<lambda>(os, ps). (os, a # ps)) (getopt opts as)"
  by (cases a) (auto simp: plain_arg_def has_prefix_def)

text \<open>A validated ping job runs \<open>ping\<close> with exactly the count and timeout options and one
  positional argument, the trimmed host: a host that passed validation is made of letters,
  digits, dots, dashes and colons and never starts with a dash, so it cannot be taken for an
  option; the count is between 1 and 10, the timeout between 1 and 15.\<close>

theorem ping_validate_argv:
  assumes "ping_validate p = Inr q"
  shows "getopt [''-c'', ''-W''] (ping_argv q) =
      Some ([(''-c'', itoa (pg_count q)), (''-W'', itoa (pg_timeout q))], [trim_space (pg_host p)])
    \<and> (\<forall>c\<in>set (pg_host q). safe_host_char c)
    \<and> 1 \<le> pg_count q \<and> pg_count q \<le> 10 \<and> 1 \<le> pg_timeout q \<and> pg_timeout q \<le> 15"
proof -
  from assms have q: "pg_host q = trim_space (pg_host p)" "valid_host (pg_host q)"
    and n: "1 \<le> pg_count q \<and> pg_count q \<le> 10 \<and> 1 \<le> pg_timeout q \<and> pg_timeout q \<le> 15"
    by (auto simp: ping_validate_def Let_def res_bind_Inr_iff default_or_max_Inr split: if_splits)
  moreover have "\<forall>c\<in>set (pg_host q). safe_host_char c" using q valid_host_chars by blast
  ultimately show ?thesis
    using valid_host_plain [of "pg_host q"] by (simp add: ping_argv_def)
qed

theorem ping_validate_argv_witness:
  "getopt [''-c'', ''-W''] (ping_argv \<lparr>pg_host = ''h.example'', pg_count = 4, pg_timeout = 15\<rparr>) =
     Some ([(''-c'', itoa 4), (''-W'', itoa 15)], [trim_space '' h.example''])"
proof -
  have v: "ping_validate \<lparr>pg_host = '' h.example'', pg_count = 0, pg_timeout = 15\<rparr> =
    Inr \<lparr>pg_host = ''h.example'', pg_count = 4, pg_timeout = 15\<rparr>" by code_simp
  show ?thesis using ping_validate_argv [OF v] by simp
qed

text \<open>The same for traceroute: exactly the wait and hop options and one positional
  argument, with the hop count between 1 and 64 and the timeout between 1 and 15.\<close>

theorem traceroute_validate_argv:
  assumes "traceroute_validate t = Inr u"
  shows "getopt [''-w'', ''-m''] (traceroute_argv u) =
      Some ([(''-w'', itoa (tr_timeout u)), (''-m'', itoa (tr_max_hops u))], [trim_space (tr_host t)])
    \<and> (\<forall>c\<in>set (tr_host u). safe_host_char c)
    \<and> 1 \<le> tr_max_hops u \<and> tr_max_hops u \<le> 64 \<and> 1 \<le> tr_timeout u \<and> tr_timeout u \<le> 15"
proof -
  from assms have u: "tr_host u = trim_space (tr_host t)" "valid_host (tr_host u)"
    and n: "1 \<le> tr_max_hops u \<and> tr_max_hops u \<le> 64 \<and> 1 \<le> tr_timeout u \<and> tr_timeout u \<le> 15"
    by (auto simp: traceroute_validate_def Let_def res_bind_Inr_iff default_or_max_Inr split: if_splits)
  moreover have "\<forall>c\<in>set (tr_host u). safe_host_char c" using u valid_host_chars by blast
  ultimately show ?thesis
    using valid_host_plain [of "tr_host u"] by (simp add: traceroute_argv_def)
qed

theorem traceroute_validate_argv_witness:
  "getopt [''-w'', ''-m''] (traceroute_argv \<lparr>tr_host = ''1.1.1.1'', tr_max_hops = 15, tr_timeout = 5\<rparr>) =
     Some ([(''-w'', itoa 5), (''-m'', itoa 15)], [trim_space ''1.1.1.1''])"
proof -
  have v: "traceroute_validate \<lparr>tr_host = ''1.1.1.1'', tr_max_hops = 15, tr_timeout = 0\<rparr> =
    Inr \<lparr>tr_host = ''1.1.1.1'', tr_max_hops = 15, tr_timeout = 5\<rparr>" by code_simp
  show ?thesis using traceroute_validate_argv [OF v] by simp
qed

section \<open>SNMP facts\<close>

lemmas snmp_check_defs = snmp_check_target_def snmp_check_version_def snmp_check_community_def
  snmp_check_v3_def snmp_check_sec_name_def snmp_check_sec_level_def snmp_check_auth_def
  snmp_check_priv_def snmp_check_context_def snmp_check_oid_def snmp_check_timeout_def

text \<open>What a validated parameter block satisfies.\<close>

definition snmp_wf :: "snmp_params \<Rightarrow> bool" where
  "snmp_wf s \<longleftrightarrow>
     trim_space (sn_target s) = sn_target s \<and> sn_target s \<noteq> [] \<and> valid_host (host_part (sn_target s)) \<and>
     trim_space (sn_oid s) = sn_oid s \<and> rmatch oid_regex (sn_oid s) \<and>
     1 \<le> sn_timeout s \<and> sn_timeout s \<le> 15 \<and>
     (if sn_version s = ''3'' then
        trim_space (sn_sec_name s) = sn_sec_name s \<and> rmatch sec_name_regex (sn_sec_name s) \<and>
        sn_sec_level s \<in> {''noAuthNoPriv'', ''authNoPriv'', ''authPriv''} \<and>
        (sn_sec_level s \<noteq> ''noAuthNoPriv'' \<longrightarrow>
           rmatch auth_protocol_regex (sn_auth_protocol s) \<and>
           sn_auth_passphrase s \<noteq> [] \<and> rmatch safe_passphrase_regex (sn_auth_passphrase s)) \<and>
        (sn_sec_level s = ''authPriv'' \<longrightarrow>
           rmatch priv_protocol_regex (sn_priv_protocol s) \<and>
           sn_priv_passphrase s \<noteq> [] \<and> rmatch safe_passphrase_regex (sn_priv_passphrase s)) \<and>
        trim_space (sn_context_name s) = sn_context_name s \<and>
        (sn_context_name s \<noteq> [] \<longrightarrow> rmatch context_name_regex (sn_context_name s)) \<and>
        trim_space (sn_engine_id s) = sn_engine_id s \<and>
        (sn_engine_id s \<noteq> [] \<longrightarrow> rmatch engine_id_regex (sn_engine_id s))
      else sn_version s \<in> {''1'', ''2c''} \<and>
        trim_space (sn_community s) = sn_community s \<and> rmatch community_regex (sn_community s))"

lemma constants_ok [simp]:
  "trim_space ''public'' = ''public''" "rmatch community_regex ''public''"
  "trim_space ''.1.3.6'' = ''.1.3.6''" "rmatch oid_regex ''.1.3.6''"
  "\<not> rmatch community_regex []" "\<not> rmatch oid_regex []" "\<not> rmatch sec_name_regex []"
  by code_simp+

lemma auth_protocol_cases:
  "rmatch auth_protocol_regex a \<longleftrightarrow>
     a \<in> {''MD5'', ''SHA'', ''SHA-224'', ''SHA-256'', ''SHA-384'', ''SHA-512''}"
  unfolding auth_protocol_regex_def rmatch_rany_lits by simp

lemma priv_protocol_cases:
  "rmatch priv_protocol_regex a \<longleftrightarrow> a \<in> {''DES'', ''AES'', ''AES-128'', ''AES-192'', ''AES-256''}"
  unfolding priv_protocol_regex_def rmatch_rany_lits by simp

lemma norm_fixed:
  "norm_version ''1'' = ''1''" "norm_version ''2c'' = ''2c''" "norm_version ''3'' = ''3''"
  "rmatch auth_protocol_regex a \<Longrightarrow> norm_auth_protocol a = a"
  "rmatch priv_protocol_regex a \<Longrightarrow> norm_priv_protocol a = a"
proof -
  show "norm_version ''1'' = ''1''" "norm_version ''2c'' = ''2c''" "norm_version ''3'' = ''3''"
    by code_simp+
  have "norm_auth_protocol ''MD5'' = ''MD5''" "norm_auth_protocol ''SHA'' = ''SHA''"
    "norm_auth_protocol ''SHA-224'' = ''SHA-224''" "norm_auth_protocol ''SHA-256'' = ''SHA-256''"
    "norm_auth_protocol ''SHA-384'' = ''SHA-384''" "norm_auth_protocol ''SHA-512'' = ''SHA-512''"
    by code_simp+
  then show "rmatch auth_protocol_regex a \<Longrightarrow> norm_auth_protocol a = a"
    by (auto simp: auth_protocol_cases)
  have "norm_priv_protocol ''DES'' = ''DES''" "norm_priv_protocol ''AES'' = ''AES''"
    "norm_priv_protocol ''AES-128'' = ''AES-128''" "norm_priv_protocol ''AES-192'' = ''AES-192''"
    "norm_priv_protocol ''AES-256'' = ''AES-256''"
    by code_simp+
  then show "rmatch priv_protocol_regex a \<Longrightarrow> norm_priv_protocol a = a"
    by (auto simp: priv_protocol_cases)
qed

lemma sec_level_constants [simp]:
  "trim_space ''noAuthNoPriv'' = ''noAuthNoPriv''" "to_lower ''noAuthNoPriv'' = ''noauthnopriv''"
  "trim_space ''authNoPriv'' = ''authNoPriv''" "to_lower ''authNoPriv'' = ''authnopriv''"
  "trim_space ''authPriv'' = ''authPriv''" "to_lower ''authPriv'' = ''authpriv''"
  by code_simp+

lemma sec_level_fixed:
  assumes "sn_sec_level s \<in> {''noAuthNoPriv'', ''authNoPriv'', ''authPriv''}"
  shows "snmp_check_sec_level s = Inr s"
proof -
  have i: "infer_sec_level s = sn_sec_level s"
    using assms by (auto simp: infer_sec_level_def)
  from assms consider "sn_sec_level s = ''noAuthNoPriv''" | "sn_sec_level s = ''authNoPriv''"
    | "sn_sec_level s = ''authPriv''" by blast
  then show ?thesis
    by cases (simp_all add: snmp_check_sec_level_def i)
qed

lemma snmp_check_target_Inr:
  "snmp_check_target s = Inr t \<Longrightarrow> \<exists>x. t = s\<lparr>sn_target := x\<rparr> \<and> trim_space x = x \<and> x \<noteq> [] \<and>
     valid_host (host_part x)"
  by (auto simp: snmp_check_target_def Let_def split: if_splits intro!: exI [of _ "sn_target t"])

lemma snmp_check_version_Inr:
  "snmp_check_version s = Inr t \<Longrightarrow> \<exists>x. t = s\<lparr>sn_version := x\<rparr> \<and> x \<in> {''1'', ''2c'', ''3''}"
  by (auto simp: snmp_check_version_def Let_def split: if_splits intro!: exI [of _ "sn_version t"])

lemma snmp_check_community_Inr:
  "snmp_check_community s = Inr t \<Longrightarrow> \<exists>x. t = s\<lparr>sn_community := x\<rparr> \<and> trim_space x = x \<and>
     rmatch community_regex x"
  by (auto simp: snmp_check_community_def Let_def split: if_splits intro!: exI [of _ "sn_community t"])

lemma snmp_check_sec_name_Inr:
  "snmp_check_sec_name s = Inr t \<Longrightarrow> \<exists>x. t = s\<lparr>sn_sec_name := x\<rparr> \<and> trim_space x = x \<and>
     rmatch sec_name_regex x"
  by (auto simp: snmp_check_sec_name_def Let_def split: if_splits intro!: exI [of _ "sn_sec_name t"])

lemma snmp_check_sec_level_Inr:
  "snmp_check_sec_level s = Inr t \<Longrightarrow> \<exists>x. t = s\<lparr>sn_sec_level := x\<rparr> \<and>
     x \<in> {''noAuthNoPriv'', ''authNoPriv'', ''authPriv''}"
  by (auto simp: snmp_check_sec_level_def Let_def split: if_splits intro!: exI [of _ "sn_sec_level t"])

lemma snmp_check_auth_Inr:
  "snmp_check_auth s = Inr t \<Longrightarrow> \<exists>x. t = s\<lparr>sn_auth_protocol := x\<rparr> \<and>
     (sn_sec_level s = ''authNoPriv'' \<or> sn_sec_level s = ''authPriv'' \<longrightarrow>
       rmatch auth_protocol_regex x \<and>
       sn_auth_passphrase s \<noteq> [] \<and> rmatch safe_passphrase_regex (sn_auth_passphrase s))"
  by (auto simp: snmp_check_auth_def Let_def split: if_splits intro!: exI [of _ "sn_auth_protocol t"])

lemma snmp_check_priv_Inr:
  "snmp_check_priv s = Inr t \<Longrightarrow> \<exists>x. t = s\<lparr>sn_priv_protocol := x\<rparr> \<and>
     (sn_sec_level s = ''authPriv'' \<longrightarrow> rmatch priv_protocol_regex x \<and>
       sn_priv_passphrase s \<noteq> [] \<and> rmatch safe_passphrase_regex (sn_priv_passphrase s))"
  by (auto simp: snmp_check_priv_def Let_def split: if_splits intro!: exI [of _ "sn_priv_protocol t"])

lemma snmp_check_context_Inr:
  "snmp_check_context s = Inr t \<Longrightarrow> \<exists>c e. t = s\<lparr>sn_context_name := c, sn_engine_id := e\<rparr> \<and>
     trim_space c = c \<and> (c \<noteq> [] \<longrightarrow> rmatch context_name_regex c) \<and>
     trim_space e = e \<and> (e \<noteq> [] \<longrightarrow> rmatch engine_id_regex e)"
  by (rule exI [of _ "sn_context_name t"], rule exI [of _ "sn_engine_id t"])
    (auto simp: snmp_check_context_def Let_def split: if_splits)

lemma snmp_check_oid_Inr:
  "snmp_check_oid s = Inr t \<Longrightarrow> \<exists>x. t = s\<lparr>sn_oid := x\<rparr> \<and> trim_space x = x \<and> rmatch oid_regex x"
  by (auto simp: snmp_check_oid_def Let_def split: if_splits intro!: exI [of _ "sn_oid t"])

lemma snmp_check_timeout_Inr:
  "snmp_check_timeout s = Inr t \<Longrightarrow> \<exists>x. t = s\<lparr>sn_timeout := x\<rparr> \<and> 1 \<le> x \<and> x \<le> 15"
  by (auto simp: snmp_check_timeout_def res_bind_Inr_iff default_or_max_Inr intro!: exI [of _ "sn_timeout t"])

lemma snmp_check_v3_Inr:
  assumes "snmp_check_v3 s = Inr t"
  shows "sn_version t = sn_version s \<and> sn_target t = sn_target s \<and>
    trim_space (sn_sec_name t) = sn_sec_name t \<and> rmatch sec_name_regex (sn_sec_name t) \<and>
    sn_sec_level t \<in> {''noAuthNoPriv'', ''authNoPriv'', ''authPriv''} \<and>
    (sn_sec_level t \<noteq> ''noAuthNoPriv'' \<longrightarrow>
       rmatch auth_protocol_regex (sn_auth_protocol t) \<and>
       sn_auth_passphrase t \<noteq> [] \<and> rmatch safe_passphrase_regex (sn_auth_passphrase t)) \<and>
    (sn_sec_level t = ''authPriv'' \<longrightarrow>
       rmatch priv_protocol_regex (sn_priv_protocol t) \<and>
       sn_priv_passphrase t \<noteq> [] \<and> rmatch safe_passphrase_regex (sn_priv_passphrase t)) \<and>
    trim_space (sn_context_name t) = sn_context_name t \<and>
    (sn_context_name t \<noteq> [] \<longrightarrow> rmatch context_name_regex (sn_context_name t)) \<and>
    trim_space (sn_engine_id t) = sn_engine_id t \<and>
    (sn_engine_id t \<noteq> [] \<longrightarrow> rmatch engine_id_regex (sn_engine_id t))"
proof -
  obtain s1 s2 s3 s4 where
    s1: "snmp_check_sec_name s = Inr s1" and s2: "snmp_check_sec_level s1 = Inr s2"
    and s3: "snmp_check_auth s2 = Inr s3" and s4: "snmp_check_priv s3 = Inr s4"
    and t: "snmp_check_context s4 = Inr t"
    using assms by (auto simp: snmp_check_v3_def res_bind_Inr_iff)
  obtain n where 1: "s1 = s\<lparr>sn_sec_name := n\<rparr>" "trim_space n = n" "rmatch sec_name_regex n"
    using snmp_check_sec_name_Inr [OF s1] by blast
  obtain l where 2: "s2 = s1\<lparr>sn_sec_level := l\<rparr>"
    and l: "l \<in> {''noAuthNoPriv'', ''authNoPriv'', ''authPriv''}"
    using snmp_check_sec_level_Inr [OF s2] by blast
  obtain a where 3: "s3 = s2\<lparr>sn_auth_protocol := a\<rparr>"
    and a: "sn_sec_level s2 = ''authNoPriv'' \<or> sn_sec_level s2 = ''authPriv'' \<longrightarrow>
       rmatch auth_protocol_regex a \<and>
       sn_auth_passphrase s2 \<noteq> [] \<and> rmatch safe_passphrase_regex (sn_auth_passphrase s2)"
    using snmp_check_auth_Inr [OF s3] by blast
  obtain x where 4: "s4 = s3\<lparr>sn_priv_protocol := x\<rparr>"
    and x: "sn_sec_level s3 = ''authPriv'' \<longrightarrow> rmatch priv_protocol_regex x \<and>
       sn_priv_passphrase s3 \<noteq> [] \<and> rmatch safe_passphrase_regex (sn_priv_passphrase s3)"
    using snmp_check_priv_Inr [OF s4] by blast
  obtain c e where 5: "t = s4\<lparr>sn_context_name := c, sn_engine_id := e\<rparr>"
      "trim_space c = c" "c \<noteq> [] \<longrightarrow> rmatch context_name_regex c"
      "trim_space e = e" "e \<noteq> [] \<longrightarrow> rmatch engine_id_regex e"
    using snmp_check_context_Inr [OF t] by blast
  from l consider "l = ''noAuthNoPriv''" | "l = ''authNoPriv''" | "l = ''authPriv''" by blast
  then show ?thesis
    using a x by cases (simp_all add: 1 2 3 4 5)
qed

lemma snmp_validate_wf:
  assumes "snmp_validate s = Inr t"
  shows "snmp_wf t"
proof -
  obtain s1 s2 s3 s4 where
    s1: "snmp_check_target s = Inr s1" and s2: "snmp_check_version s1 = Inr s2"
    and s3: "(if sn_version s2 = ''3'' then snmp_check_v3 s2 else snmp_check_community s2) = Inr s3"
    and s4: "snmp_check_oid s3 = Inr s4" and t: "snmp_check_timeout s4 = Inr t"
    using assms by (auto simp: snmp_validate_def res_bind_Inr_iff)
  obtain x where 1: "s1 = s\<lparr>sn_target := x\<rparr>" "trim_space x = x" "x \<noteq> []" "valid_host (host_part x)"
    using snmp_check_target_Inr [OF s1] by blast
  obtain v where 2: "s2 = s1\<lparr>sn_version := v\<rparr>" "v \<in> {''1'', ''2c'', ''3''}"
    using snmp_check_version_Inr [OF s2] by blast
  obtain oid where 4: "s4 = s3\<lparr>sn_oid := oid\<rparr>" "trim_space oid = oid" "rmatch oid_regex oid"
    using snmp_check_oid_Inr [OF s4] by blast
  obtain n where 5: "t = s4\<lparr>sn_timeout := n\<rparr>" "1 \<le> n" "n \<le> 15"
    using snmp_check_timeout_Inr [OF t] by blast
  show ?thesis
  proof (cases "v = ''3''")
    case True
    then have "snmp_check_v3 s2 = Inr s3" using s3 by (simp add: 2(1))
    from snmp_check_v3_Inr [OF this] True 1 4 5 show ?thesis
      by (simp add: snmp_wf_def 2(1))
  next
    case False
    then have "snmp_check_community s2 = Inr s3" using s3 by (simp add: 2(1))
    then obtain c where "s3 = s2\<lparr>sn_community := c\<rparr>" "trim_space c = c" "rmatch community_regex c"
      using snmp_check_community_Inr by blast
    with False 1 2 4 5 show ?thesis by (auto simp: snmp_wf_def)
  qed
qed

lemma snmp_wf_stable:
  assumes w: "snmp_wf s"
  shows "snmp_validate s = Inr s"
proof -
  have t: "snmp_check_target s = Inr s" "snmp_check_oid s = Inr s" "snmp_check_timeout s = Inr s"
    using w by (auto simp: snmp_wf_def snmp_check_target_def snmp_check_oid_def snmp_check_timeout_def
      default_or_max_def Let_def)
  have v: "sn_version s \<in> {''1'', ''2c'', ''3''}" using w by (auto simp: snmp_wf_def split: if_splits)
  then have v': "snmp_check_version s = Inr s"
    by (auto simp: snmp_check_version_def Let_def norm_fixed)
  have "(if sn_version s = ''3'' then snmp_check_v3 s else snmp_check_community s) = Inr s"
  proof (cases "sn_version s = ''3''")
    case True
    with w have n: "trim_space (sn_sec_name s) = sn_sec_name s" "rmatch sec_name_regex (sn_sec_name s)"
      by (simp_all add: snmp_wf_def)
    then have "sn_sec_name s \<noteq> []" by auto
    with n have f1: "snmp_check_sec_name s = Inr s" by (simp add: snmp_check_sec_name_def)
    have "trim_space (sn_context_name s) = sn_context_name s" "trim_space (sn_engine_id s) = sn_engine_id s"
      "sn_context_name s = [] \<or> rmatch context_name_regex (sn_context_name s)"
      "sn_engine_id s = [] \<or> rmatch engine_id_regex (sn_engine_id s)"
      using w True by (simp_all add: snmp_wf_def disj_imp)
    then have f2: "snmp_check_context s = Inr s"
      by (auto simp: snmp_check_context_def)
    have l: "sn_sec_level s \<in> {''noAuthNoPriv'', ''authNoPriv'', ''authPriv''}"
      and a: "sn_sec_level s \<noteq> ''noAuthNoPriv'' \<longrightarrow> rmatch auth_protocol_regex (sn_auth_protocol s) \<and>
        sn_auth_passphrase s \<noteq> [] \<and> rmatch safe_passphrase_regex (sn_auth_passphrase s)"
      and x: "sn_sec_level s = ''authPriv'' \<longrightarrow> rmatch priv_protocol_regex (sn_priv_protocol s) \<and>
        sn_priv_passphrase s \<noteq> [] \<and> rmatch safe_passphrase_regex (sn_priv_passphrase s)"
      using w True by (simp_all add: snmp_wf_def)
    from l consider "sn_sec_level s = ''noAuthNoPriv''" | "sn_sec_level s = ''authNoPriv''"
      | "sn_sec_level s = ''authPriv''" by blast
    then have "snmp_check_auth s = Inr s" "snmp_check_priv s = Inr s"
      using a x by (cases, simp_all add: snmp_check_auth_def snmp_check_priv_def norm_fixed)
    with True f1 f2 sec_level_fixed [OF l] show ?thesis by (simp add: snmp_check_v3_def)
  next
    case False
    then show ?thesis using w by (auto simp: snmp_wf_def snmp_check_community_def Let_def)
  qed
  with t v' show ?thesis by (simp add: snmp_validate_def)
qed

text \<open>Validating SNMP parameters is idempotent: the normalised parameters pass the check
  again and come back unchanged, whichever defaults, aliases and inferred security level the
  first pass filled in.\<close>

theorem snmp_validate_idem:
  assumes "snmp_validate s = Inr t"
  shows "snmp_validate t = Inr t"
  using assms by (intro snmp_wf_stable snmp_validate_wf)

definition snmp_example :: snmp_params where
  "snmp_example = \<lparr>sn_version = ''V3'', sn_target = '' 10.0.0.1:161 '', sn_community = [], sn_oid = [],
     sn_timeout = 0, sn_sec_level = [], sn_sec_name = ''u@x'', sn_auth_protocol = ''sha256'',
     sn_auth_passphrase = ''-secret'', sn_priv_protocol = [], sn_priv_passphrase = ''pp'',
     sn_context_name = [], sn_engine_id = ''0x8000''\<rparr>"

definition snmp_example_norm :: snmp_params where
  "snmp_example_norm = \<lparr>sn_version = ''3'', sn_target = ''10.0.0.1:161'', sn_community = [],
     sn_oid = ''.1.3.6'', sn_timeout = 5, sn_sec_level = ''authPriv'', sn_sec_name = ''u@x'',
     sn_auth_protocol = ''SHA-256'', sn_auth_passphrase = ''-secret'', sn_priv_protocol = ''AES'',
     sn_priv_passphrase = ''pp'', sn_context_name = [], sn_engine_id = ''0x8000''\<rparr>"

lemma snmp_example_validates: "snmp_validate snmp_example = Inr snmp_example_norm"
  by code_simp

theorem snmp_validate_idem_witness: "snmp_validate snmp_example_norm = Inr snmp_example_norm"
  using snmp_validate_idem [OF snmp_example_validates] .

text \<open>The options a validated block asks for, in the order of the command line.\<close>

definition snmp_options :: "snmp_params \<Rightarrow> (string \<times> string) list" where
  "snmp_options s =
     (if sn_version s = ''3'' then
        [(''-v'', ''3''), (''-u'', sn_sec_name s), (''-l'', sn_sec_level s)]
        @ (if sn_sec_level s = ''noAuthNoPriv'' then []
           else [(''-a'', sn_auth_protocol s), (''-A'', sn_auth_passphrase s)])
        @ (if sn_sec_level s = ''authPriv''
           then [(''-x'', sn_priv_protocol s), (''-X'', sn_priv_passphrase s)] else [])
        @ (if sn_context_name s = [] then [] else [(''-n'', sn_context_name s)])
        @ (if sn_engine_id s = [] then [] else [(''-e'', sn_engine_id s)])
      else [(''-v'', sn_version s), (''-c'', sn_community s)])
     @ [(''-t'', itoa (sn_timeout s))]"

definition snmp_opt_names :: "string list" where
  "snmp_opt_names = [''-v'', ''-u'', ''-l'', ''-a'', ''-A'', ''-x'', ''-X'', ''-n'', ''-e'', ''-c'', ''-t'']"

lemma getopt_option:
  "nm \<in> set opts \<Longrightarrow> has_prefix nm ''-'' \<Longrightarrow>
   getopt opts (nm # v # as) = map_option (\<lambda>(os, ps). ((nm, v) # os, ps)) (getopt opts as)"
  by simp

fun flat_options :: "(string \<times> string) list \<Rightarrow> string list" where
  "flat_options [] = []"
| "flat_options ((nm, v) # os) = nm # v # flat_options os"

lemma flat_options_append [simp]: "flat_options (xs @ ys) = flat_options xs @ flat_options ys"
  by (induction xs rule: flat_options.induct) auto

lemma getopt_flat_options:
  "\<forall>(nm, v)\<in>set os. nm \<in> set opts \<and> has_prefix nm ''-'' \<Longrightarrow>
   getopt opts (flat_options os @ as) = map_option (\<lambda>(os', ps). (os @ os', ps)) (getopt opts as)"
  by (induction os rule: flat_options.induct)
    (auto simp del: getopt.simps simp add: getopt_option option.map_comp comp_def split_def option.map_ident)

lemma protocol_not_Nil:
  "rmatch auth_protocol_regex a \<Longrightarrow> a \<noteq> []" "rmatch priv_protocol_regex a \<Longrightarrow> a \<noteq> []"
  by (auto simp: auth_protocol_cases priv_protocol_cases)

lemma build_cli_args_flat:
  assumes w: "snmp_wf s"
  shows "build_cli_args s = flat_options (snmp_options s) @ [sn_target s, sn_oid s]"
proof (cases "sn_version s = ''3''")
  case True
  with w have l: "sn_sec_level s \<in> {''noAuthNoPriv'', ''authNoPriv'', ''authPriv''}"
    and a: "sn_sec_level s \<noteq> ''noAuthNoPriv'' \<longrightarrow> sn_auth_protocol s \<noteq> [] \<and> sn_auth_passphrase s \<noteq> []"
    and x: "sn_sec_level s = ''authPriv'' \<longrightarrow> sn_priv_protocol s \<noteq> [] \<and> sn_priv_passphrase s \<noteq> []"
    by (auto simp: snmp_wf_def dest: protocol_not_Nil)
  from l consider "sn_sec_level s = ''noAuthNoPriv''" | "sn_sec_level s = ''authNoPriv''"
    | "sn_sec_level s = ''authPriv''" by blast
  then show ?thesis
    using True a x by cases (simp_all add: build_cli_args_def snmp_options_def)
next
  case False
  with w have "sn_version s \<noteq> []" "sn_community s \<noteq> []" by (auto simp: snmp_wf_def)
  with False show ?thesis by (simp add: build_cli_args_def snmp_options_def)
qed

lemma oid_plain: "rmatch oid_regex oid \<Longrightarrow> plain_arg oid"
proof -
  assume m: "rmatch oid_regex oid"
  have "oid \<noteq> [] \<and> (is_digit (hd oid) \<or> hd oid = CHR ''.'')"
  proof -
    have d: "starts_in is_digit digits_re"
      by (simp add: digits_re_def rplus_def in_class.simps is_digit_def)
    have "oid \<in> {u @ v @ w | u v w. u \<in> {[], ''.''} \<and> v \<in> star_lang {x @ ''.'' | x. x \<in> rlang digits_re}
        \<and> w \<in> rlang digits_re}"
      using m by (auto simp: rmatch_iff oid_regex_def ropt_def rchar_def)
    then obtain u v w where oid: "oid = u @ v @ w" "u \<in> {[], ''.''}"
      "v \<in> star_lang {x @ ''.'' | x. x \<in> rlang digits_re}" "w \<in> rlang digits_re" by blast
    have w: "w \<noteq> [] \<and> is_digit (hd w)" using starts_in_lang [OF d oid(4)] .
    have "v = [] \<or> (v \<noteq> [] \<and> is_digit (hd v))"
      using oid(3)
    proof (cases rule: star_lang.cases)
      case (star_step a b)
      then show ?thesis using starts_in_lang [OF d] by fastforce
    qed simp
    with w oid(1,2) show ?thesis by auto
  qed
  then show ?thesis
    by (auto simp: plain_arg_def is_digit_def in_range_def)
qed

lemma snmp_wf_cli:
  assumes w: "snmp_wf t"
  shows "getopt snmp_opt_names (build_cli_args t) = Some (snmp_options t, [sn_target t, sn_oid t])"
proof -
  have "plain_arg (sn_target t)" "plain_arg (sn_oid t)"
    using w by (auto simp: snmp_wf_def intro: host_part_plain oid_plain)
  moreover have "\<forall>(nm, v)\<in>set (snmp_options t). nm \<in> set snmp_opt_names \<and> has_prefix nm ''-''"
    by (auto simp: snmp_options_def snmp_opt_names_def)
  ultimately show ?thesis
    unfolding build_cli_args_flat [OF w] by (simp add: getopt_flat_options)
qed

text \<open>C17: No SNMP parameter can inject an option. Read by an option parser, the command line
  built from validated parameters consists of exactly the options the parameters ask for,
  each with its parameter as the value, and of two positional arguments, the target and the
  object identifier; in particular a community, passphrase or target given by the caller is
  never read as an option.\<close>

theorem snmp_cli_no_injection:
  assumes "snmp_validate s = Inr t"
  shows "getopt snmp_opt_names (build_cli_args t) = Some (snmp_options t, [sn_target t, sn_oid t])"
  by (rule snmp_wf_cli [OF snmp_validate_wf [OF assms]])

theorem snmp_cli_no_injection_witness:
  "getopt snmp_opt_names (build_cli_args snmp_example_norm) =
     Some (snmp_options snmp_example_norm, [''10.0.0.1:161'', ''.1.3.6''])"
  using snmp_cli_no_injection [OF snmp_example_validates] by (simp add: snmp_example_norm_def)

text \<open>The port of an SNMP target is not checked: whatever follows the last colon of a
  target is accepted, as long as it holds no colon and no bracket, although the target is
  meant to be a host, \<^emph>\<open>possibly with a port\<close>.\<close>

theorem snmp_target_port_unchecked:
  assumes "valid_host h" "CHR '':'' \<notin> set h" "set port \<inter> {CHR '':'', CHR ''['', CHR '']''} = {}"
    and "trim_space (h @ CHR '':'' # port) = h @ CHR '':'' # port"
  shows "snmp_check_target (s\<lparr>sn_target := h @ CHR '':'' # port\<rparr>) =
    Inr (s\<lparr>sn_target := h @ CHR '':'' # port\<rparr>)"
proof -
  have nb: "CHR ''['' \<notin> set h" "CHR '']'' \<notin> set h"
  proof -
    have "\<not> safe_host_char CHR ''[''" "\<not> safe_host_char CHR '']''" by code_simp+
    then show "CHR ''['' \<notin> set h" "CHR '']'' \<notin> set h" using valid_host_chars [OF assms(1)] by blast+
  qed
  moreover have "hd (h @ CHR '':'' # port) \<noteq> CHR ''[''"
    using nb valid_host_plain [OF assms(1)] by (cases h) (auto simp: plain_arg_def)
  ultimately have "split_host_port (h @ CHR '':'' # port) = Some (h, port)"
    using assms(2,3) by (simp add: split_host_port_def last_index_byte_append Let_def)
  then show ?thesis
    using assms(1,4) by (simp add: snmp_check_target_def Let_def host_part_def)
qed

theorem snmp_target_port_unchecked_witness:
  "snmp_check_target (snmp_example\<lparr>sn_target := ''10.0.0.1:161 -Ci;id''\<rparr>) =
     Inr (snmp_example\<lparr>sn_target := ''10.0.0.1:161 -Ci;id''\<rparr>)"
proof -
  have "valid_host ''10.0.0.1''" "trim_space ''10.0.0.1:161 -Ci;id'' = ''10.0.0.1:161 -Ci;id''"
    by code_simp+
  then show ?thesis
    using snmp_target_port_unchecked [of "''10.0.0.1''" "''161 -Ci;id''" snmp_example] by simp
qed

end
