(* ===== verification/RpcTypes.thy ===== *)
theory RpcTypes
  imports Interfaces
begin

text \<open>
  The wire types of \<open>common/rpc.go\<close>: JSON-RPC requests, responses and errors, the scheduled
  tasks of a satellite, the schedules of the hub, metric submissions and the messages hubs
  exchange, each a record with its decoder and encoder following the struct's JSON tags.
\<close>

section \<open>JSON-RPC\<close>

record rpc_request =
  rq_jsonrpc :: string
  rq_method :: string
  rq_params :: "json option"
  rq_id :: "json option"

record rpc_error =
  er_code :: int
  er_message :: string
  er_data :: "json option"

record rpc_response =
  rs_jsonrpc :: string
  rs_result :: "json option"
  rs_error :: "rpc_error option"
  rs_id :: "json option"

definition err_parse_error :: int where "err_parse_error = - 32700"
definition err_invalid_request :: int where "err_invalid_request = - 32600"
definition err_method_not_found :: int where "err_method_not_found = - 32601"
definition err_invalid_params :: int where "err_invalid_params = - 32602"
definition err_internal_error :: int where "err_internal_error = - 32603"

text \<open>\<open>NewRPCResponse\<close> gets the marshalled result, or the error of marshalling it.\<close>

definition new_rpc_response :: "json option \<Rightarrow> json res \<Rightarrow> rpc_response res" where
  "new_rpc_response rid result = res_bind result
     (\<lambda>raw. Inr \<lparr>rs_jsonrpc = ''2.0'', rs_result = Some raw, rs_error = None, rs_id = rid\<rparr>)"

definition new_rpc_error_response :: "json option \<Rightarrow> int \<Rightarrow> string \<Rightarrow> json option \<Rightarrow> rpc_response" where
  "new_rpc_error_response rid code message data =
     \<lparr>rs_jsonrpc = ''2.0'', rs_result = None,
      rs_error = Some \<lparr>er_code = code, er_message = message, er_data = data\<rparr>, rs_id = rid\<rparr>"

definition zero_request :: rpc_request where
  "zero_request = \<lparr>rq_jsonrpc = [], rq_method = [], rq_params = None, rq_id = None\<rparr>"

definition zero_error :: rpc_error where
  "zero_error = \<lparr>er_code = 0, er_message = [], er_data = None\<rparr>"

definition zero_response :: rpc_response where
  "zero_response = \<lparr>rs_jsonrpc = [], rs_result = None, rs_error = None, rs_id = None\<rparr>"

definition dec_request :: "rpc_request decoder" where
  "dec_request = dec_struct (\<lambda>r kvs.
     case (field ''jsonrpc'' dec_string (rq_jsonrpc r) kvs, field ''method'' dec_string (rq_method r) kvs,
           field ''params'' dec_raw (rq_params r) kvs, field ''id'' dec_any (rq_id r) kvs) of
       (Some v, Some m, Some p, Some i) \<Rightarrow>
         Some \<lparr>rq_jsonrpc = v, rq_method = m, rq_params = p, rq_id = i\<rparr>
     | _ \<Rightarrow> None)"

definition dec_error :: "rpc_error decoder" where
  "dec_error = dec_struct (\<lambda>e kvs.
     case (field ''code'' dec_int (er_code e) kvs, field ''message'' dec_string (er_message e) kvs,
           field ''data'' dec_any (er_data e) kvs) of
       (Some c, Some m, Some d) \<Rightarrow> Some \<lparr>er_code = c, er_message = m, er_data = d\<rparr>
     | _ \<Rightarrow> None)"

definition dec_response :: "rpc_response decoder" where
  "dec_response = dec_struct (\<lambda>r kvs.
     case (field ''jsonrpc'' dec_string (rs_jsonrpc r) kvs, field ''result'' dec_raw (rs_result r) kvs,
           field ''error'' (dec_ptr dec_error zero_error) (rs_error r) kvs,
           field ''id'' dec_any (rs_id r) kvs) of
       (Some v, Some x, Some e, Some i) \<Rightarrow>
         Some \<lparr>rs_jsonrpc = v, rs_result = x, rs_error = e, rs_id = i\<rparr>
     | _ \<Rightarrow> None)"

definition enc_request :: "rpc_request \<Rightarrow> json" where
  "enc_request r = JObj ([(''jsonrpc'', JStr (rq_jsonrpc r)), (''method'', JStr (rq_method r))]
     @ omit_none ''params'' (rq_params r) @ [(''id'', enc_raw (rq_id r))])"

definition enc_error :: "rpc_error \<Rightarrow> json" where
  "enc_error e = JObj ([(''code'', jint (er_code e)), (''message'', JStr (er_message e))]
     @ omit_none ''data'' (er_data e))"

definition enc_response :: "rpc_response \<Rightarrow> json" where
  "enc_response r = JObj ([(''jsonrpc'', JStr (rs_jsonrpc r))] @ omit_none ''result'' (rs_result r)
     @ omit_none ''error'' (map_option enc_error (rs_error r)) @ [(''id'', enc_raw (rs_id r))])"

section \<open>Schedules and metrics\<close>

record scheduled_task =
  st_id :: string
  st_interval :: int
  st_method :: string
  st_params :: "json option"

record metric_submission =
  ms_task_id :: string
  ms_agent_id :: string
  ms_method :: string
  ms_timestamp :: int
  ms_result :: "json option"
  ms_error :: string

record job_schedule =
  js_id :: string
  js_agent_id :: string
  js_method :: string
  js_params :: "json option"
  js_type :: string
  js_interval :: int
  js_run_at :: int

definition zero_task :: scheduled_task where
  "zero_task = \<lparr>st_id = [], st_interval = 0, st_method = [], st_params = None\<rparr>"

definition zero_metric :: metric_submission where
  "zero_metric = \<lparr>ms_task_id = [], ms_agent_id = [], ms_method = [], ms_timestamp = 0,
     ms_result = None, ms_error = []\<rparr>"

definition zero_schedule :: job_schedule where
  "zero_schedule = \<lparr>js_id = [], js_agent_id = [], js_method = [], js_params = None, js_type = [],
     js_interval = 0, js_run_at = 0\<rparr>"

definition dec_task :: "scheduled_task decoder" where
  "dec_task = dec_struct (\<lambda>t kvs.
     case (field ''id'' dec_string (st_id t) kvs, field ''interval_seconds'' dec_int (st_interval t) kvs,
           field ''method'' dec_string (st_method t) kvs, field ''params'' dec_raw (st_params t) kvs) of
       (Some i, Some n, Some m, Some p) \<Rightarrow>
         Some \<lparr>st_id = i, st_interval = n, st_method = m, st_params = p\<rparr>
     | _ \<Rightarrow> None)"

definition enc_task :: "scheduled_task \<Rightarrow> json" where
  "enc_task t = JObj [(''id'', JStr (st_id t)), (''interval_seconds'', jint (st_interval t)),
     (''method'', JStr (st_method t)), (''params'', enc_raw (st_params t))]"

definition dec_tasks :: "scheduled_task list decoder" where
  "dec_tasks = dec_list dec_task zero_task"

definition enc_tasks :: "scheduled_task list \<Rightarrow> json" where
  "enc_tasks ts = JArr (map enc_task ts)"

definition dec_metric :: "metric_submission decoder" where
  "dec_metric = dec_struct (\<lambda>m kvs.
     case (field ''task_id'' dec_string (ms_task_id m) kvs, field ''agent_id'' dec_string (ms_agent_id m) kvs,
           field ''method'' dec_string (ms_method m) kvs, field ''timestamp'' dec_int (ms_timestamp m) kvs,
           field ''result'' dec_raw (ms_result m) kvs, field ''error'' dec_string (ms_error m) kvs) of
       (Some t, Some a, Some n, Some ts, Some r, Some e) \<Rightarrow>
         Some \<lparr>ms_task_id = t, ms_agent_id = a, ms_method = n, ms_timestamp = ts, ms_result = r, ms_error = e\<rparr>
     | _ \<Rightarrow> None)"

definition enc_metric :: "metric_submission \<Rightarrow> json" where
  "enc_metric m = JObj ([(''task_id'', JStr (ms_task_id m)), (''agent_id'', JStr (ms_agent_id m)),
     (''method'', JStr (ms_method m)), (''timestamp'', jint (ms_timestamp m))]
     @ omit_none ''result'' (ms_result m) @ omit_empty ''error'' (ms_error m))"

definition dec_metrics :: "metric_submission list decoder" where
  "dec_metrics = dec_list dec_metric zero_metric"

definition enc_metrics :: "metric_submission list \<Rightarrow> json" where
  "enc_metrics ms = JArr (map enc_metric ms)"

definition dec_schedule :: "job_schedule decoder" where
  "dec_schedule = dec_struct (\<lambda>s kvs.
     case (field ''id'' dec_string (js_id s) kvs, field ''agent_id'' dec_string (js_agent_id s) kvs,
           field ''method'' dec_string (js_method s) kvs, field ''params'' dec_raw (js_params s) kvs,
           field ''schedule_type'' dec_string (js_type s) kvs,
           field ''interval_seconds'' dec_int (js_interval s) kvs,
           field ''run_at'' dec_int (js_run_at s) kvs) of
       (Some i, Some a, Some m, Some p, Some t, Some n, Some r) \<Rightarrow>
         Some \<lparr>js_id = i, js_agent_id = a, js_method = m, js_params = p, js_type = t,
               js_interval = n, js_run_at = r\<rparr>
     | _ \<Rightarrow> None)"

definition enc_schedule :: "job_schedule \<Rightarrow> json" where
  "enc_schedule s = JObj ([(''id'', JStr (js_id s)), (''agent_id'', JStr (js_agent_id s)),
     (''method'', JStr (js_method s)), (''params'', enc_raw (js_params s)),
     (''schedule_type'', JStr (js_type s))]
     @ omit_zero ''interval_seconds'' (js_interval s) @ omit_zero ''run_at'' (js_run_at s))"

section \<open>Messages between hubs\<close>

record peer_registration =
  pr_url :: string
  pr_token :: string

record key_sync_request =
  ks_agent_id :: string
  ks_public_key :: string
  ks_token :: string

definition dec_peer_registration :: "peer_registration decoder" where
  "dec_peer_registration = dec_struct (\<lambda>r kvs.
     case (field ''url'' dec_string (pr_url r) kvs, field ''token'' dec_string (pr_token r) kvs) of
       (Some u, Some t) \<Rightarrow> Some \<lparr>pr_url = u, pr_token = t\<rparr>
     | _ \<Rightarrow> None)"

definition enc_peer_registration :: "peer_registration \<Rightarrow> json" where
  "enc_peer_registration r = JObj [(''url'', JStr (pr_url r)), (''token'', JStr (pr_token r))]"

definition dec_key_sync :: "key_sync_request decoder" where
  "dec_key_sync = dec_struct (\<lambda>r kvs.
     case (field ''agent_id'' dec_string (ks_agent_id r) kvs,
           field ''public_key'' dec_string (ks_public_key r) kvs,
           field ''token'' dec_string (ks_token r) kvs) of
       (Some a, Some k, Some t) \<Rightarrow> Some \<lparr>ks_agent_id = a, ks_public_key = k, ks_token = t\<rparr>
     | _ \<Rightarrow> None)"

definition enc_key_sync :: "key_sync_request \<Rightarrow> json" where
  "enc_key_sync r = JObj [(''agent_id'', JStr (ks_agent_id r)), (''public_key'', JStr (ks_public_key r)),
     (''token'', JStr (ks_token r))]"

section \<open>Round trips\<close>

lemma field_names [codec_simps]:
  "fold_case ''jsonrpc'' = ''jsonrpc''" "fold_case ''method'' = ''method''"
  "fold_case ''params'' = ''params''" "fold_case ''id'' = ''id''" "fold_case ''result'' = ''result''"
  "fold_case ''error'' = ''error''" "fold_case ''code'' = ''code''" "fold_case ''message'' = ''message''"
  "fold_case ''data'' = ''data''" "fold_case ''interval_seconds'' = ''interval_seconds''"
  "fold_case ''task_id'' = ''task_id''" "fold_case ''agent_id'' = ''agent_id''"
  "fold_case ''timestamp'' = ''timestamp''" "fold_case ''schedule_type'' = ''schedule_type''"
  "fold_case ''run_at'' = ''run_at''" "fold_case ''url'' = ''url''" "fold_case ''token'' = ''token''"
  "fold_case ''public_key'' = ''public_key''" "fold_case ''schedule'' = ''schedule''"
  by code_simp+

lemmas codec_defs = dec_struct_def equal_fold_def omit_none_def omit_empty_def omit_zero_def
  enc_raw_def dec_ptr_def unmarshal_def dec_list_def

text \<open>A JSON-RPC request survives the wire: decoding an encoded request gives it back, for
  every method, every identifier other than \<open>null\<close> and whether or not it has parameters.\<close>

theorem request_roundtrip:
  assumes "rq_id r \<noteq> Some JNull"
  shows "unmarshal dec_request zero_request (Some (enc_request r)) = Some r"
  using assms
  by (cases "rq_params r"; cases "rq_id r")
    (simp_all add: dec_request_def enc_request_def zero_request_def codec_defs codec_simps)

theorem request_roundtrip_witness:
  "unmarshal dec_request zero_request (Some (enc_request
     \<lparr>rq_jsonrpc = ''2.0'', rq_method = ''ping'', rq_params = None, rq_id = Some (JStr ''a-1'')\<rparr>)) =
   Some \<lparr>rq_jsonrpc = ''2.0'', rq_method = ''ping'', rq_params = None, rq_id = Some (JStr ''a-1'')\<rparr>"
  by (rule request_roundtrip) simp

lemma error_roundtrip:
  assumes "int64_range (er_code e)" "er_data e \<noteq> Some JNull"
  shows "dec_error zero_error (enc_error e) = Some e"
  using assms
  by (cases "er_data e")
    (simp_all add: dec_error_def enc_error_def zero_error_def codec_defs codec_simps)

text \<open>A JSON-RPC response survives the wire, a success with any result and an error with any
  64-bit code and non-null data alike, so what a satellite answers is what the hub reads.\<close>

theorem response_roundtrip:
  assumes "rs_id r \<noteq> Some JNull"
    and "\<And>e. rs_error r = Some e \<Longrightarrow> int64_range (er_code e) \<and> er_data e \<noteq> Some JNull"
  shows "unmarshal dec_response zero_response (Some (enc_response r)) = Some r"
proof -
  have e: "dec_error zero_error (enc_error e) = Some e" if "rs_error r = Some e" for e
    using assms(2) [OF that] by (intro error_roundtrip) auto
  have n: "\<And>e. enc_error e \<noteq> JNull" by (simp add: enc_error_def)
  show ?thesis
  proof (cases "rs_error r")
    case None
    with assms(1) show ?thesis
      by (cases "rs_result r"; cases "rs_id r")
        (simp_all add: dec_response_def enc_response_def zero_response_def codec_defs codec_simps)
  next
    case (Some x)
    have p: "dec_ptr dec_error zero_error None (enc_error x) = Some (Some x)"
      using e [OF Some] n [of x] by (cases "enc_error x") (simp_all add: dec_ptr_def)
    from Some assms(1) show ?thesis
      by (cases "rs_result r"; cases "rs_id r")
        (simp_all add: dec_response_def enc_response_def zero_response_def p
          dec_struct_def equal_fold_def omit_none_def enc_raw_def unmarshal_def codec_simps)
  qed
qed

theorem response_roundtrip_witness:
  "unmarshal dec_response zero_response (Some (enc_response
     (new_rpc_error_response (Some (JStr ''a-1'')) err_method_not_found ''no'' None))) =
   Some (new_rpc_error_response (Some (JStr ''a-1'')) err_method_not_found ''no'' None)"
  by (rule response_roundtrip)
    (auto simp: new_rpc_error_response_def err_method_not_found_def int64_range_def)

definition sent_params :: "json option \<Rightarrow> json option" where
  "sent_params p = Some (enc_raw p)"

lemma task_roundtrip:
  assumes "int64_range (st_interval t)"
  shows "dec_task zero_task (enc_task t) = Some (t\<lparr>st_params := sent_params (st_params t)\<rparr>)"
  using assms
  by (cases t) (simp add: dec_task_def enc_task_def zero_task_def sent_params_def codec_defs codec_simps)

lemma metric_roundtrip:
  assumes "int64_range (ms_timestamp m)"
  shows "dec_metric zero_metric (enc_metric m) = Some m"
  using assms
  by (cases "ms_result m"; cases "ms_error m")
    (simp_all add: dec_metric_def enc_metric_def zero_metric_def codec_defs codec_simps)

text \<open>The wire types as codecs: absent parameters are read back as \<open>null\<close>, metrics exactly.\<close>

interpretation task_codec: codec enc_task dec_task zero_task "\<lambda>t. int64_range (st_interval t)"
  "\<lambda>t. t\<lparr>st_params := sent_params (st_params t)\<rparr>"
  by unfold_locales (simp_all add: task_roundtrip)

interpretation metric_codec: exact_codec enc_metric dec_metric zero_metric
  "\<lambda>m. int64_range (ms_timestamp m)" "\<lambda>m. m"
  by unfold_locales (simp_all add: metric_roundtrip)

lemma schedule_decodes:
  assumes "int64_range (js_interval s)" "int64_range (js_run_at s)"
  shows "dec_schedule zero_schedule (enc_schedule s) = Some (s\<lparr>js_params := sent_params (js_params s)\<rparr>)"
  using assms
  by (cases s) (simp add: dec_schedule_def enc_schedule_def zero_schedule_def sent_params_def
    codec_defs codec_simps)

interpretation schedule_codec: codec enc_schedule dec_schedule zero_schedule
  "\<lambda>s. int64_range (js_interval s) \<and> int64_range (js_run_at s)"
  "\<lambda>s. s\<lparr>js_params := sent_params (js_params s)\<rparr>"
  by unfold_locales (simp_all add: schedule_decodes)

text \<open>C40: Schedules survive both wires they travel on: the task list a hub pushes to a satellite
  and the schedule it posts to a peer decode to what was sent, except that absent parameters
  arrive as an explicit \<open>null\<close>.\<close>

theorem schedule_roundtrip:
  assumes "\<forall>t\<in>set ts. int64_range (st_interval t)"
    and "int64_range (js_interval s)" "int64_range (js_run_at s)"
  shows "unmarshal dec_tasks [] (Some (enc_tasks ts)) =
      Some (map (\<lambda>t. t\<lparr>st_params := sent_params (st_params t)\<rparr>) ts) \<and>
    unmarshal dec_schedule zero_schedule (Some (enc_schedule s)) =
      Some (s\<lparr>js_params := sent_params (js_params s)\<rparr>)"
proof
  show "unmarshal dec_tasks [] (Some (enc_tasks ts)) =
      Some (map (\<lambda>t. t\<lparr>st_params := sent_params (st_params t)\<rparr>) ts)"
    using task_codec.unmarshal_list [of ts] assms(1) by (simp add: dec_tasks_def enc_tasks_def list_all_iff)
  show "unmarshal dec_schedule zero_schedule (Some (enc_schedule s)) =
      Some (s\<lparr>js_params := sent_params (js_params s)\<rparr>)"
    by (rule schedule_codec.unmarshal_enc) (simp add: assms(2,3))
qed

theorem schedule_roundtrip_witness:
  "unmarshal dec_tasks [] (Some (enc_tasks [zero_task])) = Some [zero_task\<lparr>st_params := Some JNull\<rparr>] \<and>
   unmarshal dec_schedule zero_schedule (Some (enc_schedule (zero_schedule\<lparr>js_run_at := 7\<rparr>))) =
     Some (zero_schedule\<lparr>js_run_at := 7, js_params := Some JNull\<rparr>)"
  using schedule_roundtrip [of "[zero_task]" "zero_schedule\<lparr>js_run_at := 7\<rparr>"]
  by (simp add: zero_task_def zero_schedule_def int64_range_def sent_params_def enc_raw_def)

end
