(* ===== verification/KeyFiles.thy ===== *)
theory KeyFiles
  imports GoBase64 GoPath
begin

text \<open>
  The key material of \<open>common/crypto.go\<close>: generating, saving and loading Ed25519 keys, and the
  signed challenge a satellite authenticates with.

  Ed25519 itself and the ASN.1 and PEM encodings are arguments of the model, collected in the
  record \<open>crypto\<close>. What the program relies on is stated by \<open>pem_law\<close>, \<open>pkix_law\<close>, \<open>pkcs8_law\<close>
  and \<open>signature_law\<close>. The file system is an association list from paths to contents, in the
  order a directory listing shows them, with a list of the paths that may not be opened.
\<close>

section \<open>File system\<close>

record fsys =
  fs_files :: "(string \<times> string) list"
  fs_denied :: "string list"

datatype file_error = FileNotExist string | FileError string

fun file_error_text :: "file_error \<Rightarrow> string" where
  "file_error_text (FileNotExist e) = e"
| "file_error_text (FileError e) = e"

definition fs_exists :: "fsys \<Rightarrow> string \<Rightarrow> bool" where
  "fs_exists fs p \<longleftrightarrow> map_of (fs_files fs) p \<noteq> None"

definition open_denied :: "string \<Rightarrow> string" where
  "open_denied p = ''open '' @ p @ '': permission denied''"

definition read_file :: "fsys \<Rightarrow> string \<Rightarrow> file_error + string" where
  "read_file fs p =
     (case map_of (fs_files fs) p of
        None \<Rightarrow> Inl (FileNotExist (''open '' @ p @ '': no such file or directory''))
      | Some d \<Rightarrow> if p \<in> set (fs_denied fs) then Inl (FileError (open_denied p)) else Inr d)"

text \<open>Opening with create and truncate, then writing everything.\<close>

definition write_file :: "fsys \<Rightarrow> string \<Rightarrow> string \<Rightarrow> fsys res" where
  "write_file fs p d =
     (if p \<in> set (fs_denied fs) then Inl (open_denied p)
      else Inr (fs\<lparr>fs_files := assoc_put p d (fs_files fs)\<rparr>))"

definition base_name :: "string \<Rightarrow> string" where
  "base_name p = last (split_on CHR ''/'' p)"

definition read_dir :: "fsys \<Rightarrow> string \<Rightarrow> string list" where
  "read_dir fs dir = map base_name (filter (\<lambda>p. join_path dir (base_name p) = p) (map fst (fs_files fs)))"

lemma read_write_file [simp]:
  "write_file fs p d = Inr fs' \<Longrightarrow> read_file fs' p = Inr d"
  by (auto simp: write_file_def read_file_def split: if_splits)

lemma read_write_other:
  "write_file fs p d = Inr fs' \<Longrightarrow> q \<noteq> p \<Longrightarrow> read_file fs' q = read_file fs q"
  by (auto simp: write_file_def read_file_def split: if_splits option.split)

lemma write_file_exists:
  "write_file fs p d = Inr fs' \<Longrightarrow> fs_exists fs' q \<longleftrightarrow> q = p \<or> fs_exists fs q"
  by (auto simp: write_file_def fs_exists_def split: if_splits)

section \<open>Primitives\<close>

datatype parsed_key = EdPublic string | EdPrivate string | OtherKey

record crypto =
  ed_sign :: "string \<Rightarrow> string \<Rightarrow> string"
  ed_verify :: "string \<Rightarrow> string \<Rightarrow> string \<Rightarrow> bool"
  pem_encode :: "string \<Rightarrow> string \<Rightarrow> string"
  pem_decode :: "string \<Rightarrow> (string \<times> string) option"
  pkix_marshal :: "string \<Rightarrow> string res"
  pkix_parse :: "string \<Rightarrow> parsed_key res"
  pkcs8_marshal :: "string \<Rightarrow> string res"
  pkcs8_parse :: "string \<Rightarrow> parsed_key res"

definition pub_type :: string where "pub_type = ''PUBLIC KEY''"
definition priv_type :: string where "priv_type = ''PRIVATE KEY''"
definition key_size :: nat where "key_size = 32"

text \<open>A PEM block reads back, with and without the surrounding white space.\<close>

definition pem_law :: "crypto \<Rightarrow> bool" where
  "pem_law cr \<longleftrightarrow> (\<forall>t\<in>{pub_type, priv_type}. \<forall>b. pem_decode cr (pem_encode cr t b) = Some (t, b) \<and>
     pem_decode cr (trim_space (pem_encode cr t b)) = Some (t, b) \<and> trim_space (pem_encode cr t b) \<noteq> [])"

text \<open>PKIX: an Ed25519 public key of 32 bytes marshals and parses back, and no other size parses.\<close>

definition pkix_law :: "crypto \<Rightarrow> bool" where
  "pkix_law cr \<longleftrightarrow>
     (\<forall>k. length k = key_size \<longrightarrow> (\<exists>der. pkix_marshal cr k = Inr der \<and> pkix_parse cr der = Inr (EdPublic k))) \<and>
     (\<forall>der k. pkix_parse cr der = Inr (EdPublic k) \<longrightarrow> length k = key_size)"

definition pkcs8_law :: "crypto \<Rightarrow> string \<Rightarrow> bool" where
  "pkcs8_law cr k \<longleftrightarrow> (\<exists>der. pkcs8_marshal cr k = Inr der \<and> pkcs8_parse cr der = Inr (EdPrivate k))"

text \<open>What is signed with the private key of a pair verifies with its public key.\<close>

definition signature_law :: "crypto \<Rightarrow> string \<Rightarrow> string \<Rightarrow> bool" where
  "signature_law cr priv pub \<longleftrightarrow> (\<forall>m. ed_verify cr pub m (ed_sign cr priv m))"

section \<open>Saving and loading\<close>

definition save_public_key_pem :: "crypto \<Rightarrow> fsys \<Rightarrow> string \<Rightarrow> string \<Rightarrow> fsys res" where
  "save_public_key_pem cr fs path pub =
     (case pkix_marshal cr pub of
        Inl e \<Rightarrow> Inl (''failed to marshal public key: '' @ e)
      | Inr der \<Rightarrow> res_map_err (\<lambda>e. ''failed to open public key file: '' @ e)
                   (write_file fs path (pem_encode cr pub_type der)))"

text \<open>\<open>gen\<close> is what key generation returns. The file system is returned even on an error, as the
  private key file stays when the public key cannot be written.\<close>

definition generate_and_save_keys ::
  "crypto \<Rightarrow> (string \<times> string) res \<Rightarrow> fsys \<Rightarrow> string \<Rightarrow> string \<Rightarrow> fsys \<times> (string \<times> string) res" where
  "generate_and_save_keys cr gen fs priv_path pub_path =
     (case gen of
        Inl e \<Rightarrow> (fs, Inl (''failed to generate key pair: '' @ e))
      | Inr (priv, pub) \<Rightarrow>
     (case pkcs8_marshal cr priv of
        Inl e \<Rightarrow> (fs, Inl (''failed to marshal private key: '' @ e))
      | Inr der \<Rightarrow>
     (case write_file fs priv_path (pem_encode cr priv_type der) of
        Inl e \<Rightarrow> (fs, Inl (''failed to open private key file: '' @ e))
      | Inr fs1 \<Rightarrow>
     (case save_public_key_pem cr fs1 pub_path pub of
        Inl e \<Rightarrow> (fs1, Inl e)
      | Inr fs2 \<Rightarrow> (fs2, Inr (priv, pub))))))"

definition load_private_key_pem :: "crypto \<Rightarrow> fsys \<Rightarrow> string \<Rightarrow> file_error + string" where
  "load_private_key_pem cr fs path =
     (case read_file fs path of
        Inl e \<Rightarrow> Inl e
      | Inr d \<Rightarrow>
     (case pem_decode cr d of
        None \<Rightarrow> Inl (FileError ''invalid PEM block type or empty file'')
      | Some (t, b) \<Rightarrow>
          if t \<noteq> priv_type then Inl (FileError ''invalid PEM block type or empty file'')
          else (case pkcs8_parse cr b of
             Inl e \<Rightarrow> Inl (FileError (''failed to parse private key: '' @ e))
           | Inr (EdPrivate k) \<Rightarrow> Inr k
           | Inr _ \<Rightarrow> Inl (FileError ''loaded key is not an Ed25519 private key''))))"

text \<open>The first encoding that yields a key of the right size.\<close>

definition right_size :: "string option \<Rightarrow> string option" where
  "right_size r = (case r of None \<Rightarrow> None | Some k \<Rightarrow> if length k = key_size then Some k else None)"

fun first_key :: "b64_encoding list \<Rightarrow> string \<Rightarrow> string option" where
  "first_key [] s = None"
| "first_key (e # es) s =
     (case right_size (b64_decode e s) of Some k \<Rightarrow> Some k | None \<Rightarrow> first_key es s)"

definition key_encodings :: "b64_encoding list" where
  "key_encodings = [std_encoding, url_encoding, raw_std_encoding, raw_url_encoding]"

definition bad_key_text :: string where
  "bad_key_text = ''could not decode public key (unrecognized format, expected PEM, 64-char Hex, or 44-char Base64)''"

definition key_of_text :: "string \<Rightarrow> file_error + string" where
  "key_of_text s =
     (case right_size (if length s = 64 then hex_decode s else None) of
        Some k \<Rightarrow> Inr k
      | None \<Rightarrow>
     (case first_key key_encodings (trim_suffix (trim_suffix s [char_of (10::nat)]) [char_of (13::nat)]) of
        Some k \<Rightarrow> Inr k
      | None \<Rightarrow> Inl (FileError bad_key_text)))"

definition load_public_key :: "crypto \<Rightarrow> fsys \<Rightarrow> string \<Rightarrow> file_error + string" where
  "load_public_key cr fs path =
     (case read_file fs path of
        Inl e \<Rightarrow> Inl e
      | Inr d \<Rightarrow>
     (let t = trim_space d in
      if t = [] then Inl (FileError ''public key file is empty'')
      else (case pem_decode cr t of
         Some (ty, b) \<Rightarrow>
           if ty = pub_type then
             (case pkix_parse cr b of
                Inl e \<Rightarrow> Inl (FileError (''failed to parse public key from PKIX PEM: '' @ e))
              | Inr (EdPublic k) \<Rightarrow> Inr k
              | Inr _ \<Rightarrow> Inl (FileError ''loaded PEM key is not an Ed25519 public key''))
           else key_of_text t
       | None \<Rightarrow> key_of_text t)))"

section \<open>The challenge\<close>

definition challenge :: "string \<Rightarrow> string \<Rightarrow> string" where
  "challenge agent_id timestamp = agent_id @ CHR '':'' # timestamp"

definition sign_challenge :: "crypto \<Rightarrow> string \<Rightarrow> string \<Rightarrow> string \<Rightarrow> string" where
  "sign_challenge cr priv agent_id timestamp =
     b64_encode std_encoding (ed_sign cr priv (challenge agent_id timestamp))"

definition verify_challenge :: "crypto \<Rightarrow> string \<Rightarrow> string \<Rightarrow> string \<Rightarrow> string \<Rightarrow> bool" where
  "verify_challenge cr pub agent_id timestamp signature =
     (case b64_decode std_encoding signature of
        None \<Rightarrow> False
      | Some sig \<Rightarrow> ed_verify cr pub (challenge agent_id timestamp) sig)"

section \<open>Facts\<close>

lemma right_size_Some: "right_size r = Some k \<longleftrightarrow> r = Some k \<and> length k = key_size"
  by (auto simp: right_size_def split: option.splits if_splits)

lemma right_size_Some_key [simp]: "length k = key_size \<Longrightarrow> right_size (Some k) = Some k"
  by (simp add: right_size_def)

lemma first_key_size: "first_key es s = Some k \<Longrightarrow> length k = key_size"
  by (induction es) (auto simp: right_size_Some split: option.splits)

text \<open>The encodings agree: a text that two of them accept stands for the same bytes.\<close>

lemma b64_val_agree: "b64_val u c = Some m \<Longrightarrow> b64_val v c = Some n \<Longrightarrow> m = n"
  by (simp add: b64_val_bytes split: if_splits)

lemma b64_val_pad [simp]: "b64_val u CHR ''='' = None"
proof -
  have "byte CHR ''='' = 61" by (simp add: byte_def)
  then show ?thesis by (simp add: b64_val_bytes)
qed

lemma b64_quanta_full:
  assumes "b64_quanta e (a # b # c # d # rest) = Some x" "c \<noteq> CHR ''=''" "d \<noteq> CHR ''=''"
  obtains p q r t y where "b64_val (b64_url e) a = Some p" "b64_val (b64_url e) b = Some q"
    "b64_val (b64_url e) c = Some r" "b64_val (b64_url e) d = Some t"
    "b64_quanta e rest = Some y" "x = b64_bytes3 p q r t @ y"
  using assms by (simp split: option.splits) blast

lemma b64_quanta_agree:
  "b64_quanta e s = Some x \<Longrightarrow> b64_quanta f s = Some y \<Longrightarrow> x = y"
proof (induction e s arbitrary: x y rule: b64_quanta.induct)
  case (5 e a b c d rest)
  obtain p q where e1: "b64_val (b64_url e) a = Some p" "b64_val (b64_url e) b = Some q"
    using "5.prems"(1) by (auto split: option.splits)
  obtain p' q' where f1: "b64_val (b64_url f) a = Some p'" "b64_val (b64_url f) b = Some q'"
    using "5.prems"(2) by (auto split: option.splits)
  have pq: "p' = p" "q' = q" using e1 f1 b64_val_agree by blast+
  show ?case
  proof (cases "c = CHR ''=''")
    case True
    then show ?thesis using "5.prems" e1 f1 pq by (simp split: if_splits)
  next
    case c: False
    obtain r where e2: "b64_val (b64_url e) c = Some r"
      using "5.prems"(1) e1 c by (auto split: option.splits)
    obtain r' where f2: "b64_val (b64_url f) c = Some r'"
      using "5.prems"(2) f1 c by (auto split: option.splits)
    have r: "r' = r" using e2 f2 b64_val_agree by blast
    show ?thesis
    proof (cases "d = CHR ''=''")
      case True
      then show ?thesis using "5.prems" e1 f1 e2 f2 pq r c by (simp split: if_splits)
    next
      case d: False
      from "5.prems"(1) c d obtain t x' where e3: "b64_val (b64_url e) d = Some t"
        "b64_quanta e rest = Some x'" "x = b64_bytes3 p q r t @ x'"
        by (rule b64_quanta_full) (use e1 e2 in simp)
      from "5.prems"(2) c d obtain t' y' where f3: "b64_val (b64_url f) d = Some t'"
        "b64_quanta f rest = Some y'" "y = b64_bytes3 p q r t' @ y'"
        by (rule b64_quanta_full) (use f1 f2 pq r in simp)
      have "t' = t" using e3 f3 b64_val_agree by blast
      moreover have "x' = y'"
        by (rule "5.IH" [OF refl e1(1) e1(2) _ e2 _ e3(1,2) f3(2)]) (simp_all add: c d)
      ultimately show ?thesis using e3 f3 by simp
    qed
  qed
next
  case (3 e a b)
  obtain p q where e: "b64_val (b64_url e) a = Some p" "b64_val (b64_url e) b = Some q" "x = b64_bytes1 p q"
    using "3.prems"(1) by (simp split: if_splits option.splits)
  obtain p' q' where f: "b64_val (b64_url f) a = Some p'" "b64_val (b64_url f) b = Some q'"
      "y = b64_bytes1 p' q'"
    using "3.prems"(2) by (simp split: if_splits option.splits)
  then show ?case
    using e(3) b64_val_agree [OF e(1) f(1)] b64_val_agree [OF e(2) f(2)] by simp
next
  case (4 e a b c)
  obtain p q r where e: "b64_val (b64_url e) a = Some p" "b64_val (b64_url e) b = Some q"
      "b64_val (b64_url e) c = Some r" "x = b64_bytes2 p q r"
    using "4.prems"(1) by (simp split: if_splits option.splits)
  obtain p' q' r' where f: "b64_val (b64_url f) a = Some p'" "b64_val (b64_url f) b = Some q'"
      "b64_val (b64_url f) c = Some r'" "y = b64_bytes2 p' q' r'"
    using "4.prems"(2) by (simp split: if_splits option.splits)
  then show ?case
    using e(4) b64_val_agree [OF e(1) f(1)] b64_val_agree [OF e(2) f(2)] b64_val_agree [OF e(3) f(3)]
    by simp
qed simp_all

lemma b64_decode_agree: "b64_decode e s = Some x \<Longrightarrow> b64_decode f s = Some y \<Longrightarrow> x = y"
  by (auto simp: b64_decode_def dest: b64_quanta_agree)

lemma first_key_found:
  assumes "e \<in> set es" "b64_decode e s = Some k" "length k = key_size"
  shows "first_key es s = Some k"
  using assms(1)
proof (induction es)
  case (Cons f es)
  show ?case
  proof (cases "right_size (b64_decode f s)")
    case None
    then have "e \<noteq> f" using assms by (auto simp: right_size_def split: option.splits)
    then show ?thesis using Cons None by simp
  next
    case (Some k')
    then have "b64_decode f s = Some k'" by (simp add: right_size_Some)
    then show ?thesis using Some b64_decode_agree [OF assms(2)] by simp
  qed
qed simp

lemma hex_decode_length: "hex_decode s = Some k \<Longrightarrow> length s = 2 * length k"
  by (induction s arbitrary: k rule: hex_decode.induct) (auto split: option.splits)

lemma key_of_text_b64:
  assumes "e \<in> set key_encodings" "length k = key_size"
  shows "key_of_text (b64_encode e k) = Inr k"
proof -
  have len: "length (b64_encode e k) \<in> {43, 44}"
    using assms length_b64_encode_padded [of e k] length_b64_encode_raw [of e k]
    by (cases "b64_padded e") (simp_all add: key_size_def)
  have g: "graphic (last (b64_encode e k))"
    using b64_encode_graphic [of e k] len by (cases "b64_encode e k" rule: rev_cases) auto
  have c: "trim_suffix (b64_encode e k) [char_of (m :: nat)] = b64_encode e k" if "m \<in> {10, 13}" for m
  proof (rule trim_suffix_absent, rule notI)
    assume "has_suffix (b64_encode e k) [char_of m]"
    then have "graphic (char_of m)" using g by (auto simp: has_suffix_iff)
    then show False using that by (auto simp: graphic_def in_range_def)
  qed
  have "first_key key_encodings (b64_encode e k) = Some k"
    by (rule first_key_found [OF assms(1) b64_decode_encode assms(2)])
  with len c show ?thesis by (auto simp: key_of_text_def right_size_def)
qed

lemma key_of_text_hex:
  assumes "hex_decode s = Some k" "length k = key_size"
  shows "key_of_text s = Inr k"
  using assms hex_decode_length [OF assms(1)] by (simp add: key_of_text_def key_size_def right_size_def)

lemma key_of_text_size: "key_of_text s = Inr k \<Longrightarrow> length k = key_size"
  by (auto simp: key_of_text_def right_size_Some first_key_size split: option.splits if_splits)

lemma load_public_key_text:
  assumes "read_file fs path = Inr d" "pem_decode cr (trim_space d) = None" "trim_space d \<noteq> []"
  shows "load_public_key cr fs path = key_of_text (trim_space d)"
  using assms by (simp add: load_public_key_def)

lemma load_public_key_cong:
  "read_file fs p = read_file fs' p \<Longrightarrow> load_public_key cr fs p = load_public_key cr fs' p"
  by (simp add: load_public_key_def)

lemma save_public_key_ok:
  assumes "pkix_marshal cr pub = Inr der" "path \<notin> set (fs_denied fs)"
  shows "\<exists>fs'. save_public_key_pem cr fs path pub = Inr fs' \<and>
    write_file fs path (pem_encode cr pub_type der) = Inr fs'"
  using assms by (simp add: save_public_key_pem_def write_file_def)

lemma load_pem_key:
  assumes "pem_law cr" "pkix_parse cr der = Inr (EdPublic pub)"
    and "read_file fs path = Inr (pem_encode cr pub_type der)"
  shows "load_public_key cr fs path = Inr pub"
  using assms by (simp add: load_public_key_def pem_law_def Let_def)

lemma save_public_key_loads:
  assumes "pem_law cr" "pkix_law cr" "length pub = key_size" "path \<notin> set (fs_denied fs)"
  obtains fs' where "save_public_key_pem cr fs path pub = Inr fs'"
    "load_public_key cr fs' path = Inr pub" "\<And>q. q \<noteq> path \<Longrightarrow> read_file fs' q = read_file fs q"
    "\<And>q. fs_exists fs' q \<longleftrightarrow> q = path \<or> fs_exists fs q" "fs_denied fs' = fs_denied fs"
proof -
  obtain der where der: "pkix_marshal cr pub = Inr der" "pkix_parse cr der = Inr (EdPublic pub)"
    using assms(2,3) unfolding pkix_law_def by blast
  obtain fs' where fs': "save_public_key_pem cr fs path pub = Inr fs'"
      "write_file fs path (pem_encode cr pub_type der) = Inr fs'"
    using save_public_key_ok [OF der(1) assms(4)] by blast
  have "load_public_key cr fs' path = Inr pub"
    using assms(1) der(2) read_write_file [OF fs'(2)] by (rule load_pem_key)
  moreover have "fs_denied fs' = fs_denied fs" using fs'(2) by (auto simp: write_file_def split: if_splits)
  ultimately show ?thesis
    using that fs'(1) read_write_other [OF fs'(2)] write_file_exists [OF fs'(2)] by blast
qed

lemma load_public_key_size:
  assumes "pkix_law cr" "load_public_key cr fs path = Inr k"
  shows "length k = key_size"
  using assms key_of_text_size
  by (auto simp: load_public_key_def pkix_law_def Let_def split: sum.splits if_splits option.splits parsed_key.splits)

lemma verify_sign_challenge:
  "signature_law cr priv pub \<Longrightarrow> verify_challenge cr pub a t (sign_challenge cr priv a t)"
  by (simp add: verify_challenge_def sign_challenge_def signature_law_def codec_simps)

lemma challenge_inject:
  assumes "CHR '':'' \<notin> set a" "CHR '':'' \<notin> set b" "challenge a s = challenge b t"
  shows "a = b \<and> s = t"
proof -
  have "takeWhile (\<lambda>c. c \<noteq> CHR '':'') (challenge a s) = a" "takeWhile (\<lambda>c. c \<noteq> CHR '':'') (challenge b t) = b"
    using assms(1,2) unfolding challenge_def by (subst takeWhile_append2; auto)+
  then have "a = b" using assms(3) by simp
  then show ?thesis using assms(3) by (simp add: challenge_def)
qed

text \<open>A concrete instance of the primitives, to show that the laws can hold together: the two
  keys of a pair coincide and a signature is the key followed by the message.\<close>

definition sample_crypto :: crypto where
  "sample_crypto = \<lparr>
     ed_sign = (\<lambda>k m. k @ m),
     ed_verify = (\<lambda>k m s. s = k @ m),
     pem_encode = (\<lambda>t b. (if t = pub_type then CHR ''P'' else CHR ''S'') # b64_encode std_encoding b),
     pem_decode = (\<lambda>s. case s of [] \<Rightarrow> None
       | c # r \<Rightarrow> if c = CHR ''P'' then map_option (Pair pub_type) (b64_decode std_encoding r)
                  else if c = CHR ''S'' then map_option (Pair priv_type) (b64_decode std_encoding r) else None),
     pkix_marshal = (\<lambda>k. if length k = key_size then Inr k else Inl ''size''),
     pkix_parse = (\<lambda>d. if length d = key_size then Inr (EdPublic d) else Inl ''size''),
     pkcs8_marshal = Inr,
     pkcs8_parse = (\<lambda>d. Inr (EdPrivate d))\<rparr>"

lemma sample_pem: "pem_law sample_crypto"
proof -
  have g: "trim_space (c # b64_encode std_encoding b) = c # b64_encode std_encoding b"
    if "graphic c" for c b
    using that b64_encode_graphic [of std_encoding b]
    by (intro trim_space_graphic) (auto simp: list_all_iff)
  have "graphic CHR ''P''" "graphic CHR ''S''" by (simp_all add: graphic_def in_range_def byte_def)
  with g show ?thesis
    by (simp add: pem_law_def sample_crypto_def codec_simps pub_type_def priv_type_def)
qed

lemma sample_pkix: "pkix_law sample_crypto"
  by (simp add: pkix_law_def sample_crypto_def)

lemma sample_pkcs8: "pkcs8_law sample_crypto k"
  by (simp add: pkcs8_law_def sample_crypto_def)

lemma sample_signature: "signature_law sample_crypto k k"
  by (simp add: signature_law_def sample_crypto_def)

definition sample_key :: string where
  "sample_key = replicate 32 CHR ''k''"

lemma sample_key_size: "length sample_key = key_size"
  by (simp add: sample_key_def key_size_def)

section \<open>Properties\<close>

text \<open>Key generation leaves a working pair on disk: when key generation succeeds and both
  files can be written, it reports the pair, the private key loads from its file, the public key
  loads from the other, a challenge signed with the former verifies with the latter, and no other
  file changes.\<close>

theorem generated_keys_load:
  assumes "pem_law cr" "pkix_law cr" "pkcs8_law cr priv" "signature_law cr priv pub"
    and "length pub = key_size" "priv_path \<noteq> pub_path"
    and "priv_path \<notin> set (fs_denied fs)" "pub_path \<notin> set (fs_denied fs)"
  shows "\<exists>fs'. generate_and_save_keys cr (Inr (priv, pub)) fs priv_path pub_path = (fs', Inr (priv, pub)) \<and>
    load_private_key_pem cr fs' priv_path = Inr priv \<and> load_public_key cr fs' pub_path = Inr pub \<and>
    verify_challenge cr pub agent ts (sign_challenge cr priv agent ts) \<and>
    (\<forall>q. q \<noteq> priv_path \<and> q \<noteq> pub_path \<longrightarrow> read_file fs' q = read_file fs q)"
proof -
  obtain der where der: "pkcs8_marshal cr priv = Inr der" "pkcs8_parse cr der = Inr (EdPrivate priv)"
    using assms(3) by (auto simp: pkcs8_law_def)
  define fs1 where "fs1 = fs\<lparr>fs_files := assoc_put priv_path (pem_encode cr priv_type der) (fs_files fs)\<rparr>"
  have w: "write_file fs priv_path (pem_encode cr priv_type der) = Inr fs1"
    using assms(7) by (simp add: write_file_def fs1_def)
  obtain fs' where fs': "save_public_key_pem cr fs1 pub_path pub = Inr fs'"
      "load_public_key cr fs' pub_path = Inr pub" "\<And>q. q \<noteq> pub_path \<Longrightarrow> read_file fs' q = read_file fs1 q"
    by (rule save_public_key_loads [OF assms(1,2,5), of pub_path fs1]) (auto simp: assms(8) fs1_def)
  have "read_file fs' priv_path = Inr (pem_encode cr priv_type der)"
    using fs'(3) [OF assms(6)] read_write_file [OF w] by simp
  then have "load_private_key_pem cr fs' priv_path = Inr priv"
    using assms(1) der(2) by (simp add: load_private_key_pem_def pem_law_def)
  moreover have "generate_and_save_keys cr (Inr (priv, pub)) fs priv_path pub_path = (fs', Inr (priv, pub))"
    using der(1) w fs'(1) by (simp add: generate_and_save_keys_def)
  ultimately show ?thesis
    using fs'(2,3) read_write_other [OF w] verify_sign_challenge [OF assms(4)] by auto
qed

theorem generated_keys_load_witness:
  "\<exists>fs'. generate_and_save_keys sample_crypto (Inr (sample_key, sample_key)) \<lparr>fs_files = [], fs_denied = []\<rparr>
      ''/k/a.key'' ''/k/a.pub'' = (fs', Inr (sample_key, sample_key)) \<and>
    load_private_key_pem sample_crypto fs' ''/k/a.key'' = Inr sample_key \<and>
    load_public_key sample_crypto fs' ''/k/a.pub'' = Inr sample_key"
  using generated_keys_load [OF sample_pem sample_pkix sample_pkcs8 sample_signature sample_key_size,
      of "''/k/a.key''" "''/k/a.pub''" "\<lparr>fs_files = [], fs_denied = []\<rparr>" "''a''" "''1''"]
  by auto

text \<open>Every documented format of a public key file is read: a 32-byte key written as base64 in
  any of the four alphabets and paddings, or as hexadecimal digits, loads as exactly that key,
  whatever white space surrounds it, and whatever is loaded from any file has 32 bytes.\<close>

theorem public_key_formats:
  assumes "pkix_law cr" "read_file fs path = Inr d" "pem_decode cr (trim_space d) = None"
    and "length k = key_size"
    and "hex_decode (trim_space d) = Some k \<or> (\<exists>e\<in>set key_encodings. trim_space d = b64_encode e k)"
  shows "load_public_key cr fs path = Inr k \<and>
    (\<forall>q k'. load_public_key cr fs q = Inr k' \<longrightarrow> length k' = key_size)"
proof
  have "key_of_text (trim_space d) = Inr k"
    using assms(4,5) key_of_text_hex key_of_text_b64 by metis
  moreover have "trim_space d \<noteq> []"
  proof
    assume "trim_space d = []"
    then have "key_of_text [] = Inr k" using \<open>key_of_text (trim_space d) = Inr k\<close> by simp
    moreover have "first_key es [] = None" for es
      by (induction es) (simp_all add: b64_decode_def right_size_def key_size_def)
    ultimately show False by (simp add: key_of_text_def trim_suffix_def has_suffix_def right_size_def)
  qed
  ultimately show "load_public_key cr fs path = Inr k"
    using assms(2,3) by (simp add: load_public_key_text)
  show "\<forall>q k'. load_public_key cr fs q = Inr k' \<longrightarrow> length k' = key_size"
    using load_public_key_size [OF assms(1)] by blast
qed

theorem public_key_formats_witness:
  "load_public_key sample_crypto
     \<lparr>fs_files = [(''p'', b64_encode raw_url_encoding sample_key)], fs_denied = []\<rparr> ''p'' = Inr sample_key"
proof -
  have t: "trim_space (b64_encode raw_url_encoding sample_key) = b64_encode raw_url_encoding sample_key"
    by code_simp
  have p: "pem_decode sample_crypto (b64_encode raw_url_encoding sample_key) = None"
    by code_simp
  show ?thesis
    by (rule public_key_formats [where d = "b64_encode raw_url_encoding sample_key",
          OF sample_pkix _ _ sample_key_size, THEN conjunct1])
      (auto simp: t p read_file_def key_encodings_def)
qed

end
