(* ===== verification/HubConn.thy ===== *)
theory HubConn
  imports RpcTypes
begin

text \<open>
  One satellite connection of the hub, \<open>AgentConnection\<close> of \<open>hub/server.go\<close>: its send queue,
  its table of pending calls and the handling of what the satellite sends.

  A pending call waits on a Go channel of capacity one. The channels made on a connection are the
  entries of the list \<open>ac_chans\<close>, named by their position, so that the dispatcher that made a
  channel still holds it after the table entry is gone. Sending on a closed channel and closing
  twice panic in Go, sending on a full channel blocks the reader: both are \<open>None\<close> here. Messages
  are JSON documents; \<open>None\<close> is text that does not parse.
\<close>

section \<open>State\<close>

record reply_chan =
  rc_buf :: "rpc_response option"
  rc_closed :: bool

definition new_chan :: reply_chan where
  "new_chan = \<lparr>rc_buf = None, rc_closed = False\<rparr>"

definition chan_send :: "rpc_response \<Rightarrow> reply_chan \<Rightarrow> reply_chan option" where
  "chan_send v ch = (if rc_closed ch \<or> rc_buf ch \<noteq> None then None else Some (ch\<lparr>rc_buf := Some v\<rparr>))"

definition chan_close :: "reply_chan \<Rightarrow> reply_chan option" where
  "chan_close ch = (if rc_closed ch then None else Some (ch\<lparr>rc_closed := True\<rparr>))"

record agent_conn =
  ac_id :: string
  ac_send :: "json list"
  ac_done :: bool
  ac_open :: bool
  ac_request_id :: "64 word"
  ac_pending :: "(string \<times> nat) list option"
  ac_chans :: "reply_chan list"

definition send_cap :: nat where "send_cap = 256"

definition new_agent_connection :: "string \<Rightarrow> agent_conn" where
  "new_agent_connection agent = \<lparr>ac_id = agent, ac_send = [], ac_done = False, ac_open = True,
     ac_request_id = 0, ac_pending = Some [], ac_chans = []\<rparr>"

section \<open>Operations\<close>

text \<open>\<open>NextRequestID\<close>: an atomic increment, printed after the agent's name.\<close>

definition request_name :: "string \<Rightarrow> 64 word \<Rightarrow> string" where
  "request_name agent n = agent @ CHR ''-'' # nat_digits (unat n)"

definition next_request_id :: "agent_conn \<Rightarrow> agent_conn \<times> string" where
  "next_request_id c = (let n = ac_request_id c + 1 in
     (c\<lparr>ac_request_id := n\<rparr>, request_name (ac_id c) n))"

text \<open>A select with a default branch: the message is dropped when the queue is full.\<close>

definition try_send :: "agent_conn \<Rightarrow> json \<Rightarrow> agent_conn" where
  "try_send c msg = (if length (ac_send c) < send_cap then c\<lparr>ac_send := ac_send c @ [msg]\<rparr> else c)"

text \<open>The writer takes the oldest message.\<close>

definition take_send :: "agent_conn \<Rightarrow> (json \<times> agent_conn) option" where
  "take_send c = (case ac_send c of [] \<Rightarrow> None | m # ms \<Rightarrow> Some (m, c\<lparr>ac_send := ms\<rparr>))"

text \<open>Registering a call under the lock of the table: \<open>None\<close> when the table is gone.\<close>

definition register_pending :: "agent_conn \<Rightarrow> string \<Rightarrow> (agent_conn \<times> nat) option" where
  "register_pending c rid =
     (case ac_pending c of
        None \<Rightarrow> None
      | Some ps \<Rightarrow> Some (c\<lparr>ac_pending := Some (assoc_put rid (length (ac_chans c)) ps),
                           ac_chans := ac_chans c @ [new_chan]\<rparr>, length (ac_chans c)))"

definition cleanup_pending :: "agent_conn \<Rightarrow> string \<Rightarrow> agent_conn" where
  "cleanup_pending c rid = c\<lparr>ac_pending := map_option (assoc_del rid) (ac_pending c)\<rparr>"

text \<open>The answer goes to the channel of its call, which is then closed.\<close>

definition deliver_response :: "agent_conn \<Rightarrow> string \<Rightarrow> rpc_response \<Rightarrow> agent_conn option" where
  "deliver_response c rid resp =
     (case (case ac_pending c of None \<Rightarrow> None | Some ps \<Rightarrow> map_of ps rid) of
        None \<Rightarrow> Some c
      | Some r \<Rightarrow>
          (case chan_send resp (ac_chans c ! r) of
             None \<Rightarrow> None
           | Some ch \<Rightarrow>
          (case chan_close ch of
             None \<Rightarrow> None
           | Some ch' \<Rightarrow> Some ((cleanup_pending c rid)\<lparr>ac_chans := (ac_chans c)[r := ch']\<rparr>))))"

definition handle_request :: "agent_conn \<Rightarrow> rpc_request \<Rightarrow> agent_conn" where
  "handle_request c req =
     (if rq_method req = ''submit_metric'' \<and> unmarshal dec_metric zero_metric (rq_params req) \<noteq> None
      then (case new_rpc_response (rq_id req) (Inr (JStr ''success'')) of
              Inr resp \<Rightarrow> try_send c (enc_response resp)
            | Inl _ \<Rightarrow> try_send c JNull)
      else try_send c (enc_response (new_rpc_error_response (rq_id req) err_method_not_found
             ''Method not supported on Hub'' None)))"

definition handle_incoming_message :: "agent_conn \<Rightarrow> json option \<Rightarrow> agent_conn option" where
  "handle_incoming_message c msg =
     (case (case unmarshal dec_response zero_response msg of
              None \<Rightarrow> None
            | Some resp \<Rightarrow>
                (if rs_result resp \<noteq> None \<or> rs_error resp \<noteq> None
                 then (case rs_id resp of Some (JStr rid) \<Rightarrow> Some (rid, resp) | _ \<Rightarrow> None) else None)) of
        Some (rid, resp) \<Rightarrow> deliver_response c rid resp
      | None \<Rightarrow>
          (case unmarshal dec_request zero_request msg of
             None \<Rightarrow> Some c
           | Some req \<Rightarrow> if rq_method req = [] then Some c else Some (handle_request c req)))"

text \<open>\<open>Close\<close> in its three parts, run once: the done channel and the socket are closed, the hub
  forgets the connection (in the hub's model), and every waiting call is woken.\<close>

definition close_done :: "agent_conn \<Rightarrow> agent_conn" where
  "close_done c = c\<lparr>ac_done := True, ac_open := False\<rparr>"

fun close_chans :: "(string \<times> nat) list \<Rightarrow> reply_chan list \<Rightarrow> reply_chan list option" where
  "close_chans [] chs = Some chs"
| "close_chans ((k, r) # ps) chs =
     (case chan_close (chs ! r) of None \<Rightarrow> None | Some ch \<Rightarrow> close_chans ps (chs[r := ch]))"

definition close_pending :: "agent_conn \<Rightarrow> agent_conn option" where
  "close_pending c =
     (case close_chans (case ac_pending c of None \<Rightarrow> [] | Some ps \<Rightarrow> ps) (ac_chans c) of
        None \<Rightarrow> None
      | Some chs \<Rightarrow> Some (c\<lparr>ac_pending := None, ac_chans := chs\<rparr>))"

section \<open>Invariant\<close>

text \<open>Every channel in the table is new: nothing was sent on it and it is open. No two entries
  share an identifier or a channel. The send queue never exceeds its capacity.\<close>

definition pending_ok :: "(string \<times> nat) list \<Rightarrow> reply_chan list \<Rightarrow> bool" where
  "pending_ok ps chs \<longleftrightarrow> distinct (map fst ps) \<and> distinct (map snd ps) \<and>
     (\<forall>(k, r)\<in>set ps. r < length chs \<and> chs ! r = new_chan)"

definition conn_inv :: "agent_conn \<Rightarrow> bool" where
  "conn_inv c \<longleftrightarrow> length (ac_send c) \<le> send_cap \<and>
     (\<forall>ps. ac_pending c = Some ps \<longrightarrow> pending_ok ps (ac_chans c))"

lemma conn_inv_new [inv_intros]: "conn_inv (new_agent_connection agent)"
  by (simp add: conn_inv_def new_agent_connection_def pending_ok_def)

lemma conn_inv_next_id [inv_intros]: "conn_inv c \<Longrightarrow> conn_inv (fst (next_request_id c))"
  by (simp add: conn_inv_def next_request_id_def Let_def)

lemma try_send_fields [simp]:
  "ac_pending (try_send c m) = ac_pending c" "ac_chans (try_send c m) = ac_chans c"
  "ac_id (try_send c m) = ac_id c" "ac_done (try_send c m) = ac_done c"
  "ac_open (try_send c m) = ac_open c" "ac_request_id (try_send c m) = ac_request_id c"
  by (simp_all add: try_send_def)

lemma conn_inv_try_send [inv_intros]: "conn_inv c \<Longrightarrow> conn_inv (try_send c m)"
  by (simp add: conn_inv_def) (simp add: try_send_def)

lemma conn_inv_take_send [inv_intros]: "conn_inv c \<Longrightarrow> take_send c = Some (m, c') \<Longrightarrow> conn_inv c'"
  by (auto simp: conn_inv_def take_send_def split: list.splits)

lemma conn_inv_close_done [inv_intros]: "conn_inv c \<Longrightarrow> conn_inv (close_done c)"
  by (simp add: conn_inv_def close_done_def)

lemma pending_ok_del: "pending_ok ps chs \<Longrightarrow> pending_ok (assoc_del k ps) chs"
proof -
  have "distinct (map snd ps) \<Longrightarrow> distinct (map snd (assoc_del k ps))"
    unfolding assoc_del_def by (rule distinct_map_filter)
  then show "pending_ok ps chs \<Longrightarrow> pending_ok (assoc_del k ps) chs"
    by (auto simp: pending_ok_def set_assoc_del)
qed

lemma pending_ok_mono:
  "pending_ok ps chs \<Longrightarrow> \<forall>(k, r)\<in>set ps. chs' ! r = chs ! r \<Longrightarrow> length chs \<le> length chs' \<Longrightarrow>
   pending_ok ps chs'"
  by (fastforce simp: pending_ok_def)

lemma pending_ok_put:
  assumes "pending_ok ps chs"
  shows "pending_ok (assoc_put k (length chs) ps) (chs @ [new_chan])"
proof -
  have d: "distinct (map fst ps)" "\<forall>(k, r)\<in>set ps. r < length chs \<and> chs ! r = new_chan"
    using assms by (auto simp: pending_ok_def)
  have "distinct (map snd (assoc_put k n ps))"
    if "distinct (map snd ps)" "n \<notin> snd ` set ps" "distinct (map fst ps)" for n
    using that
  proof (induction k n ps rule: assoc_put.induct)
    case (2 k n k' v' xs)
    have "v' \<notin> snd ` set (assoc_put k n xs)"
      using 2(2-4) by (auto simp: set_assoc_put image_iff)
    then show ?case using 2 by (auto simp: image_iff)
  qed simp
  moreover have "length chs \<notin> snd ` set ps" using d(2) by auto
  ultimately have "distinct (map snd (assoc_put k (length chs) ps))"
    using assms d(1) by (simp add: pending_ok_def)
  with d show ?thesis by (auto simp: pending_ok_def set_assoc_put nth_append)
qed

lemma conn_inv_register [inv_intros]:
  "conn_inv c \<Longrightarrow> register_pending c rid = Some (c', r) \<Longrightarrow> conn_inv c'"
  by (auto simp: conn_inv_def register_pending_def pending_ok_put split: option.splits)

lemma conn_inv_cleanup [inv_intros]: "conn_inv c \<Longrightarrow> conn_inv (cleanup_pending c rid)"
  by (auto simp: conn_inv_def cleanup_pending_def pending_ok_del)

lemma pending_ok_lookup:
  assumes "pending_ok ps chs" "map_of ps k = Some r"
  shows "r < length chs" "chs ! r = new_chan" "r \<notin> snd ` set (assoc_del k ps)"
proof -
  have in_ps: "(k, r) \<in> set ps" using assms(2) by (rule map_of_SomeD)
  then show "r < length chs" "chs ! r = new_chan" using assms(1) by (auto simp: pending_ok_def)
  have "k' = k" if "(k', r) \<in> set ps" for k'
  proof -
    have "inj_on snd (set ps)" using assms(1) by (simp add: pending_ok_def distinct_map)
    then show ?thesis using inj_onD [of snd "set ps" "(k', r)" "(k, r)"] that in_ps by simp
  qed
  then show "r \<notin> snd ` set (assoc_del k ps)" by (auto simp: set_assoc_del)
qed

lemma pending_ok_delivered:
  assumes "pending_ok ps chs" "map_of ps k = Some r"
  shows "pending_ok (assoc_del k ps) (chs[r := ch])"
proof (rule pending_ok_mono [OF pending_ok_del [OF assms(1)]])
  show "\<forall>(k', r')\<in>set (assoc_del k ps). chs[r := ch] ! r' = chs ! r'"
    using pending_ok_lookup(3) [OF assms] by (force simp: image_iff)
qed simp

definition answered :: "rpc_response \<Rightarrow> reply_chan" where
  "answered resp = \<lparr>rc_buf = Some resp, rc_closed = True\<rparr>"

definition lookup_pending :: "agent_conn \<Rightarrow> string \<Rightarrow> nat option" where
  "lookup_pending c rid = (case ac_pending c of None \<Rightarrow> None | Some ps \<Rightarrow> map_of ps rid)"

text \<open>Delivery under the invariant: no panic and no block, exactly one channel changes.\<close>

lemma deliver_response_inv:
  assumes "conn_inv c"
  shows "deliver_response c rid resp = Some
     (case lookup_pending c rid of None \<Rightarrow> c
      | Some r \<Rightarrow> (cleanup_pending c rid)\<lparr>ac_chans := (ac_chans c)[r := answered resp]\<rparr>)"
proof (cases "lookup_pending c rid")
  case None
  then show ?thesis by (simp add: deliver_response_def lookup_pending_def)
next
  case (Some r)
  then obtain ps where ps: "ac_pending c = Some ps" "map_of ps rid = Some r"
    by (auto simp: lookup_pending_def split: option.splits)
  then have "ac_chans c ! r = new_chan"
    using assms pending_ok_lookup(2) by (auto simp: conn_inv_def)
  with ps Some show ?thesis
    by (simp add: deliver_response_def chan_send_def chan_close_def new_chan_def answered_def)
qed

lemma conn_inv_deliver [inv_intros]:
  assumes "conn_inv c" "deliver_response c rid resp = Some c'"
  shows "conn_inv c'"
proof (cases "lookup_pending c rid")
  case None
  then show ?thesis using assms deliver_response_inv [OF assms(1)] by simp
next
  case (Some r)
  then obtain ps where ps: "ac_pending c = Some ps" "map_of ps rid = Some r"
    by (auto simp: lookup_pending_def split: option.splits)
  have "c' = (cleanup_pending c rid)\<lparr>ac_chans := (ac_chans c)[r := answered resp]\<rparr>"
    using assms deliver_response_inv [OF assms(1)] Some by simp
  then show ?thesis
    using assms(1) ps by (auto simp: conn_inv_def cleanup_pending_def pending_ok_delivered)
qed

lemma handle_request_fields [simp]:
  "ac_pending (handle_request c req) = ac_pending c" "ac_chans (handle_request c req) = ac_chans c"
  "ac_id (handle_request c req) = ac_id c" "ac_done (handle_request c req) = ac_done c"
  "ac_open (handle_request c req) = ac_open c" "ac_request_id (handle_request c req) = ac_request_id c"
  by (simp_all add: handle_request_def split: sum.split)

lemma conn_inv_handle_request [inv_intros]: "conn_inv c \<Longrightarrow> conn_inv (handle_request c req)"
  by (auto simp: handle_request_def split: sum.split intro: inv_intros)

text \<open>What an incoming message is: an answer to a call, a request, or neither.\<close>

definition incoming_answer :: "json option \<Rightarrow> (string \<times> rpc_response) option" where
  "incoming_answer msg = (case unmarshal dec_response zero_response msg of
      None \<Rightarrow> None
    | Some resp \<Rightarrow>
        (if rs_result resp \<noteq> None \<or> rs_error resp \<noteq> None
         then (case rs_id resp of Some (JStr rid) \<Rightarrow> Some (rid, resp) | _ \<Rightarrow> None) else None))"

lemma handle_incoming_cases:
  "handle_incoming_message c msg =
     (case incoming_answer msg of Some (rid, resp) \<Rightarrow> deliver_response c rid resp
      | None \<Rightarrow> Some (case unmarshal dec_request zero_request msg of
            None \<Rightarrow> c | Some req \<Rightarrow> if rq_method req = [] then c else handle_request c req))"
  unfolding handle_incoming_message_def incoming_answer_def by (simp split: option.split)

lemma handle_incoming_ok:
  assumes "conn_inv c"
  obtains c' where "handle_incoming_message c msg = Some c'" "conn_inv c'"
proof (cases "incoming_answer msg")
  case None
  have "conn_inv (case unmarshal dec_request zero_request msg of
      None \<Rightarrow> c | Some req \<Rightarrow> if rq_method req = [] then c else handle_request c req)"
    using assms by (auto split: option.split intro: inv_intros)
  with None show ?thesis using that by (simp add: handle_incoming_cases)
next
  case (Some p)
  obtain rid resp where p: "p = (rid, resp)" by force
  obtain c' where "deliver_response c rid resp = Some c'"
    using deliver_response_inv [OF assms] by blast
  then show ?thesis
    using that Some p conn_inv_deliver [OF assms] by (simp add: handle_incoming_cases)
qed

lemma close_chans_ok:
  assumes "distinct (map snd ps)" "\<forall>(k, r)\<in>set ps. r < length chs \<and> chs ! r = new_chan"
  shows "\<exists>chs'. close_chans ps chs = Some chs' \<and> length chs' = length chs \<and>
    (\<forall>i<length chs. chs' ! i = (if i \<in> snd ` set ps then new_chan\<lparr>rc_closed := True\<rparr> else chs ! i))"
  using assms
proof (induction ps arbitrary: chs)
  case (Cons p ps)
  obtain k r where p: "p = (k, r)" by force
  let ?chs = "chs[r := new_chan\<lparr>rc_closed := True\<rparr>]"
  have r: "r < length chs" "chs ! r = new_chan" "r \<notin> snd ` set ps"
    using Cons.prems p by (auto simp: image_iff)
  then have "\<forall>(k, r')\<in>set ps. r' < length ?chs \<and> ?chs ! r' = new_chan"
    using Cons.prems p by (force simp: nth_list_update)
  then obtain chs' where "close_chans ps ?chs = Some chs'" "length chs' = length ?chs"
    "\<forall>i<length ?chs. chs' ! i = (if i \<in> snd ` set ps then new_chan\<lparr>rc_closed := True\<rparr> else ?chs ! i)"
    using Cons.IH [of ?chs] Cons.prems(1) by auto
  then show ?case
    using r p by (auto simp: chan_close_def new_chan_def nth_list_update)
qed simp

lemma close_pending_ok:
  assumes "conn_inv c"
  obtains c' where "close_pending c = Some c'" "conn_inv c'" "ac_pending c' = None"
    "length (ac_chans c') = length (ac_chans c)"
    "\<And>i. i < length (ac_chans c) \<Longrightarrow> ac_chans c' ! i =
       (if \<exists>k. lookup_pending c k = Some i then new_chan\<lparr>rc_closed := True\<rparr> else ac_chans c ! i)"
    "ac_id c' = ac_id c" "ac_send c' = ac_send c" "ac_done c' = ac_done c" "ac_open c' = ac_open c"
    "ac_request_id c' = ac_request_id c"
proof -
  define ps where "ps = (case ac_pending c of None \<Rightarrow> [] | Some ps \<Rightarrow> ps)"
  have ok: "pending_ok ps (ac_chans c)"
    using assms by (auto simp: conn_inv_def ps_def pending_ok_def split: option.split)
  then obtain chs where chs: "close_chans ps (ac_chans c) = Some chs" "length chs = length (ac_chans c)"
    "\<forall>i<length (ac_chans c). chs ! i =
       (if i \<in> snd ` set ps then new_chan\<lparr>rc_closed := True\<rparr> else ac_chans c ! i)"
    using close_chans_ok [of ps "ac_chans c"] by (auto simp: pending_ok_def)
  have "(\<exists>k. lookup_pending c k = Some i) \<longleftrightarrow> i \<in> snd ` set ps" for i
    using ok unfolding ps_def lookup_pending_def pending_ok_def
    by (cases "ac_pending c") (force simp: map_of_eq_Some_iff)+
  then show ?thesis
    using that [of "c\<lparr>ac_pending := None, ac_chans := chs\<rparr>"] chs assms
    by (simp add: close_pending_def ps_def conn_inv_def)
qed

section \<open>Request identifiers\<close>

lemma request_name_inject: "request_name a m = request_name a n \<longleftrightarrow> m = n"
proof
  assume "request_name a m = request_name a n"
  then have "nat_digits (unat m) = nat_digits (unat n)" by (simp add: request_name_def)
  moreover have "unat m < 2 ^ 64" "unat n < 2 ^ 64"
    using unsigned_less [of m] unsigned_less [of n] by simp_all
  ultimately have "unat m = unat n"
    using parse_uint_go_digits [of "unat m"] parse_uint_go_digits [of "unat n"]
    by (metis num_parse.inject(1) of_nat_eq_iff)
  then show "m = n" by (rule unsigned_word_eqI)
qed simp

section \<open>The send queue\<close>

text \<open>The send queue is first in, first out; a message that finds it full is lost.\<close>

interpretation send_queue: fifo_take ac_send "\<lambda>c. length (ac_send c) \<le> send_cap"
  "\<lambda>c m. length (ac_send c) < send_cap" "\<lambda>m c. try_send c m" take_send
  by unfold_locales (auto simp: try_send_def take_send_def split: list.splits)

end
