(* ===== verification/HubCalls.thy ===== *)
theory HubCalls
  imports HubConn
begin

text \<open>
  The concurrency of one satellite connection: any number of \<open>DispatchJob\<close> calls, the reader
  (\<open>readPump\<close>), the writer (\<open>writePump\<close>) and \<open>Close\<close> interleave. Each atomic action of
  \<open>hub/server.go\<close> (an atomic increment, a section under \<open>pendingMu\<close>, a channel operation of a
  select) is one rule of \<open>call_step\<close>. A call's context may end at any wait. The model bounds the
  number of calls of one connection by \<open>2^64\<close>, the period of its request counter.
\<close>

section \<open>Calls\<close>

datatype outcome = Reply rpc_response | NotOpen | SendClosed | WaitClosed | CtxEnded

text \<open>Where a call is: before its identifier is drawn, before it is registered, before it is
  queued, waiting for the answer, before the deferred clean-up, and returned. The word is the
  number of its identifier, the position that of its channel.\<close>

datatype phase =
    Called
  | Named "64 word"
  | Queueing "64 word" nat
  | Waiting "64 word" nat
  | Finishing "64 word" outcome
  | Returned "64 word" outcome

record calls =
  cl_conn :: agent_conn
  cl_phases :: "phase list"

definition rid_of :: "agent_conn \<Rightarrow> 64 word \<Rightarrow> string" where
  "rid_of c n = request_name (ac_id c) n"

definition take_reply :: "agent_conn \<Rightarrow> nat \<Rightarrow> agent_conn" where
  "take_reply c ch = c\<lparr>ac_chans := (ac_chans c)[ch := (ac_chans c ! ch)\<lparr>rc_buf := None\<rparr>]\<rparr>"

definition set_phase :: "calls \<Rightarrow> agent_conn \<Rightarrow> nat \<Rightarrow> phase \<Rightarrow> calls" where
  "set_phase s c i p = s\<lparr>cl_conn := c, cl_phases := (cl_phases s)[i := p]\<rparr>"

definition at_phase :: "calls \<Rightarrow> nat \<Rightarrow> phase \<Rightarrow> bool" where
  "at_phase s i p \<longleftrightarrow> i < length (cl_phases s) \<and> cl_phases s ! i = p"

text \<open>\<open>Close\<close> is two steps here, \<open>close_first\<close> for the done channel and the socket and
  \<open>close_second\<close> for the table of calls. Between them the code calls \<open>unregister\<close>, which touches
  nothing of the connection but waits for the mutex of the hub, possibly for ever; a run of
  \<open>call_step\<close> may accordingly stop between the two. The three steps of \<open>Close\<close>, with the mutex, are
  in \<open>HubRegistry\<close>.\<close>

inductive call_step :: "calls \<Rightarrow> calls \<Rightarrow> bool" where
  begin_call: "Suc (length (cl_phases s)) < 2 ^ 64 \<Longrightarrow>
    call_step s (s\<lparr>cl_phases := cl_phases s @ [Called]\<rparr>)"
| draw_id: "at_phase s i Called \<Longrightarrow> next_request_id (cl_conn s) = (c, rid) \<Longrightarrow>
    call_step s (set_phase s c i (Named (ac_request_id c)))"
| registered: "at_phase s i (Named n) \<Longrightarrow> register_pending (cl_conn s) (rid_of (cl_conn s) n) = Some (c, ch) \<Longrightarrow>
    call_step s (set_phase s c i (Queueing n ch))"
| refused: "at_phase s i (Named n) \<Longrightarrow> register_pending (cl_conn s) (rid_of (cl_conn s) n) = None \<Longrightarrow>
    call_step s (set_phase s (cl_conn s) i (Returned n NotOpen))"
| queued: "at_phase s i (Queueing n ch) \<Longrightarrow> length (ac_send (cl_conn s)) < send_cap \<Longrightarrow>
    call_step s (set_phase s (try_send (cl_conn s) msg) i (Waiting n ch))"
| queue_closed: "at_phase s i (Queueing n ch) \<Longrightarrow> ac_done (cl_conn s) \<Longrightarrow>
    call_step s (set_phase s (cl_conn s) i (Finishing n SendClosed))"
| queue_ended: "at_phase s i (Queueing n ch) \<Longrightarrow>
    call_step s (set_phase s (cl_conn s) i (Finishing n CtxEnded))"
| got_reply: "at_phase s i (Waiting n ch) \<Longrightarrow> rc_buf (ac_chans (cl_conn s) ! ch) = Some v \<Longrightarrow>
    call_step s (set_phase s (take_reply (cl_conn s) ch) i (Finishing n (Reply v)))"
| wait_closed: "at_phase s i (Waiting n ch) \<Longrightarrow> rc_buf (ac_chans (cl_conn s) ! ch) = None \<Longrightarrow>
    rc_closed (ac_chans (cl_conn s) ! ch) \<Longrightarrow>
    call_step s (set_phase s (cl_conn s) i (Finishing n WaitClosed))"
| wait_ended: "at_phase s i (Waiting n ch) \<Longrightarrow>
    call_step s (set_phase s (cl_conn s) i (Finishing n CtxEnded))"
| cleaned: "at_phase s i (Finishing n r) \<Longrightarrow>
    call_step s (set_phase s (cleanup_pending (cl_conn s) (rid_of (cl_conn s) n)) i (Returned n r))"
| read_message: "handle_incoming_message (cl_conn s) msg = Some c \<Longrightarrow> call_step s (s\<lparr>cl_conn := c\<rparr>)"
| written: "take_send (cl_conn s) = Some (msg, c) \<Longrightarrow> call_step s (s\<lparr>cl_conn := c\<rparr>)"
| close_first: "\<not> ac_done (cl_conn s) \<Longrightarrow> call_step s (s\<lparr>cl_conn := close_done (cl_conn s)\<rparr>)"
| close_second: "ac_done (cl_conn s) \<Longrightarrow> ac_pending (cl_conn s) \<noteq> None \<Longrightarrow>
    close_pending (cl_conn s) = Some c \<Longrightarrow> call_step s (s\<lparr>cl_conn := c\<rparr>)"

inductive_cases call_stepE: "call_step s t"

definition new_calls :: "string \<Rightarrow> calls" where
  "new_calls agent = \<lparr>cl_conn = new_agent_connection agent, cl_phases = []\<rparr>"

section \<open>Invariant\<close>

fun number :: "phase \<Rightarrow> 64 word option" where
  "number Called = None"
| "number (Named n) = Some n"
| "number (Queueing n ch) = Some n"
| "number (Waiting n ch) = Some n"
| "number (Finishing n r) = Some n"
| "number (Returned n r) = Some n"

fun channel :: "phase \<Rightarrow> nat option" where
  "channel (Queueing n ch) = Some ch"
| "channel (Waiting n ch) = Some ch"
| "channel _ = None"

fun in_table :: "phase \<Rightarrow> bool" where
  "in_table (Queueing n ch) = True"
| "in_table (Waiting n ch) = True"
| "in_table (Finishing n r) = True"
| "in_table _ = False"

fun reply_of :: "phase \<Rightarrow> rpc_response option" where
  "reply_of (Finishing n (Reply v)) = Some v"
| "reply_of (Returned n (Reply v)) = Some v"
| "reply_of _ = None"

definition own_reply :: "agent_conn \<Rightarrow> 64 word \<Rightarrow> rpc_response \<Rightarrow> bool" where
  "own_reply c n v \<longleftrightarrow> rs_id v = Some (JStr (rid_of c n))"

text \<open>What holds of one call: its channel is in the table under its identifier, or holds the
  answer to its identifier, or was closed with the table; a reply it got was its own.\<close>

definition phase_ok :: "agent_conn \<Rightarrow> phase \<Rightarrow> bool" where
  "phase_ok c p \<longleftrightarrow>
     (\<forall>n. number p = Some n \<longrightarrow> unat n \<le> unat (ac_request_id c) \<and>
        (\<forall>v. reply_of p = Some v \<longrightarrow> own_reply c n v) \<and>
        (\<forall>ch. channel p = Some ch \<longrightarrow> ch < length (ac_chans c) \<and>
           (lookup_pending c (rid_of c n) = Some ch \<or>
            lookup_pending c (rid_of c n) = None \<and>
              ((\<exists>v. ac_chans c ! ch = answered v \<and> own_reply c n v) \<or>
               ac_pending c = None \<and> ac_chans c ! ch = new_chan\<lparr>rc_closed := True\<rparr>))))"

definition separate :: "phase \<Rightarrow> phase \<Rightarrow> bool" where
  "separate p q \<longleftrightarrow> (\<forall>n. number p = Some n \<longrightarrow> number q \<noteq> Some n) \<and>
     (\<forall>ch. channel p = Some ch \<longrightarrow> channel q \<noteq> Some ch)"

definition calls_inv :: "calls \<Rightarrow> bool" where
  "calls_inv s \<longleftrightarrow> conn_inv (cl_conn s) \<and> (ac_pending (cl_conn s) = None \<longrightarrow> ac_done (cl_conn s)) \<and>
     length (cl_phases s) < 2 ^ 64 \<and>
     unat (ac_request_id (cl_conn s)) \<le> length (filter (\<lambda>p. p \<noteq> Called) (cl_phases s)) \<and>
     (\<forall>p\<in>set (cl_phases s). phase_ok (cl_conn s) p) \<and>
     (\<forall>i j. i < length (cl_phases s) \<longrightarrow> j < length (cl_phases s) \<longrightarrow> i \<noteq> j \<longrightarrow>
        separate (cl_phases s ! i) (cl_phases s ! j)) \<and>
     (\<forall>k. lookup_pending (cl_conn s) k \<noteq> None \<longrightarrow>
        (\<exists>p\<in>set (cl_phases s). in_table p \<and> map_option (rid_of (cl_conn s)) (number p) = Some k))"

lemma calls_inv_new: "calls_inv (new_calls agent)"
  using conn_inv_new [of agent]
  by (simp add: calls_inv_def new_calls_def lookup_pending_def) (simp add: new_agent_connection_def)

lemma at_phase_mem: "at_phase s i p \<Longrightarrow> p \<in> set (cl_phases s)"
  unfolding at_phase_def using nth_mem by blast

lemma rid_of_inject: "rid_of c m = rid_of c n \<longleftrightarrow> m = n"
  by (simp add: rid_of_def request_name_inject)

lemma in_table_number: "in_table p \<Longrightarrow> \<exists>n. number p = Some n"
  by (cases p) auto

lemma calls_invD:
  assumes "calls_inv s"
  shows "conn_inv (cl_conn s)" "ac_pending (cl_conn s) = None \<Longrightarrow> ac_done (cl_conn s)"
    "p \<in> set (cl_phases s) \<Longrightarrow> phase_ok (cl_conn s) p"
    "i < length (cl_phases s) \<Longrightarrow> j < length (cl_phases s) \<Longrightarrow> i \<noteq> j \<Longrightarrow>
       separate (cl_phases s ! i) (cl_phases s ! j)"
  using assms by (auto simp: calls_inv_def)

text \<open>A step that changes one call and the connection: what is left to show.\<close>

lemma calls_inv_set_phase:
  assumes inv: "calls_inv s" and i: "i < length (cl_phases s)" "cl_phases s ! i = p0"
    and c: "conn_inv c" "ac_pending c = None \<longrightarrow> ac_done c" "rid_of c = rid_of (cl_conn s)"
    and count: "unat (ac_request_id c) \<le> unat (ac_request_id (cl_conn s)) + (if p0 = Called \<and> p \<noteq> Called then 1 else 0)"
    and kind: "p = Called \<longrightarrow> p0 = Called"
    and new: "phase_ok c p"
    and others: "\<And>q. q \<in> set (cl_phases s) \<Longrightarrow> separate p0 q \<Longrightarrow> separate q p0 \<Longrightarrow> phase_ok (cl_conn s) q \<Longrightarrow>
        phase_ok c q \<and> separate p q \<and> separate q p"
    and table: "\<And>k. lookup_pending c k \<noteq> None \<Longrightarrow>
        (lookup_pending (cl_conn s) k \<noteq> None \<and> (in_table p0 \<longrightarrow> number p0 = number p \<and> in_table p \<or>
           map_option (rid_of c) (number p0) \<noteq> Some k)) \<or>
        in_table p \<and> map_option (rid_of c) (number p) = Some k"
  shows "calls_inv (set_phase s c i p)"
proof -
  define ps where "ps = cl_phases s"
  have sep: "separate p0 (ps ! j) \<and> separate (ps ! j) p0" if "j < length ps" "j \<noteq> i" for j
    using calls_invD(4) [OF inv] i that by (auto simp: ps_def)
  have oth: "phase_ok c (ps ! j) \<and> separate p (ps ! j) \<and> separate (ps ! j) p" if "j < length ps" "j \<noteq> i" for j
    using others [of "ps ! j"] sep [OF that] calls_invD(3) [OF inv] that by (simp add: ps_def)
  have ok: "\<forall>q\<in>set (ps[i := p]). phase_ok c q"
  proof
    fix q assume "q \<in> set (ps[i := p])"
    then obtain j where "j < length ps" "q = ps[i := p] ! j" by (auto simp: in_set_conv_nth)
    then show "phase_ok c q" using oth new by (cases "j = i") auto
  qed
  have "separate (ps[i := p] ! j) (ps[i := p] ! k)" if "j < length ps" "k < length ps" "j \<noteq> k" for j k
    using oth calls_invD(4) [OF inv, of j k] that by (cases "j = i"; cases "k = i") (auto simp: ps_def)
  moreover have "unat (ac_request_id c) \<le> length (filter (\<lambda>p. p \<noteq> Called) (ps[i := p]))"
  proof -
    have split: "ps = take i ps @ p0 # drop (Suc i) ps" "ps[i := p] = take i ps @ p # drop (Suc i) ps"
      using i by (auto simp: ps_def id_take_nth_drop upd_conv_take_nth_drop)
    have "unat (ac_request_id (cl_conn s)) \<le> length (filter (\<lambda>p. p \<noteq> Called) ps)"
      using inv by (simp add: calls_inv_def ps_def)
    also have "\<dots> = length (filter (\<lambda>p. p \<noteq> Called) (take i ps)) + (if p0 = Called then 0 else 1) +
        length (filter (\<lambda>p. p \<noteq> Called) (drop (Suc i) ps))"
      by (subst split(1)) simp
    finally show ?thesis using count kind by (subst split(2)) (auto split: if_splits)
  qed
  moreover have "\<exists>q\<in>set (ps[i := p]). in_table q \<and> map_option (rid_of c) (number q) = Some k"
    if "lookup_pending c k \<noteq> None" for k
    using table [OF that]
  proof
    assume "in_table p \<and> map_option (rid_of c) (number p) = Some k"
    then show ?thesis using i by (auto simp: ps_def set_update_memI)
  next
    assume t: "lookup_pending (cl_conn s) k \<noteq> None \<and> (in_table p0 \<longrightarrow> number p0 = number p \<and> in_table p \<or>
           map_option (rid_of c) (number p0) \<noteq> Some k)"
    then obtain q where q: "q \<in> set ps" "in_table q" "map_option (rid_of c) (number q) = Some k"
      using inv by (auto simp: calls_inv_def ps_def c(3))
    then obtain j where j: "j < length ps" "q = ps ! j" by (auto simp: in_set_conv_nth)
    show ?thesis
    proof (cases "j = i")
      case True
      then have "p0 = q" using i j by (simp add: ps_def)
      with t q have "in_table p" "map_option (rid_of c) (number p) = Some k" by auto
      then show ?thesis using i by (auto simp: ps_def set_update_memI)
    next
      case False
      then show ?thesis using q j by (metis length_list_update nth_list_update_neq nth_mem)
    qed
  qed
  ultimately show ?thesis
    using c ok inv by (simp add: calls_inv_def set_phase_def ps_def)
qed

lemma calls_inv_set_conn:
  assumes inv: "calls_inv s"
    and c: "conn_inv c" "ac_pending c = None \<longrightarrow> ac_done c" "rid_of c = rid_of (cl_conn s)"
      "ac_request_id c = ac_request_id (cl_conn s)"
    and ok: "\<And>p. p \<in> set (cl_phases s) \<Longrightarrow> phase_ok (cl_conn s) p \<Longrightarrow> phase_ok c p"
    and table: "\<And>k. lookup_pending c k \<noteq> None \<Longrightarrow> lookup_pending (cl_conn s) k \<noteq> None"
  shows "calls_inv (s\<lparr>cl_conn := c\<rparr>)"
  using inv c ok table by (simp add: calls_inv_def)

text \<open>A call's condition depends only on the counter, the table and its own channel.\<close>

lemma phase_ok_cong:
  assumes "phase_ok c p" "ac_id c' = ac_id c" "unat (ac_request_id c) \<le> unat (ac_request_id c')"
    and "\<And>n ch. number p = Some n \<Longrightarrow> channel p = Some ch \<Longrightarrow>
       ch < length (ac_chans c) \<Longrightarrow> ch < length (ac_chans c') \<and> ac_chans c' ! ch = ac_chans c ! ch \<and>
         lookup_pending c' (rid_of c n) = lookup_pending c (rid_of c n) \<and>
         (ac_pending c = None \<longrightarrow> ac_pending c' = None)"
  shows "phase_ok c' p"
proof -
  have "rid_of c' = rid_of c" "own_reply c' = own_reply c"
    using assms(2) by (auto simp: rid_of_def own_reply_def fun_eq_iff)
  then show ?thesis using assms(1,3,4) unfolding phase_ok_def by fastforce
qed

lemma calls_inv_draw:
  assumes "calls_inv s" "at_phase s i Called" "next_request_id (cl_conn s) = (c, rid)"
  shows "calls_inv (set_phase s c i (Named (ac_request_id c)))"
proof -
  let ?c = "cl_conn s"
  have c: "c = ?c\<lparr>ac_request_id := ac_request_id ?c + 1\<rparr>"
    using assms(3) by (simp add: next_request_id_def Let_def)
  have "length (filter (\<lambda>p. p \<noteq> Called) (cl_phases s)) < length (cl_phases s)"
    using at_phase_mem [OF assms(2)] by (auto intro!: length_filter_less [of Called])
  then have small: "unat (ac_request_id ?c) + 1 < 2 ^ 64" using assms(1) by (simp add: calls_inv_def)
  then have up: "unat (ac_request_id ?c + 1) = unat (ac_request_id ?c) + 1"
    by (simp add: unat_word_ariths)
  have l: "lookup_pending c = lookup_pending ?c" by (simp add: c lookup_pending_def fun_eq_iff)
  show ?thesis
  proof (rule calls_inv_set_phase [OF assms(1)])
    show "i < length (cl_phases s)" "cl_phases s ! i = Called" using assms(2) by (simp_all add: at_phase_def)
    show "conn_inv c" using conn_inv_next_id [OF calls_invD(1) [OF assms(1)]] assms(3) by (metis fst_conv)
    show "ac_pending c = None \<longrightarrow> ac_done c" using calls_invD(2) [OF assms(1)] by (simp add: c)
    show r: "rid_of c = rid_of ?c" by (simp add: c rid_of_def fun_eq_iff)
    show "phase_ok c (Named (ac_request_id c))" by (simp add: phase_ok_def)
    show "phase_ok c q \<and> separate (Named (ac_request_id c)) q \<and> separate q (Named (ac_request_id c))"
      if "phase_ok ?c q" for q
    proof -
      have "phase_ok c q"
        by (rule phase_ok_cong [OF that]) (use up l in \<open>simp_all add: c\<close>)
      moreover have "number q \<noteq> Some (ac_request_id c)"
      proof
        assume "number q = Some (ac_request_id c)"
        then have "unat (ac_request_id c) \<le> unat (ac_request_id ?c)" using that by (simp add: phase_ok_def)
        then show False using up by (simp add: c)
      qed
      ultimately show ?thesis by (auto simp: separate_def)
    qed
  qed (use up l in \<open>simp_all add: c\<close>)
qed

lemma calls_inv_register:
  assumes "calls_inv s" "at_phase s i (Named n)"
    and "register_pending (cl_conn s) (rid_of (cl_conn s) n) = Some (c, ch)"
  shows "calls_inv (set_phase s c i (Queueing n ch))"
proof -
  let ?c = "cl_conn s" and ?rid = "rid_of (cl_conn s) n"
  obtain ps where ps: "ac_pending ?c = Some ps" "ch = length (ac_chans ?c)"
    "c = ?c\<lparr>ac_pending := Some (assoc_put ?rid ch ps), ac_chans := ac_chans ?c @ [new_chan]\<rparr>"
    using assms(3) by (auto simp: register_pending_def split: option.splits)
  have l: "lookup_pending c k = (if k = ?rid then Some ch else lookup_pending ?c k)" for k
    using ps by (simp add: lookup_pending_def)
  have n: "Named n \<in> set (cl_phases s)" using assms(2) by (rule at_phase_mem)
  show ?thesis
  proof (rule calls_inv_set_phase [OF assms(1)])
    show "i < length (cl_phases s)" "cl_phases s ! i = Named n" using assms(2) by (simp_all add: at_phase_def)
    show "conn_inv c" using conn_inv_register [OF calls_invD(1) [OF assms(1)] assms(3)] .
    show "rid_of c = rid_of ?c" by (simp add: ps rid_of_def fun_eq_iff)
    show "phase_ok c (Queueing n ch)"
      using calls_invD(3) [OF assms(1) n] l ps by (simp add: phase_ok_def rid_of_def)
    show "phase_ok c q \<and> separate (Queueing n ch) q \<and> separate q (Queueing n ch)"
      if q: "separate (Named n) q" "separate q (Named n)" "phase_ok ?c q" for q
    proof -
      have nq: "number q \<noteq> Some n" using q(1) by (simp add: separate_def)
      have "channel q \<noteq> Some ch"
        using q(3) ps(2) by (cases q) (auto simp: phase_ok_def)
      moreover have "phase_ok c q"
        by (rule phase_ok_cong [OF q(3)])
          (use nq l ps in \<open>auto simp: rid_of_inject nth_append\<close>)
      ultimately show ?thesis using nq by (auto simp: separate_def)
    qed
    show "\<And>k. lookup_pending c k \<noteq> None \<Longrightarrow>
        (lookup_pending ?c k \<noteq> None \<and> (in_table (Named n) \<longrightarrow>
            number (Named n) = number (Queueing n ch) \<and> in_table (Queueing n ch) \<or>
           map_option (rid_of c) (number (Named n)) \<noteq> Some k)) \<or>
        in_table (Queueing n ch) \<and> map_option (rid_of c) (number (Queueing n ch)) = Some k"
      using l by (auto simp: ps(3) rid_of_def split: if_splits)
  qed (simp_all add: ps)
qed

text \<open>Steps of one call that leave the connection's counter, table and channels alone.\<close>

lemma calls_inv_move:
  assumes "calls_inv s" "at_phase s i p0" "conn_inv c"
    and "ac_id c = ac_id (cl_conn s)" "ac_request_id c = ac_request_id (cl_conn s)"
    "ac_pending c = ac_pending (cl_conn s)" "ac_chans c = ac_chans (cl_conn s)"
    "ac_done c = ac_done (cl_conn s)"
    and "number p = number p0" "number p \<noteq> None" "channel p = channel p0 \<or> channel p = None"
    and "in_table p0 \<longrightarrow> in_table p" "reply_of p = None"
  shows "calls_inv (set_phase s c i p)"
proof -
  have l: "lookup_pending c = lookup_pending (cl_conn s)" using assms(6) by (simp add: lookup_pending_def fun_eq_iff)
  have r: "rid_of c = rid_of (cl_conn s)" using assms(4) by (simp add: rid_of_def fun_eq_iff)
  have p0: "p0 \<in> set (cl_phases s)" using assms(2) by (auto simp: at_phase_def)
  have old: "phase_ok c q" if "phase_ok (cl_conn s) q" for q
    by (rule phase_ok_cong [OF that]) (simp_all add: assms l)
  have kinds: "p0 \<noteq> Called" "p \<noteq> Called" using assms(9,10) by auto
  show ?thesis
  proof (rule calls_inv_set_phase [OF assms(1)])
    show "i < length (cl_phases s)" "cl_phases s ! i = p0" using assms(2) by (simp_all add: at_phase_def)
    show "phase_ok c p"
      using old [OF calls_invD(3) [OF assms(1) p0]] assms(9,11,13) unfolding phase_ok_def by auto
    show "phase_ok c q \<and> separate p q \<and> separate q p"
      if "separate p0 q" "separate q p0" "phase_ok (cl_conn s) q" for q
      using old [OF that(3)] that(1,2) assms(9,11) unfolding separate_def by auto
    show "ac_pending c = None \<longrightarrow> ac_done c" using calls_invD(2) [OF assms(1)] assms(6,8) by simp
  qed (use assms(3,5,9,12) l r kinds in auto)
qed

lemma calls_inv_reply:
  assumes "calls_inv s" "at_phase s i (Waiting n ch)" "rc_buf (ac_chans (cl_conn s) ! ch) = Some v"
  shows "calls_inv (set_phase s (take_reply (cl_conn s) ch) i (Finishing n (Reply v)))"
proof -
  let ?c = "cl_conn s" and ?c' = "take_reply (cl_conn s) ch"
  have p0: "Waiting n ch \<in> set (cl_phases s)" using assms(2) by (rule at_phase_mem)
  note ci = calls_invD(1) [OF assms(1)]
  have w: "phase_ok ?c (Waiting n ch)" using calls_invD(3) [OF assms(1) p0] .
  have fresh: "ac_chans ?c ! r = new_chan" if "lookup_pending ?c k = Some r" for k r
    using ci that pending_ok_lookup(2) by (auto simp: conn_inv_def lookup_pending_def split: option.splits)
  have ans: "ac_chans ?c ! ch = answered v \<and> own_reply ?c n v"
  proof -
    have "ac_chans ?c ! ch \<noteq> new_chan" "ac_chans ?c ! ch \<noteq> new_chan\<lparr>rc_closed := True\<rparr>"
      using assms(3) by (auto simp: new_chan_def)
    then obtain v' where "ac_chans ?c ! ch = answered v'" "own_reply ?c n v'"
      using w fresh unfolding phase_ok_def by fastforce
    then show ?thesis using assms(3) by (simp add: answered_def)
  qed
  have l: "lookup_pending ?c' = lookup_pending ?c" by (simp add: take_reply_def lookup_pending_def fun_eq_iff)
  have same: "rid_of ?c' = rid_of ?c" "own_reply ?c' = own_reply ?c"
    by (auto simp: take_reply_def rid_of_def own_reply_def fun_eq_iff)
  have "conn_inv ?c'"
  proof -
    have "pending_ok ps (ac_chans ?c')" if "ac_pending ?c = Some ps" for ps
    proof (rule pending_ok_mono)
      show ok: "pending_ok ps (ac_chans ?c)" using ci that by (simp add: conn_inv_def)
      have "ac_chans ?c ! ch \<noteq> new_chan" using ans by (auto simp: answered_def new_chan_def)
      show "\<forall>(k, r)\<in>set ps. ac_chans ?c' ! r = ac_chans ?c ! r"
      proof (clarify)
        fix k r assume "(k, r) \<in> set ps"
        then have "ac_chans ?c ! r = new_chan" using ok by (auto simp: pending_ok_def)
        then have "r \<noteq> ch" using \<open>ac_chans ?c ! ch \<noteq> new_chan\<close> by blast
        then show "ac_chans ?c' ! r = ac_chans ?c ! r" by (simp add: take_reply_def)
      qed
    qed (simp add: take_reply_def)
    then show ?thesis using ci by (simp add: conn_inv_def take_reply_def)
  qed
  note inv' = this
  show ?thesis
  proof (rule calls_inv_set_phase [OF assms(1) _ _ inv' _ same(1)])
    show "i < length (cl_phases s)" "cl_phases s ! i = Waiting n ch"
      using assms(2) by (simp_all add: at_phase_def)
    show "phase_ok ?c' (Finishing n (Reply v))"
      using w ans same by (simp add: phase_ok_def take_reply_def)
    show "phase_ok ?c' q \<and> separate (Finishing n (Reply v)) q \<and> separate q (Finishing n (Reply v))"
      if q: "separate (Waiting n ch) q" "separate q (Waiting n ch)" "phase_ok ?c q" for q
    proof -
      have "phase_ok ?c' q"
        by (rule phase_ok_cong [OF q(3)])
          (use q(1) l in \<open>auto simp: take_reply_def separate_def nth_list_update\<close>)
      then show ?thesis using q(1,2) by (simp add: separate_def)
    qed
    show "ac_pending ?c' = None \<longrightarrow> ac_done ?c'"
      using calls_invD(2) [OF assms(1)] by (simp add: take_reply_def)
  qed (simp_all add: l, simp add: take_reply_def)
qed

lemma calls_inv_cleanup:
  assumes "calls_inv s" "at_phase s i (Finishing n r)"
  shows "calls_inv (set_phase s (cleanup_pending (cl_conn s) (rid_of (cl_conn s) n)) i (Returned n r))"
proof -
  let ?c = "cl_conn s" and ?rid = "rid_of (cl_conn s) n"
  let ?c' = "cleanup_pending ?c ?rid"
  have p0: "Finishing n r \<in> set (cl_phases s)" using assms(2) by (rule at_phase_mem)
  have l: "lookup_pending ?c' k = (if k = ?rid then None else lookup_pending ?c k)" for k
    by (cases "ac_pending ?c") (auto simp: cleanup_pending_def lookup_pending_def)
  have same: "rid_of ?c' = rid_of ?c" "own_reply ?c' = own_reply ?c"
    by (auto simp: cleanup_pending_def rid_of_def own_reply_def fun_eq_iff)
  have rep: "reply_of (Returned n r) = reply_of (Finishing n r)" by (cases r) auto
  show ?thesis
  proof (rule calls_inv_set_phase [OF assms(1) _ _ _ _ same(1)])
    show "i < length (cl_phases s)" "cl_phases s ! i = Finishing n r"
      using assms(2) by (simp_all add: at_phase_def)
    show "conn_inv ?c'" using calls_invD(1) [OF assms(1)] by (rule conn_inv_cleanup)
    show "phase_ok ?c' (Returned n r)"
      using calls_invD(3) [OF assms(1) p0] same rep by (simp add: phase_ok_def cleanup_pending_def)
    show "phase_ok ?c' q \<and> separate (Returned n r) q \<and> separate q (Returned n r)"
      if q: "separate (Finishing n r) q" "separate q (Finishing n r)" "phase_ok ?c q" for q
    proof -
      have "phase_ok ?c' q"
        by (rule phase_ok_cong [OF q(3)])
          (use q(1) l in \<open>auto simp: cleanup_pending_def separate_def rid_of_inject\<close>)
      then show ?thesis using q(1,2) by (simp add: separate_def)
    qed
    show "ac_pending ?c' = None \<longrightarrow> ac_done ?c'"
      using calls_invD(2) [OF assms(1)] by (simp add: cleanup_pending_def)
    show "\<And>k. lookup_pending ?c' k \<noteq> None \<Longrightarrow>
        (lookup_pending ?c k \<noteq> None \<and> (in_table (Finishing n r) \<longrightarrow>
            number (Finishing n r) = number (Returned n r) \<and> in_table (Returned n r) \<or>
           map_option (rid_of ?c') (number (Finishing n r)) \<noteq> Some k)) \<or>
        in_table (Returned n r) \<and> map_option (rid_of ?c') (number (Returned n r)) = Some k"
      using l same(1) by (auto split: if_splits)
  qed (simp_all add: cleanup_pending_def)
qed

lemma calls_inv_deliver:
  assumes "calls_inv s" "deliver_response (cl_conn s) rid resp = Some c" "rs_id resp = Some (JStr rid)"
  shows "calls_inv (s\<lparr>cl_conn := c\<rparr>)"
proof (cases "lookup_pending (cl_conn s) rid")
  case None
  then have "c = cl_conn s" using assms(2) deliver_response_inv [OF calls_invD(1) [OF assms(1)]] by simp
  moreover have "s\<lparr>cl_conn := cl_conn s\<rparr> = s" by simp
  ultimately show ?thesis using assms(1) by metis
next
  case (Some r)
  let ?c = "cl_conn s"
  note ci = calls_invD(1) [OF assms(1)]
  have c: "c = (cleanup_pending ?c rid)\<lparr>ac_chans := (ac_chans ?c)[r := answered resp]\<rparr>"
    using assms(2) deliver_response_inv [OF ci] Some by simp
  obtain ps where ps: "ac_pending ?c = Some ps" "map_of ps rid = Some r"
    using Some by (auto simp: lookup_pending_def split: option.splits)
  have new: "ac_chans ?c ! r = new_chan" "r < length (ac_chans ?c)"
    using ci ps pending_ok_lookup by (auto simp: conn_inv_def)
  have l: "lookup_pending c k = (if k = rid then None else lookup_pending ?c k)" for k
    by (cases "ac_pending ?c") (auto simp: c cleanup_pending_def lookup_pending_def)
  have other: "ch \<noteq> r" if "lookup_pending ?c k = Some ch" "k \<noteq> rid" for k ch
  proof -
    have "r \<notin> snd ` set (assoc_del rid ps)"
      by (rule pending_ok_lookup(3) [OF _ ps(2), of "ac_chans ?c"]) (use ci ps(1) in \<open>simp add: conn_inv_def\<close>)
    moreover have "(k, ch) \<in> set (assoc_del rid ps)"
      using that ps map_of_SomeD by (fastforce simp: lookup_pending_def set_assoc_del)
    ultimately show ?thesis by force
  qed
  have same: "rid_of c = rid_of ?c" "own_reply c = own_reply ?c"
    by (auto simp: c cleanup_pending_def rid_of_def own_reply_def fun_eq_iff)
  show ?thesis
  proof (rule calls_inv_set_conn [OF assms(1)])
    show "conn_inv c" using conn_inv_deliver [OF ci assms(2)] .
    show "ac_pending c = None \<longrightarrow> ac_done c" by (simp add: c cleanup_pending_def ps)
    show "phase_ok c p" if "phase_ok ?c p" for p
      unfolding phase_ok_def
    proof (intro allI impI conjI)
      fix n ch assume p: "number p = Some n" "channel p = Some ch"
      have old: "ch < length (ac_chans ?c)"
        "lookup_pending ?c (rid_of ?c n) = Some ch \<or> lookup_pending ?c (rid_of ?c n) = None \<and>
          ((\<exists>v. ac_chans ?c ! ch = answered v \<and> own_reply ?c n v) \<or>
           ac_pending ?c = None \<and> ac_chans ?c ! ch = new_chan\<lparr>rc_closed := True\<rparr>)"
        using that p by (auto simp: phase_ok_def)
      show "ch < length (ac_chans c)" using old by (simp add: c)
      show "lookup_pending c (rid_of c n) = Some ch \<or> lookup_pending c (rid_of c n) = None \<and>
          ((\<exists>v. ac_chans c ! ch = answered v \<and> own_reply c n v) \<or>
           ac_pending c = None \<and> ac_chans c ! ch = new_chan\<lparr>rc_closed := True\<rparr>)"
      proof (cases "lookup_pending ?c (rid_of ?c n) = Some ch")
        case True
        show ?thesis
        proof (cases "rid_of ?c n = rid")
          case True
          then have "ac_chans c ! ch = answered resp" "own_reply c n resp"
            using \<open>lookup_pending ?c (rid_of ?c n) = Some ch\<close> Some new(2) assms(3) same
            by (simp_all add: c own_reply_def)
          then show ?thesis using l same True by auto
        next
          case False
          then show ?thesis using True l same by simp
        qed
      next
        case False
        then obtain v where v: "lookup_pending ?c (rid_of ?c n) = None" "ac_chans ?c ! ch = answered v"
            "own_reply ?c n v"
          using old(2) ps by auto
        then have "ch \<noteq> r" using new(1) by (auto simp: answered_def new_chan_def)
        then have "ac_chans c ! ch = answered v" using v(2) by (simp add: c)
        then show ?thesis using v l same by auto
      qed
    qed (use that same in \<open>auto simp: phase_ok_def c cleanup_pending_def\<close>)
    show "\<And>k. lookup_pending c k \<noteq> None \<Longrightarrow> lookup_pending ?c k \<noteq> None" using l by (auto split: if_splits)
  qed (simp_all add: same, simp add: c cleanup_pending_def)
qed

lemma calls_inv_quiet:
  assumes "calls_inv s" "conn_inv c" "ac_pending c = ac_pending (cl_conn s)" "ac_chans c = ac_chans (cl_conn s)"
    "ac_id c = ac_id (cl_conn s)" "ac_request_id c = ac_request_id (cl_conn s)"
    "ac_done (cl_conn s) \<longrightarrow> ac_done c"
  shows "calls_inv (s\<lparr>cl_conn := c\<rparr>)"
proof (rule calls_inv_set_conn [OF assms(1,2)])
  have l: "lookup_pending c = lookup_pending (cl_conn s)" using assms(3) by (simp add: lookup_pending_def fun_eq_iff)
  show "phase_ok c p" if "phase_ok (cl_conn s) p" for p
    by (rule phase_ok_cong [OF that]) (simp_all add: assms l)
  show "\<And>k. lookup_pending c k \<noteq> None \<Longrightarrow> lookup_pending (cl_conn s) k \<noteq> None" by (simp add: l)
  show "ac_pending c = None \<longrightarrow> ac_done c" using calls_invD(2) [OF assms(1)] assms(3,7) by simp
qed (simp_all add: assms rid_of_def fun_eq_iff)

lemma calls_inv_read:
  assumes "calls_inv s" "handle_incoming_message (cl_conn s) msg = Some c"
  shows "calls_inv (s\<lparr>cl_conn := c\<rparr>)"
proof (cases "incoming_answer msg")
  case None
  define req where "req = unmarshal dec_request zero_request msg"
  have "c = cl_conn s \<or> (\<exists>r. c = handle_request (cl_conn s) r)"
    using assms(2) None by (auto simp: handle_incoming_cases split: option.splits if_splits)
  then show ?thesis
  proof
    assume "c = cl_conn s"
    then show ?thesis using assms(1) by simp
  next
    assume "\<exists>r. c = handle_request (cl_conn s) r"
    then obtain r where c: "c = handle_request (cl_conn s) r" by blast
    show ?thesis
      unfolding c by (rule calls_inv_quiet [OF assms(1)])
        (simp_all add: conn_inv_handle_request calls_invD(1) [OF assms(1)])
  qed
next
  case (Some p)
  obtain rid resp where p: "p = (rid, resp)" by force
  have "rs_id resp = Some (JStr rid)"
    using Some by (auto simp: incoming_answer_def p split: option.splits if_splits json.splits)
  then show ?thesis
    using calls_inv_deliver [OF assms(1)] assms(2) Some by (simp add: handle_incoming_cases p)
qed

lemma calls_inv_close:
  assumes "calls_inv s" "close_pending (cl_conn s) = Some c" "ac_done (cl_conn s)"
  shows "calls_inv (s\<lparr>cl_conn := c\<rparr>)"
proof -
  let ?c = "cl_conn s"
  have c: "conn_inv c" "ac_pending c = None" "length (ac_chans c) = length (ac_chans ?c)" "ac_id c = ac_id ?c"
    "ac_done c = ac_done ?c" "ac_request_id c = ac_request_id ?c"
    "\<forall>i < length (ac_chans ?c). ac_chans c ! i =
       (if \<exists>k. lookup_pending ?c k = Some i then new_chan\<lparr>rc_closed := True\<rparr> else ac_chans ?c ! i)"
    by (rule close_pending_ok [OF calls_invD(1) [OF assms(1)]], use assms(2) in auto)+
  have fresh: "ac_chans ?c ! r = new_chan" if "lookup_pending ?c k = Some r" for k r
    using calls_invD(1) [OF assms(1)] that pending_ok_lookup(2)
    by (auto simp: conn_inv_def lookup_pending_def split: option.splits)
  have l: "lookup_pending c k = None" for k using c(2) by (simp add: lookup_pending_def)
  have same: "rid_of c = rid_of ?c" "own_reply c = own_reply ?c"
    by (auto simp: c rid_of_def own_reply_def fun_eq_iff)
  show ?thesis
  proof (rule calls_inv_set_conn [OF assms(1) c(1)])
    show "phase_ok c p" if "phase_ok ?c p" for p
      unfolding phase_ok_def
    proof (intro allI impI conjI)
      fix n ch assume p: "number p = Some n" "channel p = Some ch"
      have old: "ch < length (ac_chans ?c)"
        "lookup_pending ?c (rid_of ?c n) = Some ch \<or>
          (\<exists>v. ac_chans ?c ! ch = answered v \<and> own_reply ?c n v) \<or>
           ac_chans ?c ! ch = new_chan\<lparr>rc_closed := True\<rparr>"
        using that p by (auto simp: phase_ok_def)
      show "ch < length (ac_chans c)" using old c(3) by simp
      show "lookup_pending c (rid_of c n) = Some ch \<or> lookup_pending c (rid_of c n) = None \<and>
          ((\<exists>v. ac_chans c ! ch = answered v \<and> own_reply c n v) \<or>
           ac_pending c = None \<and> ac_chans c ! ch = new_chan\<lparr>rc_closed := True\<rparr>)"
        using old(2)
      proof (elim disjE)
        assume "lookup_pending ?c (rid_of ?c n) = Some ch"
        then show ?thesis using c(2,7) old(1) l by auto
      next
        assume a: "\<exists>v. ac_chans ?c ! ch = answered v \<and> own_reply ?c n v"
        then have "\<not> (\<exists>k. lookup_pending ?c k = Some ch)"
          using fresh by (force simp: answered_def new_chan_def)
        then show ?thesis using a c(7) old(1) l same by simp
      next
        assume "ac_chans ?c ! ch = new_chan\<lparr>rc_closed := True\<rparr>"
        then show ?thesis using c(2,7) old(1) l by auto
      qed
    qed (use that same c in \<open>auto simp: phase_ok_def\<close>)
  qed (use c same l assms(3) in auto)
qed

lemma calls_inv_begin:
  assumes "calls_inv s" "Suc (length (cl_phases s)) < 2 ^ 64"
  shows "calls_inv (s\<lparr>cl_phases := cl_phases s @ [Called]\<rparr>)"
proof -
  let ?ps = "cl_phases s @ [Called]"
  have "separate (?ps ! i) (?ps ! j)" if "i < length ?ps" "j < length ?ps" "i \<noteq> j" for i j
  proof (cases "i < length (cl_phases s) \<and> j < length (cl_phases s)")
    case True
    then show ?thesis using calls_invD(4) [OF assms(1)] that(3) by (simp add: nth_append)
  next
    case False
    then have "?ps ! i = Called \<or> ?ps ! j = Called" using that by (auto simp: nth_append)
    then show ?thesis by (auto simp: separate_def)
  qed
  moreover have "phase_ok (cl_conn s) Called" by (simp add: phase_ok_def)
  moreover have "\<exists>p\<in>set ?ps. in_table p \<and> map_option (rid_of (cl_conn s)) (number p) = Some k"
    if "lookup_pending (cl_conn s) k \<noteq> None" for k
  proof -
    have "\<exists>p\<in>set (cl_phases s). in_table p \<and> map_option (rid_of (cl_conn s)) (number p) = Some k"
      using assms(1) that by (simp add: calls_inv_def)
    then show ?thesis by simp
  qed
  ultimately show ?thesis using assms unfolding calls_inv_def by simp
qed

lemma call_step_inv: "call_step s t \<Longrightarrow> calls_inv s \<Longrightarrow> calls_inv t"
proof (induction rule: call_step.induct)
  case (begin_call s)
  then show ?case by (intro calls_inv_begin)
next
  case (draw_id s i c rid)
  then show ?case by (intro calls_inv_draw)
next
  case (registered s i n c ch)
  then show ?case by (intro calls_inv_register)
next
  case (refused s i n)
  then show ?case by (intro calls_inv_move [of s i "Named n"]) (simp_all add: calls_invD(1))
next
  case (queued s i n ch msg)
  then show ?case
    by (intro calls_inv_move [of s i "Queueing n ch"]) (simp_all add: calls_invD(1) conn_inv_try_send)
next
  case (queue_closed s i n ch)
  then show ?case by (intro calls_inv_move [of s i "Queueing n ch"]) (simp_all add: calls_invD(1))
next
  case (queue_ended s i n ch)
  then show ?case by (intro calls_inv_move [of s i "Queueing n ch"]) (simp_all add: calls_invD(1))
next
  case (got_reply s i n ch v)
  then show ?case by (intro calls_inv_reply)
next
  case (wait_closed s i n ch)
  then show ?case by (intro calls_inv_move [of s i "Waiting n ch"]) (simp_all add: calls_invD(1))
next
  case (wait_ended s i n ch)
  then show ?case by (intro calls_inv_move [of s i "Waiting n ch"]) (simp_all add: calls_invD(1))
next
  case (cleaned s i n r)
  then show ?case by (intro calls_inv_cleanup)
next
  case (read_message s msg c)
  then show ?case by (intro calls_inv_read)
next
  case (written s msg c)
  have "conn_inv c" using conn_inv_take_send written calls_invD(1) by blast
  then show ?case
    by (rule calls_inv_quiet [OF written.prems])
      (use written.hyps in \<open>auto simp: take_send_def split: list.splits\<close>)
next
  case (close_first s)
  then show ?case
    by (intro calls_inv_quiet conn_inv_close_done) (simp_all add: calls_invD(1), simp_all add: close_done_def)
next
  case (close_second s c)
  then show ?case by (intro calls_inv_close)
qed

lemma calls_reachable_inv: "call_step\<^sup>*\<^sup>* (new_calls agent) s \<Longrightarrow> calls_inv s"
  by (induction rule: rtranclp_induct) (auto intro: calls_inv_new call_step_inv)

section \<open>Progress\<close>

fun returned :: "phase \<Rightarrow> bool" where
  "returned (Returned n r) = True"
| "returned _ = False"

text \<open>A step that the call itself takes, and not because its context ended.\<close>

definition own_step :: "nat \<Rightarrow> calls \<Rightarrow> calls \<Rightarrow> bool" where
  "own_step i s t \<longleftrightarrow> call_step s t \<and> cl_phases t ! i \<noteq> cl_phases s ! i \<and>
     (\<forall>n. cl_phases t ! i \<noteq> Finishing n CtxEnded)"

lemma closed_chan:
  assumes "calls_inv s" "at_phase s i (Waiting n ch)" "ac_pending (cl_conn s) = None"
  shows "rc_closed (ac_chans (cl_conn s) ! ch)"
proof -
  have "phase_ok (cl_conn s) (Waiting n ch)" using calls_invD(3) [OF assms(1) at_phase_mem [OF assms(2)]] .
  moreover have "lookup_pending (cl_conn s) k = None" for k using assms(3) by (simp add: lookup_pending_def)
  ultimately show ?thesis by (auto simp: phase_ok_def answered_def new_chan_def)
qed

text \<open>How far a call is from returning.\<close>

fun phase_rank :: "phase \<Rightarrow> nat" where
  "phase_rank Called = 5"
| "phase_rank (Named n) = 4"
| "phase_rank (Queueing n ch) = 3"
| "phase_rank (Waiting n ch) = 2"
| "phase_rank (Finishing n r) = 1"
| "phase_rank (Returned n r) = 0"

lemma set_phase_simps [simp]:
  "cl_conn (set_phase s c i p) = c" "length (cl_phases (set_phase s c i p)) = length (cl_phases s)"
  "i < length (cl_phases s) \<Longrightarrow> cl_phases (set_phase s c i p) ! i = p"
  by (simp_all add: set_phase_def)

lemma closed_call_step:
  assumes "calls_inv s" "ac_pending (cl_conn s) = None" "i < length (cl_phases s)" "\<not> returned (cl_phases s ! i)"
  shows "\<exists>c p. call_step s (set_phase s c i p) \<and> phase_rank p < phase_rank (cl_phases s ! i) \<and>
    ac_pending c = None \<and> (\<forall>n. p \<noteq> Finishing n CtxEnded)"
proof (cases "cl_phases s ! i")
  case Called
  obtain c rid where c: "next_request_id (cl_conn s) = (c, rid)" by force
  have "call_step s (set_phase s c i (Named (ac_request_id c)))"
    using assms(3) Called c by (intro draw_id) (simp_all add: at_phase_def)
  moreover have "ac_pending c = None" using c assms(2) by (auto simp: next_request_id_def Let_def)
  ultimately show ?thesis using Called by force
next
  case (Named n)
  have "call_step s (set_phase s (cl_conn s) i (Returned n NotOpen))"
    using assms(2,3) Named by (intro refused) (simp_all add: at_phase_def register_pending_def)
  then show ?thesis using Named assms(2) by force
next
  case (Queueing n ch)
  have "call_step s (set_phase s (cl_conn s) i (Finishing n SendClosed))"
    using assms Queueing calls_invD(2) by (intro queue_closed) (auto simp: at_phase_def)
  then show ?thesis using Queueing assms(2) by force
next
  case (Waiting n ch)
  then have at: "at_phase s i (Waiting n ch)" using assms(3) by (simp add: at_phase_def)
  show ?thesis
  proof (cases "rc_buf (ac_chans (cl_conn s) ! ch)")
    case None
    have "call_step s (set_phase s (cl_conn s) i (Finishing n WaitClosed))"
      using at None closed_chan [OF assms(1) at assms(2)] by (rule wait_closed)
    then show ?thesis using Waiting assms(2) by force
  next
    case (Some v)
    have "call_step s (set_phase s (take_reply (cl_conn s) ch) i (Finishing n (Reply v)))"
      using at Some by (rule got_reply)
    moreover have "ac_pending (take_reply (cl_conn s) ch) = None" using assms(2) by (simp add: take_reply_def)
    ultimately show ?thesis using Waiting by force
  qed
next
  case (Finishing n r)
  have "call_step s (set_phase s (cleanup_pending (cl_conn s) (rid_of (cl_conn s) n)) i (Returned n r))"
    using assms(3) Finishing by (intro cleaned) (simp add: at_phase_def)
  moreover have "ac_pending (cleanup_pending (cl_conn s) (rid_of (cl_conn s) n)) = None"
    using assms(2) by (simp add: cleanup_pending_def)
  ultimately show ?thesis using Finishing by force
next
  case (Returned n r)
  then show ?thesis using assms(4) by simp
qed

lemma closed_call_returns:
  assumes "calls_inv s" "ac_pending (cl_conn s) = None" "i < length (cl_phases s)"
  shows "\<exists>t. (own_step i)\<^sup>*\<^sup>* s t \<and> returned (cl_phases t ! i)"
  using assms
proof (induction "phase_rank (cl_phases s ! i)" arbitrary: s rule: less_induct)
  case less
  show ?case
  proof (cases "returned (cl_phases s ! i)")
    case True
    then show ?thesis by blast
  next
    case False
    obtain c p where p: "call_step s (set_phase s c i p)" "phase_rank p < phase_rank (cl_phases s ! i)"
      "ac_pending c = None" "\<forall>n. p \<noteq> Finishing n CtxEnded"
      using closed_call_step [OF less.prems False] by blast
    let ?t = "set_phase s c i p"
    have "own_step i s ?t" using p less.prems(3) by (auto simp: own_step_def)
    moreover obtain u where "(own_step i)\<^sup>*\<^sup>* ?t u" "returned (cl_phases u ! i)"
      using less.hyps [of ?t] call_step_inv [OF p(1) less.prems(1)] less.prems(3) p(2,3) by auto
    ultimately show ?thesis by (meson converse_rtranclp_into_rtranclp)
  qed
qed

section \<open>Properties\<close>



text \<open>C3: Answers reach the right caller. A reply a call returns carries exactly the identifier that
  call drew, no two calls ever draw the same identifier, and calls whose channels are in use have
  different channels, so no answer is delivered to two calls.\<close>

theorem replies_are_own:
  assumes "call_step\<^sup>*\<^sup>* (new_calls agent) s" "i < length (cl_phases s)"
  shows "(\<forall>n v. cl_phases s ! i = Returned n (Reply v) \<longrightarrow> rs_id v = Some (JStr (rid_of (cl_conn s) n))) \<and>
    (\<forall>j < length (cl_phases s). j \<noteq> i \<longrightarrow>
       (\<forall>m n. number (cl_phases s ! i) = Some m \<longrightarrow> number (cl_phases s ! j) = Some n \<longrightarrow>
          rid_of (cl_conn s) m \<noteq> rid_of (cl_conn s) n) \<and>
       (\<forall>ch. channel (cl_phases s ! i) = Some ch \<longrightarrow> channel (cl_phases s ! j) \<noteq> Some ch))"
proof -
  note inv = calls_reachable_inv [OF assms(1)]
  have "phase_ok (cl_conn s) (cl_phases s ! i)" using calls_invD(3) [OF inv nth_mem [OF assms(2)]] .
  then have "\<forall>n v. cl_phases s ! i = Returned n (Reply v) \<longrightarrow> rs_id v = Some (JStr (rid_of (cl_conn s) n))"
    by (auto simp: phase_ok_def own_reply_def)
  moreover have "separate (cl_phases s ! i) (cl_phases s ! j)" if "j < length (cl_phases s)" "j \<noteq> i" for j
    using calls_invD(4) [OF inv assms(2) that(1)] that(2) by simp
  ultimately show ?thesis by (auto simp: separate_def rid_of_inject)
qed

text \<open>A whole call: begun, named, registered, queued, answered by the satellite, returned.\<close>

definition sample_reply :: rpc_response where
  "sample_reply = \<lparr>rs_jsonrpc = ''2.0'', rs_result = Some (JStr ''ok''), rs_error = None, rs_id = Some (JStr ''s1-1'')\<rparr>"

definition sample_conn :: "(string \<times> nat) list \<Rightarrow> reply_chan list \<Rightarrow> json list \<Rightarrow> agent_conn" where
  "sample_conn ps chs msgs = \<lparr>ac_id = ''s1'', ac_send = msgs, ac_done = False, ac_open = True,
     ac_request_id = 1, ac_pending = Some ps, ac_chans = chs\<rparr>"

definition answered_call :: calls where
  "answered_call = \<lparr>cl_conn = sample_conn [] [\<lparr>rc_buf = None, rc_closed = True\<rparr>] [JNull],
     cl_phases = [Returned 1 (Reply sample_reply)]\<rparr>"

lemma sample_rid: "rid_of (sample_conn ps chs msgs) 1 = ''s1-1''"
proof -
  have "nat_digits 1 = ''1''" by code_simp
  then show ?thesis by (simp add: rid_of_def sample_conn_def request_name_def)
qed

lemma sample_incoming: "incoming_answer (Some (enc_response sample_reply)) = Some (''s1-1'', sample_reply)"
proof -
  have "unmarshal dec_response zero_response (Some (enc_response sample_reply)) = Some sample_reply"
    by (simp add: sample_reply_def dec_response_def enc_response_def zero_response_def codec_defs codec_simps)
  then show ?thesis by (simp add: incoming_answer_def) (simp add: sample_reply_def)
qed

lemma answered_call_reachable: "call_step\<^sup>*\<^sup>* (new_calls ''s1'') answered_call"
proof -
  define st where "st c p = \<lparr>cl_conn = c, cl_phases = [p]\<rparr>" for c :: agent_conn and p :: phase
  have at: "at_phase (st c p) 0 p" for c p by (simp add: at_phase_def st_def)
  have set: "set_phase (st c p) c' 0 p' = st c' p'" for c p c' p' by (simp add: set_phase_def st_def)
  have conn: "cl_conn (st c p) = c" for c p by (simp add: st_def)
  let ?ch = "new_chan" and ?done = "\<lparr>rc_buf = None, rc_closed = True\<rparr>"
  have "call_step (new_calls ''s1'') (st (new_agent_connection ''s1'') Called)"
    using begin_call [of "new_calls ''s1''"] by (simp add: new_calls_def st_def)
  moreover have "call_step (st (new_agent_connection ''s1'') Called) (st (sample_conn [] [] []) (Named 1))"
    using draw_id [OF at, of "new_agent_connection ''s1''"]
    by (simp add: set conn next_request_id_def Let_def new_agent_connection_def sample_conn_def)
  moreover have "call_step (st (sample_conn [] [] []) (Named 1)) (st (sample_conn [(''s1-1'', 0)] [?ch] []) (Queueing 1 0))"
    using registered [OF at, of "sample_conn [] [] []" 1]
    by (simp add: set conn sample_rid register_pending_def) (simp add: sample_conn_def)
  moreover have "call_step (st (sample_conn [(''s1-1'', 0)] [?ch] []) (Queueing 1 0))
      (st (sample_conn [(''s1-1'', 0)] [?ch] [JNull]) (Waiting 1 0))"
    using queued [OF at, of "sample_conn [(''s1-1'', 0)] [?ch] []" 1 0 JNull]
    by (simp add: set conn sample_conn_def send_cap_def try_send_def)
  moreover have "call_step (st (sample_conn [(''s1-1'', 0)] [?ch] [JNull]) (Waiting 1 0))
      (st (sample_conn [] [answered sample_reply] [JNull]) (Waiting 1 0))"
  proof -
    have "handle_incoming_message (sample_conn [(''s1-1'', 0)] [?ch] [JNull]) (Some (enc_response sample_reply)) =
        Some (sample_conn [] [answered sample_reply] [JNull])"
      by (simp add: handle_incoming_cases sample_incoming deliver_response_def sample_conn_def chan_send_def
          chan_close_def new_chan_def answered_def cleanup_pending_def assoc_del_def)
    from read_message [of "st (sample_conn [(''s1-1'', 0)] [?ch] [JNull]) (Waiting 1 0)", unfolded conn, OF this]
    show ?thesis by (simp add: st_def)
  qed
  moreover have "call_step (st (sample_conn [] [answered sample_reply] [JNull]) (Waiting 1 0))
      (st (sample_conn [] [?done] [JNull]) (Finishing 1 (Reply sample_reply)))"
    using got_reply [OF at, of "sample_conn [] [answered sample_reply] [JNull]" 1 0 sample_reply]
    by (simp add: set conn take_reply_def) (simp add: sample_conn_def answered_def)
  moreover have "call_step (st (sample_conn [] [?done] [JNull]) (Finishing 1 (Reply sample_reply)))
      (st (sample_conn [] [?done] [JNull]) (Returned 1 (Reply sample_reply)))"
    using cleaned [OF at, of "sample_conn [] [?done] [JNull]" 1 "Reply sample_reply"]
    by (simp add: set conn cleanup_pending_def) (simp add: sample_conn_def assoc_del_def)
  ultimately show ?thesis
    unfolding answered_call_def st_def by (meson converse_rtranclp_into_rtranclp rtranclp.rtrancl_refl)
qed

theorem replies_are_own_witness:
  "cl_phases answered_call ! 0 = Returned 1 (Reply sample_reply) \<and>
   rs_id sample_reply = Some (JStr (rid_of (cl_conn answered_call) 1))"
proof -
  have "0 < length (cl_phases answered_call)" by (simp add: answered_call_def)
  from replies_are_own [OF answered_call_reachable this] show ?thesis by (simp add: answered_call_def)
qed

text \<open>C15: Nobody waits for ever and nothing leaks. When the connection closes, every call that has
  not returned can run to its return by its own steps, without its context ending,
  and when all calls have returned the table of pending calls is empty.\<close>

theorem close_wakes_all:
  assumes "call_step\<^sup>*\<^sup>* (new_calls agent) s"
  shows "(ac_pending (cl_conn s) = None \<longrightarrow> (\<forall>i < length (cl_phases s).
      \<exists>t. (own_step i)\<^sup>*\<^sup>* s t \<and> returned (cl_phases t ! i))) \<and>
    ((\<forall>p\<in>set (cl_phases s). returned p) \<longrightarrow> (\<forall>k. lookup_pending (cl_conn s) k = None))"
proof
  note inv = calls_reachable_inv [OF assms]
  show "ac_pending (cl_conn s) = None \<longrightarrow> (\<forall>i < length (cl_phases s).
      \<exists>t. (own_step i)\<^sup>*\<^sup>* s t \<and> returned (cl_phases t ! i))"
    using closed_call_returns [OF inv] by blast
  show "(\<forall>p\<in>set (cl_phases s). returned p) \<longrightarrow> (\<forall>k. lookup_pending (cl_conn s) k = None)"
  proof (intro impI allI)
    fix k assume all: "\<forall>p\<in>set (cl_phases s). returned p"
    have "\<not> in_table p" if "returned p" for p using that by (cases p) auto
    then show "lookup_pending (cl_conn s) k = None" using inv all by (auto simp: calls_inv_def)
  qed
qed

theorem close_wakes_all_witness:
  "\<forall>k. lookup_pending (cl_conn (new_calls ''s1'')) k = None"
proof -
  have "\<forall>p\<in>set (cl_phases (new_calls ''s1'')). returned p" by (simp add: new_calls_def)
  then show ?thesis using close_wakes_all [OF rtranclp.rtrancl_refl, of "''s1''"] by blast
qed

end
