(* ===== verification/HubServer.thy ===== *)
theory HubServer
  imports HubConn KeyFiles
begin

text \<open>
  The hub of \<open>hub/server.go\<close>: the registry of satellite connections, the job schedules and their
  distribution, the peer hubs, and the forwarding of jobs.

  The connections made so far are the list \<open>hb_store\<close>; the registry maps a satellite's name to the
  position of its connection, so that an old connection and the new one of the same satellite are
  different objects. Go's mutex \<open>mu\<close> is not reentrant: \<open>hb_locked\<close> says that it is held by a call
  that will never release it, and a call that needs it then never returns (\<open>None\<close>). Go maps are
  association lists in the order an iteration takes. HTTP requests the hub sends are values of
  \<open>http_out\<close>; the goroutine that sends one is not modelled, nor is logging.
\<close>

section \<open>State\<close>

record hub =
  hb_conns :: "(string \<times> nat) list"
  hb_store :: "agent_conn list"
  hb_locked :: bool
  hb_auth_token :: string
  hb_registration_token :: string
  hb_keys_dir :: string
  hb_schedules :: "(string \<times> job_schedule) list"
  hb_peers :: "string list"
  hb_my_url :: string
  hb_advertise :: bool
  hb_fs :: fsys

definition new_hub :: "fsys \<Rightarrow> string \<Rightarrow> string \<Rightarrow> string \<Rightarrow> string list \<Rightarrow> string \<Rightarrow> bool \<Rightarrow> hub" where
  "new_hub fs auth_token registration_token keys_dir seed_peers my_url advertise =
     \<lparr>hb_conns = [], hb_store = [], hb_locked = False, hb_auth_token = auth_token,
      hb_registration_token = registration_token, hb_keys_dir = keys_dir, hb_schedules = [],
      hb_peers = fold add_once (filter (\<lambda>p. p \<noteq> []) seed_peers) [],
      hb_my_url = my_url, hb_advertise = advertise, hb_fs = fs\<rparr>"

section \<open>Connections\<close>

definition upd_conn :: "nat \<Rightarrow> (agent_conn \<Rightarrow> agent_conn) \<Rightarrow> hub \<Rightarrow> hub" where
  "upd_conn r f h = h\<lparr>hb_store := (hb_store h)[r := f (hb_store h ! r)]\<rparr>"

definition unregister :: "hub \<Rightarrow> string \<Rightarrow> hub option" where
  "unregister h agent =
     (if hb_locked h then None else Some (h\<lparr>hb_conns := assoc_del agent (hb_conns h)\<rparr>))"

text \<open>\<open>Close\<close>, with whether it returns. A second call waits for the first to finish.\<close>

definition close_conn :: "hub \<Rightarrow> nat \<Rightarrow> hub \<times> bool" where
  "close_conn h r =
     (if ac_done (hb_store h ! r) then (h, ac_pending (hb_store h ! r) = None)
      else (let h1 = upd_conn r close_done h in
        case unregister h1 (ac_id (hb_store h ! r)) of
          None \<Rightarrow> (h1, False)
        | Some h2 \<Rightarrow>
            (case close_pending (hb_store h2 ! r) of
               None \<Rightarrow> (h2, False)
             | Some c \<Rightarrow> (upd_conn r (\<lambda>_. c) h2, True))))"

text \<open>\<open>register\<close> holds the mutex while it closes the connection it replaces.\<close>

definition register :: "hub \<Rightarrow> nat \<Rightarrow> hub \<times> bool" where
  "register h r =
     (if hb_locked h then (h, False)
      else (let agent = ac_id (hb_store h ! r) in
        case map_of (hb_conns h) agent of
          None \<Rightarrow> (h\<lparr>hb_conns := assoc_put agent r (hb_conns h)\<rparr>, True)
        | Some old \<Rightarrow>
            (case close_conn (h\<lparr>hb_locked := True\<rparr>) old of
               (h1, False) \<Rightarrow> (h1, False)
             | (h1, True) \<Rightarrow>
                 (h1\<lparr>hb_conns := assoc_put agent r (hb_conns h1), hb_locked := False\<rparr>, True))))"

definition add_connection :: "hub \<Rightarrow> string \<Rightarrow> hub \<times> nat" where
  "add_connection h agent =
     (h\<lparr>hb_store := hb_store h @ [new_agent_connection agent]\<rparr>, length (hb_store h))"

definition get_connected_agents :: "hub \<Rightarrow> string list option" where
  "get_connected_agents h = (if hb_locked h then None else Some (map fst (hb_conns h)))"

definition send_to_agent :: "hub \<Rightarrow> string \<Rightarrow> json \<Rightarrow> hub" where
  "send_to_agent h agent msg =
     (case map_of (hb_conns h) agent of None \<Rightarrow> h | Some r \<Rightarrow> upd_conn r (\<lambda>c. try_send c msg) h)"

section \<open>Schedules\<close>

text \<open>The interval a schedule is pushed with: \<open>None\<close> when it is skipped. The time difference is
  64-bit arithmetic.\<close>

definition sched_interval :: "int \<Rightarrow> job_schedule \<Rightarrow> int option" where
  "sched_interval now s =
     (if js_type s = ''interval'' then Some (js_interval s)
      else if js_type s = ''at'' then
        (let diff = wrap64 (js_run_at s - now) in if diff < 0 then None else Some diff)
      else Some 0)"

definition agent_tasks :: "int \<Rightarrow> hub \<Rightarrow> string \<Rightarrow> scheduled_task list" where
  "agent_tasks now h agent = List.map_filter
     (\<lambda>(_, s). if js_agent_id s = agent
        then map_option (\<lambda>n. \<lparr>st_id = js_id s, st_interval = n, st_method = js_method s,
                              st_params = js_params s\<rparr>) (sched_interval now s)
        else None) (hb_schedules h)"

text \<open>A nil slice is marshalled as \<open>null\<close>.\<close>

definition sync_message :: "int \<Rightarrow> scheduled_task list \<Rightarrow> json" where
  "sync_message nano ts = enc_request \<lparr>rq_jsonrpc = ''2.0'', rq_method = ''sync_schedules'',
     rq_params = Some (if ts = [] then JNull else enc_tasks ts),
     rq_id = Some (JStr (''sync-'' @ itoa nano))\<rparr>"

definition sync_agent_schedules :: "int \<Rightarrow> int \<Rightarrow> hub \<Rightarrow> string \<Rightarrow> hub option" where
  "sync_agent_schedules now nano h agent =
     (if hb_locked h then None
      else Some (send_to_agent h agent (sync_message nano (agent_tasks now h agent))))"

datatype http_out = HttpPost string json | HttpDelete string

definition other_peers :: "hub \<Rightarrow> string list" where
  "other_peers h = filter (\<lambda>p. p \<noteq> hb_my_url h) (hb_peers h)"

definition schedule_sync_body :: "hub \<Rightarrow> job_schedule \<Rightarrow> json" where
  "schedule_sync_body h s = JObj [(''schedule'', enc_schedule s), (''token'', JStr (hb_auth_token h))]"

definition broadcast_schedule_sync :: "hub \<Rightarrow> job_schedule \<Rightarrow> http_out list" where
  "broadcast_schedule_sync h s =
     map (\<lambda>p. HttpPost (p @ ''/internal/sync-schedule'') (schedule_sync_body h s)) (other_peers h)"

definition broadcast_schedule_delete :: "hub \<Rightarrow> string \<Rightarrow> http_out list" where
  "broadcast_schedule_delete h sid =
     map (\<lambda>p. HttpDelete (p @ ''/internal/sync-schedule?id='' @ sid @ ''&token='' @ hb_auth_token h))
       (other_peers h)"

definition put_schedule :: "hub \<Rightarrow> job_schedule \<Rightarrow> hub" where
  "put_schedule h s = h\<lparr>hb_schedules := assoc_put (js_id s) s (hb_schedules h)\<rparr>"

definition del_schedule :: "hub \<Rightarrow> string \<Rightarrow> hub" where
  "del_schedule h sid = h\<lparr>hb_schedules := assoc_del sid (hb_schedules h)\<rparr>"

definition save_peer_schedule :: "int \<Rightarrow> int \<Rightarrow> hub \<Rightarrow> job_schedule \<Rightarrow> hub option" where
  "save_peer_schedule now nano h s = sync_agent_schedules now nano (put_schedule h s) (js_agent_id s)"

definition add_schedule :: "int \<Rightarrow> int \<Rightarrow> hub \<Rightarrow> job_schedule \<Rightarrow> (hub \<times> http_out list) option" where
  "add_schedule now nano h s =
     (case sync_agent_schedules now nano (put_schedule h s) (js_agent_id s) of
        None \<Rightarrow> None
      | Some h' \<Rightarrow> Some (h', broadcast_schedule_sync h' s))"

definition delete_peer_schedule :: "int \<Rightarrow> int \<Rightarrow> hub \<Rightarrow> string \<Rightarrow> hub option" where
  "delete_peer_schedule now nano h sid =
     (case map_of (hb_schedules h) sid of
        None \<Rightarrow> Some h
      | Some s \<Rightarrow> sync_agent_schedules now nano (del_schedule h sid) (js_agent_id s))"

definition delete_schedule :: "int \<Rightarrow> int \<Rightarrow> hub \<Rightarrow> string \<Rightarrow> (hub \<times> http_out list) option" where
  "delete_schedule now nano h sid =
     (case map_of (hb_schedules h) sid of
        None \<Rightarrow> Some (h, [])
      | Some s \<Rightarrow>
          (case sync_agent_schedules now nano (del_schedule h sid) (js_agent_id s) of
             None \<Rightarrow> None
           | Some h' \<Rightarrow> Some (h', broadcast_schedule_delete h' sid)))"

interpretation hub_schedules: keyed_store js_id "\<lambda>h. map_of (hb_schedules h)"
  "\<lambda>s h. put_schedule h s" "\<lambda>k h. del_schedule h k"
  by unfold_locales (simp_all add: put_schedule_def del_schedule_def)

definition get_schedules :: "hub \<Rightarrow> job_schedule list" where
  "get_schedules h = map snd (hb_schedules h)"

section \<open>Addresses of the hubs\<close>

definition to_ws_url :: "string \<Rightarrow> string" where
  "to_ws_url url =
     (let ws = (if has_prefix url ''https://'' then ''wss://'' @ trim_prefix url ''https://''
                else if has_prefix url ''http://'' then ''ws://'' @ trim_prefix url ''http://''
                else url)
      in if has_suffix ws ''/ws'' then ws else trim_suffix ws ''/'' @ ''/ws'')"

definition get_ws_peer_urls :: "hub \<Rightarrow> string list" where
  "get_ws_peer_urls h =
     (if hb_my_url h \<noteq> [] then [to_ws_url (hb_my_url h)] else []) @ map to_ws_url (hb_peers h)"

definition failover_message :: "int \<Rightarrow> string list \<Rightarrow> json" where
  "failover_message nano urls = enc_request \<lparr>rq_jsonrpc = ''2.0'', rq_method = ''update_failover_urls'',
     rq_params = Some (JArr (map JStr urls)), rq_id = Some (JStr (''failover-'' @ itoa nano))\<rparr>"

definition push_failover_urls :: "int \<Rightarrow> hub \<Rightarrow> string \<Rightarrow> hub option" where
  "push_failover_urls nano h agent =
     (if hb_locked h then None
      else if get_ws_peer_urls h = [] then Some h
      else Some (send_to_agent h agent (failover_message nano (get_ws_peer_urls h))))"

section \<open>Peers\<close>

definition get_peers :: "hub \<Rightarrow> string list" where
  "get_peers h = hb_peers h"

definition key_sync_body :: "hub \<Rightarrow> string \<Rightarrow> string \<Rightarrow> json" where
  "key_sync_body h agent key_b64 =
     enc_key_sync \<lparr>ks_agent_id = agent, ks_public_key = key_b64, ks_token = hb_auth_token h\<rparr>"

text \<open>The keys of the directory, for the files named \<open>*.pub\<close> that load.\<close>

definition local_keys :: "crypto \<Rightarrow> hub \<Rightarrow> (string \<times> string) list" where
  "local_keys cr h =
     (if hb_keys_dir h = [] then []
      else List.map_filter (\<lambda>n.
        if has_suffix n ''.pub''
        then (case load_public_key cr (hb_fs h) (join_path (hb_keys_dir h) n) of
                Inl _ \<Rightarrow> None | Inr k \<Rightarrow> Some (trim_suffix n ''.pub'', k))
        else None) (read_dir (hb_fs h) (hb_keys_dir h)))"

definition sync_all_to_peer :: "crypto \<Rightarrow> hub \<Rightarrow> string \<Rightarrow> http_out list" where
  "sync_all_to_peer cr h peer =
     (if peer = [] \<or> peer = hb_my_url h then []
      else map (\<lambda>(agent, k). HttpPost (peer @ ''/internal/sync-key'')
                  (key_sync_body h agent (b64_encode std_encoding k))) (local_keys cr h)
         @ map (\<lambda>s. HttpPost (peer @ ''/internal/sync-schedule'') (schedule_sync_body h s))
             (get_schedules h))"

definition registration_post :: "hub \<Rightarrow> string \<Rightarrow> http_out" where
  "registration_post h peer = HttpPost (peer @ ''/internal/register-peer'')
     (enc_peer_registration \<lparr>pr_url = hb_my_url h, pr_token = hb_auth_token h\<rparr>)"

definition add_peer :: "crypto \<Rightarrow> hub \<Rightarrow> string \<Rightarrow> hub \<times> http_out list" where
  "add_peer cr h peer =
     (if peer = [] \<or> peer = hb_my_url h then (h, [])
      else (let h' = h\<lparr>hb_peers := add_once peer (hb_peers h)\<rparr> in
        (h', sync_all_to_peer cr h' peer @
             (if peer \<notin> set (hb_peers h) \<and> hb_my_url h \<noteq> [] then [registration_post h' peer] else []))))"

definition register_with_peers :: "hub \<Rightarrow> http_out list" where
  "register_with_peers h = (if hb_my_url h = [] then [] else map (registration_post h) (other_peers h))"

fun add_peers :: "crypto \<Rightarrow> hub \<Rightarrow> string list \<Rightarrow> hub \<times> http_out list" where
  "add_peers cr h [] = (h, [])"
| "add_peers cr h (p # ps) =
     (let (h1, out1) = (if p \<noteq> hb_my_url h then add_peer cr h p else (h, []));
          (h2, out2) = add_peers cr h1 ps
      in (h2, out1 @ out2))"

text \<open>The answer to a registration: the peer's own list of peers is learnt.\<close>

definition registration_answer ::
  "crypto \<Rightarrow> hub \<Rightarrow> string \<Rightarrow> int \<Rightarrow> json option \<Rightarrow> hub \<times> http_out list" where
  "registration_answer cr h peer status body =
     (if status = 200 then
        (case unmarshal (dec_list dec_string []) [] body of
           None \<Rightarrow> (h, sync_all_to_peer cr h peer)
         | Some ps \<Rightarrow> (let (h', out) = add_peers cr h ps in (h', sync_all_to_peer cr h peer @ out)))
      else (h, []))"

definition broadcast_key_sync :: "hub \<Rightarrow> string \<Rightarrow> string \<Rightarrow> http_out list" where
  "broadcast_key_sync h agent key_b64 =
     map (\<lambda>p. HttpPost (p @ ''/internal/sync-key'') (key_sync_body h agent key_b64)) (other_peers h)"

definition mkdir_all :: "fsys \<Rightarrow> string \<Rightarrow> string option" where
  "mkdir_all fs dir =
     (if dir = [] then Some ''mkdir : no such file or directory''
      else if dir \<in> set (fs_denied fs) then Some (''mkdir '' @ dir @ '': permission denied'') else None)"

definition key_path :: "hub \<Rightarrow> string \<Rightarrow> string" where
  "key_path h agent = join_path (hb_keys_dir h) (agent @ ''.pub'')"

text \<open>The offset in Go's base64 error is left out of the text.\<close>

definition save_peer_public_key :: "crypto \<Rightarrow> hub \<Rightarrow> string \<Rightarrow> string \<Rightarrow> hub res" where
  "save_peer_public_key cr h agent key_b64 =
     (case b64_decode std_encoding key_b64 of
        None \<Rightarrow> Inl ''failed to decode base64 public key: illegal base64 data''
      | Some k \<Rightarrow>
     (case mkdir_all (hb_fs h) (hb_keys_dir h) of
        Some e \<Rightarrow> Inl (''failed to create keys directory: '' @ e)
      | None \<Rightarrow>
     (case save_public_key_pem cr (hb_fs h) (key_path h agent) k of
        Inl e \<Rightarrow> Inl (''failed to save public key to file: '' @ e)
      | Inr fs \<Rightarrow> Inr (h\<lparr>hb_fs := fs\<rparr>))))"

section \<open>Dispatching a job\<close>

datatype http_answer = Unreachable string | Answer int "json option"

definition dec_err_body :: "(string \<times> int) decoder" where
  "dec_err_body = dec_struct (\<lambda>r kvs.
     case (field ''error'' dec_string (fst r) kvs, field ''code'' dec_int (snd r) kvs) of
       (Some e, Some c) \<Rightarrow> Some (e, c) | _ \<Rightarrow> None)"

definition dispatch_body :: "string \<Rightarrow> string \<Rightarrow> json option \<Rightarrow> json" where
  "dispatch_body agent method params =
     JObj [(''agent_id'', JStr agent), (''method'', JStr method), (''params'', enc_raw params)]"

text \<open>What a peer's answer to a forwarded job means.\<close>

definition dispatch_job_to_peer :: "string \<Rightarrow> http_answer \<Rightarrow> rpc_response res" where
  "dispatch_job_to_peer peer ans =
     (case ans of
        Unreachable e \<Rightarrow> Inl (''failed to reach peer Hub '' @ peer @ '': '' @ e)
      | Answer status body \<Rightarrow>
          if status = 200 then
            (case unmarshal dec_response zero_response body of
               None \<Rightarrow> Inl ''failed to decode RPC response from peer''
             | Some resp \<Rightarrow> Inr resp)
          else
            (case unmarshal dec_err_body ([], 0) body of
               Some (e, _) \<Rightarrow> if e \<noteq> [] then Inl e
                 else Inl (''peer Hub '' @ peer @ '' returned status '' @ itoa status)
             | None \<Rightarrow> Inl (''peer Hub '' @ peer @ '' returned status '' @ itoa status)))"

text \<open>Peers are asked in turn until one answers; also the list of those asked.\<close>

fun ask_peers :: "(string \<Rightarrow> http_answer) \<Rightarrow> string list \<Rightarrow> string list \<times> rpc_response option" where
  "ask_peers net [] = ([], None)"
| "ask_peers net (p # ps) =
     (case dispatch_job_to_peer p (net p) of
        Inr resp \<Rightarrow> ([p], Some resp)
      | Inl _ \<Rightarrow> (let (asked, r) = ask_peers net ps in (p # asked, r)))"

definition not_connected :: "string \<Rightarrow> string" where
  "not_connected quoted = ''agent '' @ quoted @ '' is not connected''"

text \<open>\<open>call\<close> is the outcome of the call on a local connection, \<open>quote\<close> Go's quoting of a string.
  The result is \<open>None\<close> when the mutex is never released.\<close>

definition dispatch_job ::
  "(string \<Rightarrow> string) \<Rightarrow> (string \<Rightarrow> http_answer) \<Rightarrow> (nat \<Rightarrow> rpc_response res) \<Rightarrow> hub \<Rightarrow> string \<Rightarrow> bool \<Rightarrow>
   (string list \<times> rpc_response res) option" where
  "dispatch_job quote net call h agent allow_proxy =
     (if hb_locked h then None
      else (case map_of (hb_conns h) agent of
        Some r \<Rightarrow> Some ([], call r)
      | None \<Rightarrow>
          (let (asked, answer) = (if allow_proxy then ask_peers net (other_peers h) else ([], None)) in
           Some (asked, (case answer of Some resp \<Rightarrow> Inr resp | None \<Rightarrow> Inl (not_connected (quote agent)))))))"

section \<open>Facts\<close>

lemma upd_conn_fields [simp]:
  "hb_conns (upd_conn r f h) = hb_conns h" "hb_locked (upd_conn r f h) = hb_locked h"
  "hb_schedules (upd_conn r f h) = hb_schedules h" "hb_peers (upd_conn r f h) = hb_peers h"
  "hb_my_url (upd_conn r f h) = hb_my_url h" "hb_auth_token (upd_conn r f h) = hb_auth_token h"
  "hb_keys_dir (upd_conn r f h) = hb_keys_dir h" "hb_fs (upd_conn r f h) = hb_fs h"
  "hb_registration_token (upd_conn r f h) = hb_registration_token h"
  "hb_advertise (upd_conn r f h) = hb_advertise h"
  "length (hb_store (upd_conn r f h)) = length (hb_store h)"
  by (simp_all add: upd_conn_def)

lemma upd_conn_store:
  "r < length (hb_store h) \<Longrightarrow>
   hb_store (upd_conn r f h) ! i = (if i = r then f (hb_store h ! r) else hb_store h ! i)"
  by (simp add: upd_conn_def)

lemma send_to_agent_fields [simp]:
  "hb_conns (send_to_agent h a m) = hb_conns h" "hb_locked (send_to_agent h a m) = hb_locked h"
  "hb_schedules (send_to_agent h a m) = hb_schedules h" "hb_peers (send_to_agent h a m) = hb_peers h"
  "hb_my_url (send_to_agent h a m) = hb_my_url h" "hb_auth_token (send_to_agent h a m) = hb_auth_token h"
  "hb_keys_dir (send_to_agent h a m) = hb_keys_dir h" "hb_fs (send_to_agent h a m) = hb_fs h"
  "hb_registration_token (send_to_agent h a m) = hb_registration_token h"
  "hb_advertise (send_to_agent h a m) = hb_advertise h"
  "length (hb_store (send_to_agent h a m)) = length (hb_store h)"
  by (simp_all add: send_to_agent_def split: option.split)

lemma put_del_schedule_fields [simp]:
  "hb_conns (put_schedule h s) = hb_conns h" "hb_store (put_schedule h s) = hb_store h"
  "hb_locked (put_schedule h s) = hb_locked h" "hb_peers (put_schedule h s) = hb_peers h"
  "hb_my_url (put_schedule h s) = hb_my_url h" "hb_auth_token (put_schedule h s) = hb_auth_token h"
  "hb_fs (put_schedule h s) = hb_fs h" "hb_keys_dir (put_schedule h s) = hb_keys_dir h"
  "hb_schedules (put_schedule h s) = assoc_put (js_id s) s (hb_schedules h)"
  "hb_conns (del_schedule h i) = hb_conns h" "hb_store (del_schedule h i) = hb_store h"
  "hb_locked (del_schedule h i) = hb_locked h" "hb_peers (del_schedule h i) = hb_peers h"
  "hb_my_url (del_schedule h i) = hb_my_url h" "hb_auth_token (del_schedule h i) = hb_auth_token h"
  "hb_fs (del_schedule h i) = hb_fs h" "hb_keys_dir (del_schedule h i) = hb_keys_dir h"
  "hb_schedules (del_schedule h i) = assoc_del i (hb_schedules h)"
  by (simp_all add: put_schedule_def del_schedule_def)

lemma agent_tasks_cong: "hb_schedules h = hb_schedules h' \<Longrightarrow> agent_tasks now h a = agent_tasks now h' a"
  by (simp add: agent_tasks_def)

lemma sched_interval_range:
  "int64_range (js_interval s) \<Longrightarrow> sched_interval now s = Some n \<Longrightarrow> int64_range n"
  using wrap64_bounds by (auto simp: sched_interval_def int64_range_def Let_def split: if_splits)

lemma agent_tasks_iff:
  "t \<in> set (agent_tasks now h a) \<longleftrightarrow>
     (\<exists>k s n. (k, s) \<in> set (hb_schedules h) \<and> js_agent_id s = a \<and> sched_interval now s = Some n \<and>
        t = \<lparr>st_id = js_id s, st_interval = n, st_method = js_method s, st_params = js_params s\<rparr>)"
  by (force simp: agent_tasks_def List.map_filter_def split: if_splits)

text \<open>What a satellite reads out of a pushed schedule list.\<close>

lemma sync_message_decodes:
  assumes "\<forall>t\<in>set ts. int64_range (st_interval t)"
  shows "\<exists>req. unmarshal dec_request zero_request (Some (sync_message nano ts)) = Some req \<and>
    rq_method req = ''sync_schedules'' \<and>
    unmarshal dec_tasks [] (rq_params req) =
      Some (map (\<lambda>t. t\<lparr>st_params := sent_params (st_params t)\<rparr>) ts)"
proof -
  define req where "req = \<lparr>rq_jsonrpc = ''2.0'', rq_method = ''sync_schedules'',
     rq_params = Some (if ts = [] then JNull else enc_tasks ts),
     rq_id = Some (JStr (''sync-'' @ itoa nano))\<rparr>"
  have "unmarshal dec_request zero_request (Some (sync_message nano ts)) = Some req"
    unfolding sync_message_def req_def
    by (cases "ts = []")
      (simp_all add: dec_request_def enc_request_def zero_request_def codec_defs codec_simps)
  moreover have "unmarshal dec_tasks [] (rq_params req) =
      Some (map (\<lambda>t. t\<lparr>st_params := sent_params (st_params t)\<rparr>) ts)"
    using assms
    by (cases "ts = []") (simp_all add: req_def unmarshal_def dec_tasks_def enc_tasks_def
      dec_list_def dec_all_map task_roundtrip)
  ultimately show ?thesis by (auto simp: req_def)
qed

lemma sync_agent_schedules_send:
  assumes "\<not> hb_locked h" "map_of (hb_conns h) a = Some r" "r < length (hb_store h)"
    and "length (ac_send (hb_store h ! r)) < send_cap"
  obtains h' where "sync_agent_schedules now nano h a = Some h'"
    "ac_send (hb_store h' ! r) = ac_send (hb_store h ! r) @ [sync_message nano (agent_tasks now h a)]"
    "hb_schedules h' = hb_schedules h"
proof
  let ?h = "send_to_agent h a (sync_message nano (agent_tasks now h a))"
  show "sync_agent_schedules now nano h a = Some ?h"
    using assms(1) by (simp add: sync_agent_schedules_def)
  show "ac_send (hb_store ?h ! r) = ac_send (hb_store h ! r) @ [sync_message nano (agent_tasks now h a)]"
    using assms(2-4) by (simp add: send_to_agent_def upd_conn_store try_send_def)
  show "hb_schedules ?h = hb_schedules h" by simp
qed

subsection \<open>Addresses\<close>

lemma to_ws_url_suffix: "has_suffix (to_ws_url u) ''/ws''"
  by (auto simp: to_ws_url_def Let_def has_suffix_iff)

lemma to_ws_url_plain:
  "\<not> has_prefix u ''https://'' \<Longrightarrow> \<not> has_prefix u ''http://'' \<Longrightarrow>
   to_ws_url u = (if has_suffix u ''/ws'' then u else trim_suffix u ''/'' @ ''/ws'')"
  by (simp add: to_ws_url_def)

lemma trim_slash_cases:
  obtains "u = trim_suffix u ''/''" "\<not> has_suffix u ''/''" | "u = trim_suffix u ''/'' @ ''/''"
proof (cases "has_suffix u ''/''")
  case True
  then obtain t where "u = t @ ''/''" by (auto simp: has_suffix_iff)
  then show ?thesis using that(2) by simp
next
  case False
  then show ?thesis using that(1) by (simp add: trim_suffix_absent)
qed

text \<open>Adding the suffix makes no new scheme prefix: the address would have had it already.\<close>

lemma append_ws_prefix:
  assumes "\<not> has_prefix u (p @ ''//'')" "has_prefix (trim_suffix u ''/'' @ ''/ws'') (p @ ''//'')"
    and "CHR ''/'' \<notin> set p"
  shows False
proof -
  let ?t = "trim_suffix u ''/''"
  obtain rest where r: "?t @ ''/ws'' = p @ ''//'' @ rest" using assms(2) by (auto simp: has_prefix_iff)
  show False
  proof (cases "length p + 2 \<le> length ?t")
    case True
    then have "take (length p + 2) ?t = p @ ''//''"
      using arg_cong [OF r, of "take (length p + 2)"] by simp
    then have "has_prefix ?t (p @ ''//'')"
      by (metis append_take_drop_id has_prefix_iff)
    then show False
      using assms(1) by (cases u rule: trim_slash_cases) (metis append.assoc has_prefix_iff)+
  next
    case False
    have "(?t @ ''/ws'') ! (length p) = CHR ''/''" "(?t @ ''/ws'') ! Suc (length p) = CHR ''/''"
      unfolding r by (simp_all add: nth_append)
    moreover have "\<forall>i < length p. (?t @ ''/ws'') ! i \<noteq> CHR ''/''"
      unfolding r using assms(3) by (auto simp: nth_append dest: nth_mem)
    ultimately have "length ?t = Suc (length p)"
      using False by (cases "length ?t \<le> length p")
        (auto simp: nth_append nth_Cons' numeral_eq_Suc split: if_splits)
    then have "?t = p @ ''/''"
      using arg_cong [OF r, of "take (Suc (length p))"] by simp
    then show False
      using assms(1) by (cases u rule: trim_slash_cases)
        (auto simp: has_suffix_iff has_prefix_iff)
  qed
qed

lemma to_ws_url_no_http:
  "\<not> has_prefix (to_ws_url u) ''https://'' \<and> \<not> has_prefix (to_ws_url u) ''http://''"
proof -
  have p: "\<not> has_prefix w ''https://'' \<and> \<not> has_prefix w ''http://''"
    if "has_prefix w ''ws''" for w
    using that by (auto simp: has_prefix_iff)
  define ws where "ws = (if has_prefix u ''https://'' then ''wss://'' @ trim_prefix u ''https://''
      else if has_prefix u ''http://'' then ''ws://'' @ trim_prefix u ''http://'' else u)"
  have w: "\<not> has_prefix ws ''https://'' \<and> \<not> has_prefix ws ''http://''"
    using p by (auto simp: ws_def has_prefix_iff)
  have d: "to_ws_url u = (if has_suffix ws ''/ws'' then ws else trim_suffix ws ''/'' @ ''/ws'')"
    by (simp add: to_ws_url_def ws_def)
  have "\<not> has_prefix (trim_suffix ws ''/'' @ ''/ws'') (''https:'' @ ''//'')"
    using append_ws_prefix [of ws "''https:''"] w by auto
  moreover have "\<not> has_prefix (trim_suffix ws ''/'' @ ''/ws'') (''http:'' @ ''//'')"
    using append_ws_prefix [of ws "''http:''"] w by auto
  ultimately show ?thesis using d w by simp
qed

lemma to_ws_url_idem: "to_ws_url (to_ws_url u) = to_ws_url u"
  using to_ws_url_plain [of "to_ws_url u"] to_ws_url_no_http [of u] to_ws_url_suffix [of u] by simp

subsection \<open>Peers\<close>

lemma other_peers_iff: "p \<in> set (other_peers h) \<longleftrightarrow> p \<in> set (hb_peers h) \<and> p \<noteq> hb_my_url h"
  by (auto simp: other_peers_def)

text \<open>The hub's own address is never among those it posts to.\<close>

definition post_target :: "hub \<Rightarrow> http_out \<Rightarrow> string \<Rightarrow> bool" where
  "post_target h out p \<longleftrightarrow> p \<in> set (hb_peers h) \<and> p \<noteq> hb_my_url h \<and>
     (case out of HttpPost u _ \<Rightarrow> has_prefix u p | HttpDelete u \<Rightarrow> has_prefix u p)"

lemma sync_all_targets:
  "out \<in> set (sync_all_to_peer cr h p) \<Longrightarrow> p \<in> set (hb_peers h) \<Longrightarrow> post_target h out p"
  by (auto simp: sync_all_to_peer_def post_target_def has_prefix_iff split: if_splits)

lemma add_peer_fields:
  "fst (add_peer cr h p) = h\<lparr>hb_peers := hb_peers (fst (add_peer cr h p))\<rparr>"
  "set (hb_peers (fst (add_peer cr h p))) = set (hb_peers h) \<union> ({p} - {[], hb_my_url h})"
  by (auto simp: add_peer_def Let_def)

lemma add_peer_targets:
  assumes "out \<in> set (snd (add_peer cr h p))"
  shows "post_target (fst (add_peer cr h p)) out p"
proof (cases "p = [] \<or> p = hb_my_url h")
  case True
  then show ?thesis using assms by (auto simp: add_peer_def)
next
  case False
  define h' where "h' = h\<lparr>hb_peers := add_once p (hb_peers h)\<rparr>"
  have "p \<in> set (hb_peers h')" "p \<noteq> hb_my_url h'" using False by (simp_all add: h'_def)
  moreover have "out \<in> set (sync_all_to_peer cr h' p) \<or> out = registration_post h' p"
    using assms False by (auto simp: add_peer_def Let_def h'_def split: if_splits)
  moreover have "fst (add_peer cr h p) = h'" using False by (simp add: add_peer_def h'_def Let_def)
  ultimately show ?thesis
    using sync_all_targets by (auto simp: registration_post_def post_target_def has_prefix_iff)
qed

lemma post_target_mono:
  "post_target h out p \<Longrightarrow> set (hb_peers h) \<subseteq> set (hb_peers h') \<Longrightarrow> hb_my_url h' = hb_my_url h \<Longrightarrow>
   post_target h' out p"
  by (auto simp: post_target_def)

lemma add_peers_result:
  "add_peers cr h ps = (h', outs) \<Longrightarrow>
     h' = h\<lparr>hb_peers := hb_peers h'\<rparr> \<and>
     set (hb_peers h') = set (hb_peers h) \<union> (set ps - {[], hb_my_url h}) \<and>
     (distinct (hb_peers h) \<longrightarrow> distinct (hb_peers h')) \<and>
     (\<forall>out\<in>set outs. \<exists>p. post_target h' out p)"
proof (induction ps arbitrary: h outs)
  case (Cons p ps)
  define h1 where "h1 = (if p \<noteq> hb_my_url h then fst (add_peer cr h p) else h)"
  define out1 where "out1 = (if p \<noteq> hb_my_url h then snd (add_peer cr h p) else [])"
  have r1: "(if p \<noteq> hb_my_url h then add_peer cr h p else (h, [])) = (h1, out1)"
    by (simp add: h1_def out1_def)
  obtain out2 where r2: "add_peers cr h1 ps = (h', out2)" "outs = out1 @ out2"
    using Cons.prems by (auto simp: r1 split: prod.splits)
  have h1: "h1 = h\<lparr>hb_peers := hb_peers h1\<rparr>"
    using add_peer_fields(1) [of cr h p] by (auto simp: h1_def)
  then have my: "hb_my_url h1 = hb_my_url h" by (metis hub.select_convs(9) hub.surjective hub.update_convs(8))
  have ps1: "set (hb_peers h1) = set (hb_peers h) \<union> ({p} - {[], hb_my_url h})"
    using add_peer_fields(2) [of cr h p] by (auto simp: h1_def)
  have d1: "distinct (hb_peers h) \<longrightarrow> distinct (hb_peers h1)"
    by (auto simp: h1_def add_peer_def Let_def)
  have t1: "\<forall>out\<in>set out1. \<exists>p. post_target h1 out p"
    using add_peer_targets by (fastforce simp: h1_def out1_def)
  have IH: "h' = h1\<lparr>hb_peers := hb_peers h'\<rparr>"
    "set (hb_peers h') = set (hb_peers h1) \<union> (set ps - {[], hb_my_url h})"
    "distinct (hb_peers h1) \<longrightarrow> distinct (hb_peers h')" "\<forall>out\<in>set out2. \<exists>p. post_target h' out p"
    using Cons.IH [OF r2(1)] my by simp_all
  have my': "hb_my_url h' = hb_my_url h1"
    by (metis IH(1) hub.select_convs(9) hub.surjective hub.update_convs(8))
  have "h' = h\<lparr>hb_peers := hb_peers h'\<rparr>"
    using IH(1) h1 by (metis hub.unfold_congs(8) hub.update_convs(8) hub.surjective)
  moreover have "\<forall>out\<in>set outs. \<exists>p. post_target h' out p"
    using t1 IH(2,4) post_target_mono [OF _ _ my'] r2(2) by fastforce
  ultimately show ?case using IH(2,3) ps1 d1 by auto
qed simp

subsection \<open>Forwarding\<close>

lemma ask_peers_prefix: "\<exists>rest. ps = fst (ask_peers net ps) @ rest"
proof (induction ps)
  case (Cons p ps)
  then show ?case by (cases "dispatch_job_to_peer p (net p)") (auto split: prod.splits)
qed simp

lemma ask_peers_result:
  "snd (ask_peers net ps) =
     (case List.find (\<lambda>p. is_ok (dispatch_job_to_peer p (net p))) ps of
        None \<Rightarrow> None | Some p \<Rightarrow> (case dispatch_job_to_peer p (net p) of Inr r \<Rightarrow> Some r | Inl _ \<Rightarrow> None))"
  by (induction ps) (auto split: sum.splits prod.splits option.splits)

lemma ask_peers_none: "snd (ask_peers net ps) = None \<Longrightarrow> fst (ask_peers net ps) = ps"
  by (induction ps) (auto split: sum.splits prod.splits)

section \<open>Properties\<close>

text \<open>What a satellite should get for a schedule at the time \<open>now\<close>, in plain arithmetic: nothing for
  one of another satellite or one whose time has passed, otherwise a task with its interval, with
  the seconds left until its time, or with 0.\<close>

definition pushed :: "int \<Rightarrow> string \<Rightarrow> job_schedule \<Rightarrow> bool" where
  "pushed now agent s \<longleftrightarrow> js_agent_id s = agent \<and> \<not> (js_type s = ''at'' \<and> js_run_at s < now)"

definition pushed_task :: "int \<Rightarrow> job_schedule \<Rightarrow> scheduled_task" where
  "pushed_task now s = \<lparr>st_id = js_id s,
     st_interval = (if js_type s = ''interval'' then js_interval s
       else if js_type s = ''at'' then js_run_at s - now else 0),
     st_method = js_method s, st_params = sent_params (js_params s)\<rparr>"

lemma sched_interval_plain:
  assumes "js_type s = ''at'' \<longrightarrow> int64_range (js_run_at s - now)"
  shows "sched_interval now s =
    (if js_type s = ''at'' \<and> js_run_at s < now then None else Some (st_interval (pushed_task now s)))"
  using assms by (auto simp: sched_interval_def pushed_task_def int64_range_def Let_def)

lemma agent_tasks_pushed:
  assumes "\<forall>(k, s)\<in>set (hb_schedules h). js_type s = ''at'' \<longrightarrow> int64_range (js_run_at s - now)"
  shows "map (\<lambda>t. t\<lparr>st_params := sent_params (st_params t)\<rparr>) (agent_tasks now h a) =
    map (pushed_task now) (filter (pushed now a) (map snd (hb_schedules h)))"
proof -
  have "map (\<lambda>t. t\<lparr>st_params := sent_params (st_params t)\<rparr>) (List.map_filter
     (\<lambda>(_, s). if js_agent_id s = a
        then map_option (\<lambda>n. \<lparr>st_id = js_id s, st_interval = n, st_method = js_method s,
                              st_params = js_params s\<rparr>) (sched_interval now s)
        else None) kvs) = map (pushed_task now) (filter (pushed now a) (map snd kvs))"
    if "\<forall>(k, s)\<in>set kvs. js_type s = ''at'' \<longrightarrow> int64_range (js_run_at s - now)"
    for kvs :: "(string \<times> job_schedule) list"
    using that
  proof (induction kvs)
    case (Cons kv kvs)
    obtain k s where kv: "kv = (k, s)" by (cases kv)
    then have "sched_interval now s =
        (if js_type s = ''at'' \<and> js_run_at s < now then None else Some (st_interval (pushed_task now s)))"
      using Cons.prems by (intro sched_interval_plain) auto
    then show ?case using Cons by (auto simp: kv List.map_filter_simps pushed_def pushed_task_def)
  qed (simp add: List.map_filter_simps)
  then show ?thesis using assms by (simp add: agent_tasks_def)
qed

text \<open>C20: Adding a schedule reaches its satellite and every peer. When the satellite is connected and
  its send queue has room, \<open>AddSchedule\<close> stores the schedule and queues one \<open>sync_schedules\<close> request
  behind what was in the queue before. The satellite decodes it to one task for each of its
  schedules whose time has not passed, in the order the hub iterates over them, and to no other:
  with the interval of an \<open>interval\<close> schedule, the seconds left to an \<open>at\<close> schedule, 0 for
  a \<open>once\<close> schedule. One request with the schedule and the hub's token goes to each known peer other than the
  hub itself.\<close>

theorem schedule_push:
  assumes "\<not> hb_locked h" "map_of (hb_conns h) (js_agent_id s) = Some r" "r < length (hb_store h)"
    and "length (ac_send (hb_store h ! r)) < send_cap" "distinct (hb_peers h)"
    and "\<forall>(k, t)\<in>set (hb_schedules (put_schedule h s)). int64_range (js_interval t) \<and>
      (js_type t = ''at'' \<longrightarrow> int64_range (js_run_at t - now))"
  shows "\<exists>h' outs msg req peers. add_schedule now nano h s = Some (h', outs) \<and>
    map_of (hb_schedules h') = (map_of (hb_schedules h))(js_id s \<mapsto> s) \<and>
    ac_send (hb_store h' ! r) = ac_send (hb_store h ! r) @ [msg] \<and>
    unmarshal dec_request zero_request (Some msg) = Some req \<and> rq_method req = ''sync_schedules'' \<and>
    unmarshal dec_tasks [] (rq_params req) = Some (map (pushed_task now)
      (filter (pushed now (js_agent_id s)) (map snd (hb_schedules h')))) \<and>
    distinct peers \<and> set peers = set (hb_peers h) - {hb_my_url h} \<and>
    outs = map (\<lambda>p. HttpPost (p @ ''/internal/sync-schedule'')
      (JObj [(''schedule'', enc_schedule s), (''token'', JStr (hb_auth_token h))])) peers"
proof -
  let ?h = "put_schedule h s"
  obtain h' where h': "sync_agent_schedules now nano ?h (js_agent_id s) = Some h'"
    "ac_send (hb_store h' ! r) = ac_send (hb_store ?h ! r) @ [sync_message nano (agent_tasks now ?h (js_agent_id s))]"
    "hb_schedules h' = hb_schedules ?h"
    by (rule sync_agent_schedules_send [of ?h "js_agent_id s" r]) (use assms(1-4) in simp_all)
  have "\<forall>t\<in>set (agent_tasks now ?h (js_agent_id s)). int64_range (st_interval t)"
    using assms(6) sched_interval_range by (fastforce simp: agent_tasks_iff)
  note msg = sync_message_decodes [OF this, of nano]
  have tasks: "map (\<lambda>t. t\<lparr>st_params := sent_params (st_params t)\<rparr>) (agent_tasks now ?h (js_agent_id s)) =
      map (pushed_task now) (filter (pushed now (js_agent_id s)) (map snd (hb_schedules h')))"
    unfolding h'(3) by (rule agent_tasks_pushed) (use assms(6) in auto)
  have same: "hb_peers h' = hb_peers h" "hb_my_url h' = hb_my_url h" "hb_auth_token h' = hb_auth_token h"
    using h'(1) by (auto simp: sync_agent_schedules_def split: if_splits)
  have "add_schedule now nano h s = Some (h', broadcast_schedule_sync h' s)"
    using h'(1) by (simp add: add_schedule_def)
  moreover have "distinct (other_peers h)" "set (other_peers h) = set (hb_peers h) - {hb_my_url h}"
    using assms(5) by (auto simp: other_peers_def)
  moreover have "broadcast_schedule_sync h' s = map (\<lambda>p. HttpPost (p @ ''/internal/sync-schedule'')
      (JObj [(''schedule'', enc_schedule s), (''token'', JStr (hb_auth_token h))])) (other_peers h)"
    by (simp add: broadcast_schedule_sync_def schedule_sync_body_def other_peers_def same)
  moreover obtain req where "unmarshal dec_request zero_request
      (Some (sync_message nano (agent_tasks now ?h (js_agent_id s)))) = Some req" "rq_method req = ''sync_schedules''"
    "unmarshal dec_tasks [] (rq_params req) = Some (map (pushed_task now)
      (filter (pushed now (js_agent_id s)) (map snd (hb_schedules h'))))"
    using msg unfolding tasks by blast
  ultimately show ?thesis
    using h'(2,3) by (intro exI [of _ h'] exI [of _ "sync_message nano (agent_tasks now ?h (js_agent_id s))"]
      exI [of _ "other_peers h"] exI [of _ req] exI conjI) simp_all
qed

definition sample_hub :: hub where
  "sample_hub = (new_hub \<lparr>fs_files = [], fs_denied = []\<rparr> ''tok'' ''reg'' ''/keys''
     [''http://b'', ''http://a'', []] ''http://a'' True)
     \<lparr>hb_conns := [(''s1'', 0)], hb_store := [new_agent_connection ''s1'']\<rparr>"

definition sample_schedule :: job_schedule where
  "sample_schedule = \<lparr>js_id = ''j'', js_agent_id = ''s1'', js_method = ''ping'', js_params = None,
     js_type = ''at'', js_interval = 0, js_run_at = 150\<rparr>"

theorem schedule_push_witness:
  "\<exists>h' msg req. add_schedule 100 1 (sample_hub\<lparr>hb_schedules := [(''i'', sample_schedule\<lparr>js_id := ''i'', js_run_at := 99\<rparr>)]\<rparr>) sample_schedule =
      Some (h', [HttpPost ''http://b/internal/sync-schedule''
        (JObj [(''schedule'', enc_schedule sample_schedule), (''token'', JStr ''tok'')])]) \<and>
    unmarshal dec_request zero_request (Some msg) = Some req \<and>
    unmarshal dec_tasks [] (rq_params req) = Some [\<lparr>st_id = ''j'', st_interval = 50, st_method = ''ping'',
      st_params = Some JNull\<rparr>]"
proof -
  let ?h = "sample_hub\<lparr>hb_schedules := [(''i'', sample_schedule\<lparr>js_id := ''i'', js_run_at := 99\<rparr>)]\<rparr>"
  have p: "\<not> hb_locked ?h" "map_of (hb_conns ?h) (js_agent_id sample_schedule) = Some 0"
    "0 < length (hb_store ?h)" "length (ac_send (hb_store ?h ! 0)) < send_cap" "distinct (hb_peers ?h)"
    "\<forall>(k, t)\<in>set (hb_schedules (put_schedule ?h sample_schedule)). int64_range (js_interval t) \<and>
      (js_type t = ''at'' \<longrightarrow> int64_range (js_run_at t - 100))"
    by (simp_all add: sample_hub_def new_hub_def sample_schedule_def new_agent_connection_def send_cap_def
      int64_range_def add_once_def)
  obtain h' outs msg req peers where r: "add_schedule 100 1 ?h sample_schedule = Some (h', outs)"
    "unmarshal dec_request zero_request (Some msg) = Some req"
    "unmarshal dec_tasks [] (rq_params req) = Some (map (pushed_task 100)
      (filter (pushed 100 (js_agent_id sample_schedule)) (map snd (hb_schedules h'))))"
    "distinct peers" "set peers = set (hb_peers ?h) - {hb_my_url ?h}"
    "outs = map (\<lambda>p. HttpPost (p @ ''/internal/sync-schedule'')
      (JObj [(''schedule'', enc_schedule sample_schedule), (''token'', JStr (hb_auth_token ?h))])) peers"
    using schedule_push [OF p, of 1] by blast
  have "set peers = {''http://b''}" using r(5) by (auto simp: sample_hub_def new_hub_def add_once_def)
  then have "peers = [''http://b'']"
    using r(4) by (cases peers rule: remdups_adj.cases) auto
  then have o: "outs = [HttpPost ''http://b/internal/sync-schedule''
        (JObj [(''schedule'', enc_schedule sample_schedule), (''token'', JStr ''tok'')])]"
    using r(6) by (simp add: sample_hub_def new_hub_def)
  have "hb_schedules h' = [(''i'', sample_schedule\<lparr>js_id := ''i'', js_run_at := 99\<rparr>), (''j'', sample_schedule)]"
    using r(1) by (auto simp: add_schedule_def sync_agent_schedules_def sample_hub_def new_hub_def
        sample_schedule_def split: if_splits)
  with r(1-3) o show ?thesis
    by (auto simp: sample_schedule_def pushed_def pushed_task_def sent_params_def enc_raw_def)
qed

text \<open>The address a satellite is given for a hub is a WebSocket endpoint: it ends in \<open>/ws\<close>,
  \<open>http\<close> and \<open>https\<close> become \<open>ws\<close> and \<open>wss\<close>, no HTTP scheme is left, and converting an address
  that is already one changes nothing, so peers may be configured either way.\<close>

theorem ws_addresses:
  "has_suffix (to_ws_url u) ''/ws'' \<and> to_ws_url (to_ws_url u) = to_ws_url u \<and>
   \<not> has_prefix (to_ws_url u) ''http://'' \<and> \<not> has_prefix (to_ws_url u) ''https://'' \<and>
   to_ws_url (''http://'' @ host @ ''/'') = ''ws://'' @ host @ ''/ws'' \<and>
   to_ws_url (''https://'' @ host @ ''/ws'') = ''wss://'' @ host @ ''/ws''"
proof -
  have "\<not> has_suffix (''ws://'' @ host @ ''/'') ''/ws''" by (auto simp: has_suffix_def)
  then have "to_ws_url (''http://'' @ host @ ''/'') = ''ws://'' @ host @ ''/ws''"
    using trim_suffix_append [of "''ws://'' @ host" "''/''"]
    by (simp add: to_ws_url_def has_prefix_def trim_prefix_def)
  moreover have "has_suffix (''wss://'' @ host @ ''/ws'') ''/ws''"
    unfolding has_suffix_iff by (metis append.assoc)
  then have "to_ws_url (''https://'' @ host @ ''/ws'') = ''wss://'' @ host @ ''/ws''"
    by (simp add: to_ws_url_def has_prefix_def trim_prefix_def)
  ultimately show ?thesis
    using to_ws_url_suffix [of u] to_ws_url_idem [of u] to_ws_url_no_http [of u] by blast
qed

text \<open>Learning peers is a set union and the hub never calls itself: after a peer answers a
  registration, the known peers are the old ones and those of the answer other than the hub itself
  and the empty address, without duplicates, nothing else of the hub changed, and every request
  sent goes to a known peer that is not the hub.\<close>

theorem peers_learned:
  assumes "registration_answer cr h peer 200 (Some (JArr (map JStr ps))) = (h', outs)"
    and "peer \<in> set (hb_peers h)" "distinct (hb_peers h)"
  shows "set (hb_peers h') = set (hb_peers h) \<union> (set ps - {[], hb_my_url h}) \<and> distinct (hb_peers h') \<and>
    h' = h\<lparr>hb_peers := hb_peers h'\<rparr> \<and> (\<forall>out\<in>set outs. \<exists>p. post_target h' out p)"
proof -
  have d: "unmarshal (dec_list dec_string []) [] (Some (JArr (map JStr ps))) = Some ps"
    by (simp add: unmarshal_def dec_list_def codec_simps)
  obtain out2 where a: "add_peers cr h ps = (h', out2)" "outs = sync_all_to_peer cr h peer @ out2"
    using assms(1) unfolding registration_answer_def by (auto simp: d split: prod.splits)
  note r = add_peers_result [OF a(1)]
  have my: "hb_my_url h' = hb_my_url h"
    using r by (metis hub.select_convs(9) hub.surjective hub.update_convs(8))
  have "\<exists>p. post_target h' out p" if "out \<in> set (sync_all_to_peer cr h peer)" for out
    using post_target_mono [OF sync_all_targets [OF that assms(2)] _ my] r by blast
  with r a(2) assms(3) show ?thesis by auto
qed

theorem peers_learned_witness:
  "\<exists>h' outs. registration_answer sample_crypto sample_hub ''http://b'' 200
       (Some (JArr (map JStr [''http://c'', ''http://a'', []]))) = (h', outs) \<and>
     set (hb_peers h') = {''http://a'', ''http://b'', ''http://c''}"
proof -
  obtain h' outs where r: "registration_answer sample_crypto sample_hub ''http://b'' 200
       (Some (JArr (map JStr [''http://c'', ''http://a'', []]))) = (h', outs)" by force
  have "''http://b'' \<in> set (hb_peers sample_hub)" "distinct (hb_peers sample_hub)"
    "set (hb_peers sample_hub) = {''http://a'', ''http://b''}" "hb_my_url sample_hub = ''http://a''"
    by (auto simp: sample_hub_def new_hub_def add_once_def)
  with peers_learned [OF r] r show ?thesis by auto
qed



end
