(* ===== verification/HubRegistry.thy ===== *)
theory HubRegistry
  imports HubServer
begin

text \<open>
  The life of the hub's registry as a step relation: satellites connect, connections close,
  messages arrive and are written, calls register and end, schedules, peers and keys change, in
  any order. \<open>Close\<close> is not atomic: the done channel and the socket are closed first, then
  \<open>unregister\<close> waits for the hub's mutex, then the waiting calls are woken, and other goroutines run
  in between; so a registered connection can already be closed. A handler that takes several locks
  one after the other is a sequence of steps (\<open>AddSchedule\<close> stores the schedule and then pushes).
  The invariant holds in every reachable state in which the hub's mutex is free; the one operation
  that can leave the mutex held for ever is the registration of a satellite that is already
  registered. \<open>hub_inv\<close> is the invariant of a state in which no \<open>Close\<close> is under way.
\<close>

section \<open>Between closings\<close>

definition store_ok :: "agent_conn \<Rightarrow> bool" where
  "store_ok c \<longleftrightarrow> conn_inv c \<and> (ac_done c \<longleftrightarrow> ac_pending c = None)"

definition hub_inv :: "hub \<Rightarrow> bool" where
  "hub_inv h \<longleftrightarrow> \<not> hb_locked h \<and> distinct (map fst (hb_conns h)) \<and> distinct (hb_peers h) \<and>
     [] \<notin> set (hb_peers h) \<and>
     (\<forall>(a, r)\<in>set (hb_conns h). r < length (hb_store h) \<and> ac_id (hb_store h ! r) = a \<and>
        \<not> ac_done (hb_store h ! r)) \<and>
     (\<forall>c\<in>set (hb_store h). store_ok c)"

lemma hub_inv_entry:
  assumes "hub_inv h" "map_of (hb_conns h) a = Some r"
  shows "r < length (hb_store h)" "ac_id (hb_store h ! r) = a" "\<not> ac_done (hb_store h ! r)"
  using assms map_of_SomeD [OF assms(2)] by (auto simp: hub_inv_def)

lemma hub_inv_store: "hub_inv h \<Longrightarrow> r < length (hb_store h) \<Longrightarrow> store_ok (hb_store h ! r)"
  by (auto simp: hub_inv_def)

lemma hub_inv_new [inv_intros]: "hub_inv (new_hub fs tok reg dir seeds url adv)"
proof -
  have "distinct (fold add_once xs acc)" if "distinct acc" for xs acc :: "string list"
    using that by (induction xs arbitrary: acc) auto
  moreover have "set (fold add_once xs acc) = set xs \<union> set acc" for xs acc :: "string list"
    by (induction xs arbitrary: acc) auto
  ultimately show ?thesis by (simp add: hub_inv_def new_hub_def)
qed

lemma hub_inv_upd_conn:
  assumes "hub_inv h" "r < length (hb_store h)" "store_ok (f (hb_store h ! r))"
    and "ac_id (f (hb_store h ! r)) = ac_id (hb_store h ! r)"
    and "ac_done (f (hb_store h ! r)) \<longrightarrow> r \<notin> snd ` set (hb_conns h)"
  shows "hub_inv (upd_conn r f h)"
proof -
  have "hb_store (upd_conn r f h) = (hb_store h)[r := f (hb_store h ! r)]" by (simp add: upd_conn_def)
  then have "\<forall>c\<in>set (hb_store (upd_conn r f h)). store_ok c"
    using assms(1,3) set_update_subset_insert [of "hb_store h" r "f (hb_store h ! r)"]
    by (auto simp: hub_inv_def)
  moreover have "\<forall>(a, i)\<in>set (hb_conns h). i < length (hb_store h) \<and>
      ac_id (hb_store (upd_conn r f h) ! i) = a \<and> \<not> ac_done (hb_store (upd_conn r f h) ! i)"
  proof (clarify, intro conjI)
    fix a i
    assume i: "(a, i) \<in> set (hb_conns h)"
    then show "i < length (hb_store h)" using assms(1) by (auto simp: hub_inv_def)
    have old: "ac_id (hb_store h ! i) = a" "\<not> ac_done (hb_store h ! i)"
      using assms(1) i by (auto simp: hub_inv_def)
    show "ac_id (hb_store (upd_conn r f h) ! i) = a"
      using old assms(2,4) by (cases "i = r") (simp_all add: upd_conn_store)
    have "i \<in> snd ` set (hb_conns h)" using i by force
    then show "\<not> ac_done (hb_store (upd_conn r f h) ! i)"
      using old assms(2,5) by (auto simp: upd_conn_store split: if_splits)
  qed
  ultimately show ?thesis using assms(1) by (simp add: hub_inv_def)
qed

section \<open>Connecting and disconnecting\<close>

lemma hub_inv_add_connection:
  assumes "hub_inv h" "add_connection h a = (h1, r)"
  shows "hub_inv h1" "r = length (hb_store h)" "length (hb_store h1) = Suc r"
    "hb_conns h1 = hb_conns h" "hb_store h1 ! r = new_agent_connection a" "\<not> hb_locked h1"
    "\<And>i. i < r \<Longrightarrow> hb_store h1 ! i = hb_store h ! i"
proof -
  have h1: "h1 = h\<lparr>hb_store := hb_store h @ [new_agent_connection a]\<rparr>" "r = length (hb_store h)"
    using assms(2) by (auto simp: add_connection_def)
  have "store_ok (new_agent_connection a)"
    using conn_inv_new by (auto simp: store_ok_def new_agent_connection_def)
  then show "hub_inv h1" using assms(1) h1 by (fastforce simp: hub_inv_def nth_append)
  show "r = length (hb_store h)" "length (hb_store h1) = Suc r"
    "hb_conns h1 = hb_conns h" "hb_store h1 ! r = new_agent_connection a" "\<not> hb_locked h1"
    "\<And>i. i < r \<Longrightarrow> hb_store h1 ! i = hb_store h ! i"
    using h1 assms(1) by (simp_all add: hub_inv_def nth_append)
qed

lemma register_new:
  assumes "hub_inv h" "r < length (hb_store h)" "map_of (hb_conns h) (ac_id (hb_store h ! r)) = None"
    and "\<not> ac_done (hb_store h ! r)"
  shows "register h r = (h\<lparr>hb_conns := assoc_put (ac_id (hb_store h ! r)) r (hb_conns h)\<rparr>, True)"
    and "hub_inv (h\<lparr>hb_conns := assoc_put (ac_id (hb_store h ! r)) r (hb_conns h)\<rparr>)"
  using assms by (auto simp: register_def hub_inv_def set_assoc_put Let_def)

text \<open>The registration of a satellite that is already registered closes the old connection under the
  mutex, and the closing needs the mutex, or waits for another closing that does.\<close>

lemma register_stuck:
  assumes "\<not> hb_locked h" "map_of (hb_conns h) (ac_id (hb_store h ! r)) = Some old"
    and "ac_pending (hb_store h ! old) \<noteq> None"
  shows "\<exists>h'. register h r = (h', False) \<and> hb_locked h'"
  using assms by (auto simp: register_def close_conn_def unregister_def Let_def)

lemma close_conn_live:
  assumes "hub_inv h" "r < length (hb_store h)" "\<not> ac_done (hb_store h ! r)"
  obtains h' c where "close_conn h r = (h', True)" "close_pending (close_done (hb_store h ! r)) = Some c"
    "h' = h\<lparr>hb_conns := assoc_del (ac_id (hb_store h ! r)) (hb_conns h), hb_store := (hb_store h)[r := c]\<rparr>"
    "hub_inv h'"
proof -
  let ?a = "ac_id (hb_store h ! r)"
  have ci: "conn_inv (close_done (hb_store h ! r))"
    using hub_inv_store [OF assms(1,2)] by (auto simp: store_ok_def intro: inv_intros)
  obtain c where c: "close_pending (close_done (hb_store h ! r)) = Some c" "conn_inv c" "ac_pending c = None"
    "ac_done c" "ac_id c = ?a"
    by (rule close_pending_ok [OF ci]) (simp add: close_done_def)
  let ?h2 = "h\<lparr>hb_conns := assoc_del ?a (hb_conns h)\<rparr>"
  let ?h' = "h\<lparr>hb_conns := assoc_del ?a (hb_conns h), hb_store := (hb_store h)[r := c]\<rparr>"
  have e: "?h' = upd_conn r (\<lambda>_. c) ?h2" by (simp add: upd_conn_def)
  have "close_conn h r = (?h', True)"
    using assms c(1) by (simp add: close_conn_def unregister_def hub_inv_def Let_def upd_conn_def)
  moreover have "hub_inv ?h2" using assms(1) by (auto simp: hub_inv_def set_assoc_del)
  moreover have "r \<notin> snd ` set (hb_conns ?h2)"
    using assms(1) by (auto simp: hub_inv_def set_assoc_del)
  ultimately show ?thesis
    using that [OF _ c(1) refl] c assms(2) hub_inv_upd_conn [of ?h2 r "\<lambda>_. c"]
    unfolding e by (simp add: store_ok_def)
qed

section \<open>Steps\<close>

text \<open>How far the \<open>Close\<close> of a connection is: not begun or finished, before \<open>unregister\<close>, before it
  wakes the calls.\<close>

datatype close_at = NotClosing | AtUnregister | AtWake

record hub_run =
  ru_hub :: hub
  ru_close :: "nat \<Rightarrow> close_at"

definition quiet_run :: "hub \<Rightarrow> hub_run" where
  "quiet_run h = \<lparr>ru_hub = h, ru_close = (\<lambda>_. NotClosing)\<rparr>"

abbreviation conn_at :: "hub_run \<Rightarrow> nat \<Rightarrow> agent_conn" where
  "conn_at s r \<equiv> hb_store (ru_hub s) ! r"

abbreviation made :: "hub_run \<Rightarrow> nat \<Rightarrow> bool" where
  "made s r \<equiv> r < length (hb_store (ru_hub s))"

inductive hub_step :: "hub_run \<Rightarrow> hub_run \<Rightarrow> bool" where
  connect: "add_connection (ru_hub s) a = (h1, r) \<Longrightarrow> register h1 r = (h2, ok) \<Longrightarrow>
    hub_step s (s\<lparr>ru_hub := h2\<rparr>)"
| close_begin: "made s r \<Longrightarrow> \<not> ac_done (conn_at s r) \<Longrightarrow>
    hub_step s (s\<lparr>ru_hub := upd_conn r close_done (ru_hub s), ru_close := (ru_close s)(r := AtUnregister)\<rparr>)"
| close_unregister: "ru_close s r = AtUnregister \<Longrightarrow> unregister (ru_hub s) (ac_id (conn_at s r)) = Some h \<Longrightarrow>
    hub_step s (s\<lparr>ru_hub := h, ru_close := (ru_close s)(r := AtWake)\<rparr>)"
| close_wake: "ru_close s r = AtWake \<Longrightarrow> close_pending (conn_at s r) = Some c \<Longrightarrow>
    hub_step s (s\<lparr>ru_hub := upd_conn r (\<lambda>_. c) (ru_hub s), ru_close := (ru_close s)(r := NotClosing)\<rparr>)"
| receive: "made s r \<Longrightarrow> handle_incoming_message (conn_at s r) msg = Some c \<Longrightarrow>
    hub_step s (s\<lparr>ru_hub := upd_conn r (\<lambda>_. c) (ru_hub s)\<rparr>)"
| written: "made s r \<Longrightarrow> take_send (conn_at s r) = Some (msg, c) \<Longrightarrow>
    hub_step s (s\<lparr>ru_hub := upd_conn r (\<lambda>_. c) (ru_hub s)\<rparr>)"
| call_name: "made s r \<Longrightarrow> next_request_id (conn_at s r) = (c, rid) \<Longrightarrow>
    hub_step s (s\<lparr>ru_hub := upd_conn r (\<lambda>_. c) (ru_hub s)\<rparr>)"
| call_register: "made s r \<Longrightarrow> register_pending (conn_at s r) rid = Some (c, ch) \<Longrightarrow>
    hub_step s (s\<lparr>ru_hub := upd_conn r (\<lambda>_. c) (ru_hub s)\<rparr>)"
| call_send: "made s r \<Longrightarrow> hub_step s (s\<lparr>ru_hub := upd_conn r (\<lambda>c. try_send c msg) (ru_hub s)\<rparr>)"
| call_end: "made s r \<Longrightarrow> hub_step s (s\<lparr>ru_hub := upd_conn r (\<lambda>c. cleanup_pending c rid) (ru_hub s)\<rparr>)"
| store_schedule: "hub_step s (s\<lparr>ru_hub := put_schedule (ru_hub s) sched\<rparr>)"
| drop_schedule: "hub_step s (s\<lparr>ru_hub := del_schedule (ru_hub s) sid\<rparr>)"
| push_schedules: "sync_agent_schedules now nano (ru_hub s) a = Some h \<Longrightarrow> hub_step s (s\<lparr>ru_hub := h\<rparr>)"
| push_urls: "push_failover_urls nano (ru_hub s) a = Some h \<Longrightarrow> hub_step s (s\<lparr>ru_hub := h\<rparr>)"
| learn_peer: "add_peer cr (ru_hub s) p = (h, out) \<Longrightarrow> hub_step s (s\<lparr>ru_hub := h\<rparr>)"
| save_key: "save_peer_public_key cr (ru_hub s) a k = Inr h \<Longrightarrow> hub_step s (s\<lparr>ru_hub := h\<rparr>)"
| change_files: "hub_step s (s\<lparr>ru_hub := (ru_hub s)\<lparr>hb_fs := fs\<rparr>\<rparr>)"

text \<open>A \<open>Close\<close> and an \<open>AddSchedule\<close> that nothing interrupts are runs of these steps.\<close>

lemma close_conn_steps:
  assumes "made s r" "\<not> ac_done (conn_at s r)" "close_conn (ru_hub s) r = (h, True)"
  shows "hub_step\<^sup>*\<^sup>* s (s\<lparr>ru_hub := h, ru_close := (ru_close s)(r := NotClosing)\<rparr>)"
proof -
  let ?s1 = "s\<lparr>ru_hub := upd_conn r close_done (ru_hub s), ru_close := (ru_close s)(r := AtUnregister)\<rparr>"
  obtain h2 c where u: "unregister (upd_conn r close_done (ru_hub s)) (ac_id (conn_at s r)) = Some h2"
    and c: "close_pending (hb_store h2 ! r) = Some c" "h = upd_conn r (\<lambda>_. c) h2"
    using assms(2,3) by (auto simp: close_conn_def Let_def split: option.splits)
  let ?s2 = "?s1\<lparr>ru_hub := h2, ru_close := (ru_close ?s1)(r := AtWake)\<rparr>"
  have "hub_step s ?s1" using assms(1,2) by (rule close_begin)
  moreover have "hub_step ?s1 ?s2"
    using u assms(1) by (intro close_unregister) (simp_all add: upd_conn_store close_done_def)
  moreover have "hub_step ?s2 (?s2\<lparr>ru_hub := h, ru_close := (ru_close ?s2)(r := NotClosing)\<rparr>)"
    using close_wake [of ?s2 r c] c by simp
  ultimately show ?thesis by (auto intro: converse_rtranclp_into_rtranclp)
qed

lemma add_schedule_steps:
  assumes "add_schedule now nano (ru_hub s) sched = Some (h, out)"
  shows "hub_step\<^sup>*\<^sup>* s (s\<lparr>ru_hub := h\<rparr>)"
proof -
  let ?s = "s\<lparr>ru_hub := put_schedule (ru_hub s) sched\<rparr>"
  have "hub_step ?s (?s\<lparr>ru_hub := h\<rparr>)"
    using assms by (intro push_schedules) (auto simp: add_schedule_def split: option.splits)
  then show ?thesis using store_schedule [of s sched] by (auto intro: converse_rtranclp_into_rtranclp)
qed

text \<open>A held mutex stays held.\<close>

lemma register_locked: "hb_locked h \<Longrightarrow> register h r = (h, False)"
  by (simp add: register_def)

lemma hub_step_locked: "hub_step s t \<Longrightarrow> hb_locked (ru_hub s) \<Longrightarrow> hb_locked (ru_hub t)"
proof (induction rule: hub_step.induct)
  case (connect s a h1 r h2 ok)
  then show ?case by (auto simp: add_connection_def register_def)
next
  case (learn_peer cr s p h out)
  then show ?case by (auto simp: add_peer_def Let_def split: if_splits)
next
  case (save_key cr s a k h)
  then show ?case by (auto simp: save_peer_public_key_def split: option.splits sum.splits)
qed (auto simp: unregister_def sync_agent_schedules_def push_failover_urls_def)

lemma hub_steps_locked: "hub_step\<^sup>*\<^sup>* s t \<Longrightarrow> hb_locked (ru_hub s) \<Longrightarrow> hb_locked (ru_hub t)"
  by (induction rule: rtranclp_induct) (auto dest: hub_step_locked)

section \<open>The invariant of every run\<close>

text \<open>How the stage of its \<open>Close\<close> shows on a connection: the registered one of its name until
  \<open>unregister\<close>, with a table of calls until these are woken.\<close>

definition holds_name :: "hub \<Rightarrow> nat \<Rightarrow> bool" where
  "holds_name h r \<longleftrightarrow> map_of (hb_conns h) (ac_id (hb_store h ! r)) = Some r"

fun stage_ok :: "agent_conn \<Rightarrow> bool \<Rightarrow> close_at \<Rightarrow> bool" where
  "stage_ok c holds NotClosing \<longleftrightarrow> (if ac_done c then \<not> holds \<and> ac_pending c = None else holds \<and> ac_pending c \<noteq> None)"
| "stage_ok c holds AtUnregister \<longleftrightarrow> ac_done c \<and> holds \<and> ac_pending c \<noteq> None"
| "stage_ok c holds AtWake \<longleftrightarrow> ac_done c \<and> \<not> holds \<and> ac_pending c \<noteq> None"

definition entries_ok :: "hub \<Rightarrow> bool" where
  "entries_ok h \<longleftrightarrow> \<not> hb_locked h \<and> distinct (map fst (hb_conns h)) \<and> distinct (hb_peers h) \<and> [] \<notin> set (hb_peers h) \<and>
     (\<forall>a r. map_of (hb_conns h) a = Some r \<longrightarrow> r < length (hb_store h) \<and> ac_id (hb_store h ! r) = a)"

definition run_inv :: "hub_run \<Rightarrow> bool" where
  "run_inv s \<longleftrightarrow> entries_ok (ru_hub s) \<and> (\<forall>r. made s r \<longrightarrow>
       conn_inv (conn_at s r) \<and> stage_ok (conn_at s r) (holds_name (ru_hub s) r) (ru_close s r)) \<and>
     (\<forall>r. \<not> made s r \<longrightarrow> ru_close s r = NotClosing)"

lemma run_invD:
  assumes "run_inv s"
  shows "entries_ok (ru_hub s)" "\<not> hb_locked (ru_hub s)"
    "made s r \<Longrightarrow> conn_inv (conn_at s r)"
    "made s r \<Longrightarrow> stage_ok (conn_at s r) (holds_name (ru_hub s) r) (ru_close s r)"
    "ru_close s r \<noteq> NotClosing \<Longrightarrow> made s r"
    "map_of (hb_conns (ru_hub s)) a = Some r \<Longrightarrow> made s r \<and> ac_id (conn_at s r) = a \<and> holds_name (ru_hub s) r"
  using assms by (auto simp: run_inv_def entries_ok_def holds_name_def)

lemma run_inv_new: "run_inv (quiet_run (new_hub fs tok reg dir seeds url adv))"
  using hub_inv_new [of fs tok reg dir seeds url adv]
  by (simp add: run_inv_def entries_ok_def hub_inv_def quiet_run_def) (simp add: new_hub_def)

text \<open>With no \<open>Close\<close> under way the simpler invariant holds.\<close>

lemma run_inv_quiet:
  assumes "run_inv s" "\<forall>r. ru_close s r = NotClosing"
  shows "hub_inv (ru_hub s)"
proof -
  have c: "store_ok (conn_at s r) \<and> (holds_name (ru_hub s) r \<longrightarrow> \<not> ac_done (conn_at s r))" if "made s r" for r
    using run_invD(3,4) [OF assms(1) that] assms(2) by (auto simp: store_ok_def split: if_splits)
  have d: "distinct (map fst (hb_conns (ru_hub s)))" using run_invD(1) [OF assms(1)] by (simp add: entries_ok_def)
  have "\<forall>(a, r)\<in>set (hb_conns (ru_hub s)). made s r \<and> ac_id (conn_at s r) = a \<and> \<not> ac_done (conn_at s r)"
    using c run_invD(6) [OF assms(1)] map_of_is_SomeI [OF d] by blast
  moreover have "\<forall>c\<in>set (hb_store (ru_hub s)). store_ok c" using c by (auto simp: in_set_conv_nth)
  ultimately show ?thesis using run_invD(1) [OF assms(1)] by (simp add: hub_inv_def entries_ok_def)
qed

text \<open>A change of one connection that keeps its name and its stage.\<close>

lemma run_inv_local:
  assumes "run_inv s" "made s r" "conn_inv (f (conn_at s r))" "ac_id (f (conn_at s r)) = ac_id (conn_at s r)"
    and "ac_done (f (conn_at s r)) = ac_done (conn_at s r)"
    and "ac_pending (f (conn_at s r)) = None \<longleftrightarrow> ac_pending (conn_at s r) = None"
  shows "run_inv (s\<lparr>ru_hub := upd_conn r f (ru_hub s)\<rparr>)"
proof -
  have st: "stage_ok (f (conn_at s r)) b p = stage_ok (conn_at s r) b p" for b p
    using assms(5,6) by (cases p) simp_all
  have "holds_name (upd_conn r f (ru_hub s)) i = holds_name (ru_hub s) i" for i
    using assms(2,4) by (simp add: holds_name_def upd_conn_store)
  then show ?thesis
    using assms(1-4) by (auto simp: run_inv_def entries_ok_def upd_conn_store st)
qed

lemma run_inv_same:
  assumes "run_inv s" "hb_conns h = hb_conns (ru_hub s)" "hb_store h = hb_store (ru_hub s)"
    "hb_locked h = hb_locked (ru_hub s)" "distinct (hb_peers h)" "[] \<notin> set (hb_peers h)"
  shows "run_inv (s\<lparr>ru_hub := h\<rparr>)"
proof -
  have "holds_name h = holds_name (ru_hub s)" using assms(2,3) by (simp add: holds_name_def fun_eq_iff)
  then show ?thesis using assms by (simp add: run_inv_def entries_ok_def)
qed

lemma run_inv_peers: "run_inv s \<Longrightarrow> distinct (hb_peers (ru_hub s)) \<and> [] \<notin> set (hb_peers (ru_hub s))"
  using run_invD(1) by (simp add: entries_ok_def)

lemma run_inv_send:
  assumes "run_inv s"
  shows "run_inv (s\<lparr>ru_hub := send_to_agent (ru_hub s) a m\<rparr>)"
proof (cases "map_of (hb_conns (ru_hub s)) a")
  case None
  then show ?thesis using assms by (simp add: send_to_agent_def)
next
  case (Some r)
  then have r: "made s r" using run_invD(6) [OF assms] by blast
  then show ?thesis
    using run_inv_local [OF assms r, of "\<lambda>c. try_send c m"] run_invD(3) [OF assms r] conn_inv_try_send Some
    by (simp add: send_to_agent_def)
qed

subsection \<open>The steps\<close>

lemma run_inv_connect:
  assumes "run_inv s" "add_connection (ru_hub s) a = (h1, r)" "register h1 r = (h2, ok)"
  shows "run_inv (s\<lparr>ru_hub := h2\<rparr>) \<or> hb_locked h2"
proof -
  have h1: "h1 = (ru_hub s)\<lparr>hb_store := hb_store (ru_hub s) @ [new_agent_connection a]\<rparr>" "r = length (hb_store (ru_hub s))"
    using assms(2) by (auto simp: add_connection_def)
  have nl: "\<not> hb_locked h1" using run_invD(2) [OF assms(1)] h1 by simp
  have id: "ac_id (hb_store h1 ! r) = a" by (simp add: h1 new_agent_connection_def)
  show ?thesis
  proof (cases "map_of (hb_conns h1) a")
    case (Some old)
    then have old: "made s old" "holds_name (ru_hub s) old"
      using run_invD(6) [OF assms(1), of a old] by (simp_all add: h1)
    have "ac_pending (conn_at s old) \<noteq> None"
      using run_invD(4) [OF assms(1) old(1)] old(2) by (cases "ru_close s old") (auto split: if_splits)
    then have "ac_pending (hb_store h1 ! old) \<noteq> None" using old(1) by (simp add: h1 nth_append)
    then have "\<exists>h'. register h1 r = (h', False) \<and> hb_locked h'"
      using register_stuck [OF nl, of r old] id Some by simp
    then show ?thesis using assms(3) by auto
  next
    case None
    then have h2: "h2 = h1\<lparr>hb_conns := assoc_put a r (hb_conns h1)\<rparr>"
      using assms(3) nl id by (simp add: register_def Let_def)
    have e: "entries_ok (ru_hub s)" by (rule run_invD(1) [OF assms(1)])
    have conns: "map_of (hb_conns h2) = (map_of (hb_conns (ru_hub s)))(a \<mapsto> r)" by (simp add: h2 h1)
    have store: "hb_store h2 ! i = (if i = r then new_agent_connection a else conn_at s i)" if "i \<le> r" for i
      using that by (simp add: h2 h1 nth_append)
    have name: "holds_name h2 i = holds_name (ru_hub s) i" if "i < r" for i
      using that None run_invD(6) [OF assms(1), of "ac_id (conn_at s i)" i] unfolding holds_name_def conns
      by (auto simp: store h1)
    have "entries_ok h2"
      using e unfolding entries_ok_def conns by (auto simp: h2 h1 nth_append new_agent_connection_def intro: less_SucI)
    moreover have "conn_inv (hb_store h2 ! i) \<and> stage_ok (hb_store h2 ! i) (holds_name h2 i) (ru_close s i)"
      if "i < length (hb_store h2)" for i
    proof (cases "i = r")
      case True
      have "ru_close s r = NotClosing" using assms(1) h1(2) by (simp add: run_inv_def)
      moreover have "holds_name h2 r" unfolding holds_name_def conns by (simp add: store new_agent_connection_def)
      ultimately show ?thesis
        using conn_inv_new [of a] by (simp add: True store) (simp add: new_agent_connection_def)
    next
      case False
      then have "i < r" using that by (simp add: h2 h1)
      then show ?thesis using run_invD(3,4) [OF assms(1), of i] name [of i] by (simp add: store h1(2))
    qed
    moreover have "ru_close s i = NotClosing" if "\<not> i < length (hb_store h2)" for i
      using that assms(1) by (simp add: run_inv_def h2 h1)
    ultimately show ?thesis by (simp add: run_inv_def)
  qed
qed

lemma run_inv_stage:
  assumes "run_inv s" "made s r" "entries_ok h" "length (hb_store h) = length (hb_store (ru_hub s))"
    and "\<And>i. i \<noteq> r \<Longrightarrow> hb_store h ! i = conn_at s i \<and> holds_name h i = holds_name (ru_hub s) i"
    and "conn_inv (hb_store h ! r)" "stage_ok (hb_store h ! r) (holds_name h r) p"
  shows "run_inv (s\<lparr>ru_hub := h, ru_close := (ru_close s)(r := p)\<rparr>)"
  using assms by (auto simp: run_inv_def)

lemma run_inv_close_begin:
  assumes "run_inv s" "made s r" "\<not> ac_done (conn_at s r)"
  shows "run_inv (s\<lparr>ru_hub := upd_conn r close_done (ru_hub s), ru_close := (ru_close s)(r := AtUnregister)\<rparr>)"
proof (rule run_inv_stage [OF assms(1,2)])
  let ?h = "upd_conn r close_done (ru_hub s)"
  have n: "ac_id (close_done c) = ac_id c" for c by (simp add: close_done_def)
  have holds: "holds_name ?h i = holds_name (ru_hub s) i" for i
    using assms(2) by (simp add: holds_name_def upd_conn_store n)
  show "entries_ok ?h" using run_invD(1) [OF assms(1)] assms(2) by (auto simp: entries_ok_def upd_conn_store n)
  show "hb_store ?h ! i = conn_at s i \<and> holds_name ?h i = holds_name (ru_hub s) i" if "i \<noteq> r" for i
    using that holds assms(2) by (simp add: upd_conn_store)
  show "conn_inv (hb_store ?h ! r)"
    using run_invD(3) [OF assms(1,2)] assms(2) by (simp add: upd_conn_store conn_inv_close_done)
  show "stage_ok (hb_store ?h ! r) (holds_name ?h r) AtUnregister"
    using run_invD(4) [OF assms(1,2)] assms(2,3)
    by (cases "ru_close s r") (auto simp: upd_conn_store holds close_done_def)
qed simp

lemma run_inv_close_unregister:
  assumes "run_inv s" "ru_close s r = AtUnregister" "unregister (ru_hub s) (ac_id (conn_at s r)) = Some h"
  shows "run_inv (s\<lparr>ru_hub := h, ru_close := (ru_close s)(r := AtWake)\<rparr>)"
proof -
  have r: "made s r" using run_invD(5) [OF assms(1)] assms(2) by simp
  have st: "ac_done (conn_at s r)" "holds_name (ru_hub s) r" "ac_pending (conn_at s r) \<noteq> None"
    using run_invD(4) [OF assms(1) r] assms(2) by simp_all
  have h: "h = (ru_hub s)\<lparr>hb_conns := assoc_del (ac_id (conn_at s r)) (hb_conns (ru_hub s))\<rparr>"
    using assms(3) by (simp add: unregister_def split: if_splits)
  have conns: "map_of (hb_conns h) = (map_of (hb_conns (ru_hub s)))(ac_id (conn_at s r) := None)" by (simp add: h)
  show ?thesis
  proof (rule run_inv_stage [OF assms(1) r])
    show "entries_ok h" using run_invD(1) [OF assms(1)] unfolding entries_ok_def conns by (auto simp: h)
    show "hb_store h ! i = conn_at s i \<and> holds_name h i = holds_name (ru_hub s) i" if "i \<noteq> r" for i
      using that st(2) unfolding holds_name_def conns by (auto simp: h)
    show "conn_inv (hb_store h ! r)" using run_invD(3) [OF assms(1) r] by (simp add: h)
    show "stage_ok (hb_store h ! r) (holds_name h r) AtWake" using st unfolding holds_name_def conns by (simp add: h)
  qed (simp add: h)
qed

lemma run_inv_close_wake:
  assumes "run_inv s" "ru_close s r = AtWake" "close_pending (conn_at s r) = Some c"
  shows "run_inv (s\<lparr>ru_hub := upd_conn r (\<lambda>_. c) (ru_hub s), ru_close := (ru_close s)(r := NotClosing)\<rparr>)"
proof -
  let ?h = "upd_conn r (\<lambda>_. c) (ru_hub s)"
  have r: "made s r" using run_invD(5) [OF assms(1)] assms(2) by simp
  have c: "conn_inv c" "ac_pending c = None" "ac_id c = ac_id (conn_at s r)" "ac_done c = ac_done (conn_at s r)"
    by (rule close_pending_ok [OF run_invD(3) [OF assms(1) r]]; use assms(3) in simp)+
  have st: "ac_done (conn_at s r)" "\<not> holds_name (ru_hub s) r"
    using run_invD(4) [OF assms(1) r] assms(2) by simp_all
  have holds: "holds_name ?h i = holds_name (ru_hub s) i" for i
    using r c(3) by (simp add: holds_name_def upd_conn_store)
  show ?thesis
  proof (rule run_inv_stage [OF assms(1) r])
    show "entries_ok ?h" using run_invD(1) [OF assms(1)] r c(3) by (auto simp: entries_ok_def upd_conn_store)
    show "hb_store ?h ! i = conn_at s i \<and> holds_name ?h i = holds_name (ru_hub s) i" if "i \<noteq> r" for i
      using that holds r by (simp add: upd_conn_store)
    show "conn_inv (hb_store ?h ! r)" using c(1) r by (simp add: upd_conn_store)
    show "stage_ok (hb_store ?h ! r) (holds_name ?h r) NotClosing"
      using r c st by (simp add: upd_conn_store holds)
  qed simp
qed

lemma deliver_response_frame:
  assumes "deliver_response c rid resp = Some c'"
  shows "ac_done c' = ac_done c" "ac_id c' = ac_id c" "ac_pending c' = None \<longleftrightarrow> ac_pending c = None"
  using assms
  by (auto simp: deliver_response_def cleanup_pending_def split: option.splits)

lemma handle_incoming_frame:
  assumes "handle_incoming_message c msg = Some c'"
  shows "ac_done c' = ac_done c" "ac_id c' = ac_id c" "ac_pending c' = None \<longleftrightarrow> ac_pending c = None"
proof -
  have "ac_done c' = ac_done c \<and> ac_id c' = ac_id c \<and> (ac_pending c' = None \<longleftrightarrow> ac_pending c = None)"
  proof (cases "incoming_answer msg")
    case None
    then show ?thesis using assms by (auto simp: handle_incoming_cases split: option.splits if_splits)
  next
    case (Some p)
    then show ?thesis
      using assms deliver_response_frame [of c "fst p" "snd p" c']
      by (simp add: handle_incoming_cases split: prod.splits)
  qed
  then show "ac_done c' = ac_done c" "ac_id c' = ac_id c" "ac_pending c' = None \<longleftrightarrow> ac_pending c = None"
    by auto
qed

lemma hub_step_inv: "hub_step s t \<Longrightarrow> run_inv s \<Longrightarrow> run_inv t \<or> hb_locked (ru_hub t)"
proof (induction rule: hub_step.induct)
  case (connect s a h1 r h2 ok)
  then show ?case using run_inv_connect [of s a h1 r h2 ok] by simp
next
  case (close_begin s r)
  then show ?case using run_inv_close_begin by blast
next
  case (close_unregister s r h)
  then show ?case using run_inv_close_unregister by blast
next
  case (close_wake s r c)
  then show ?case using run_inv_close_wake by blast
next
  case (receive s r msg c)
  have "conn_inv c" using handle_incoming_ok run_invD(3) receive by (metis option.inject)
  then show ?case
    using run_inv_local [of s r "\<lambda>_. c"] receive handle_incoming_frame [OF receive.hyps(2)] by simp
next
  case (written s r msg c)
  have "conn_inv c" using conn_inv_take_send run_invD(3) written by blast
  then show ?case
    using run_inv_local [of s r "\<lambda>_. c"] written by (auto simp: take_send_def split: list.splits)
next
  case (call_name s r c rid)
  have "conn_inv c" using conn_inv_next_id run_invD(3) call_name by (metis fst_conv)
  then show ?case
    using run_inv_local [of s r "\<lambda>_. c"] call_name by (auto simp: next_request_id_def Let_def)
next
  case (call_register s r rid c ch)
  have "conn_inv c" using conn_inv_register run_invD(3) call_register by blast
  then show ?case
    using run_inv_local [of s r "\<lambda>_. c"] call_register by (auto simp: register_pending_def split: option.splits)
next
  case (call_send s r msg)
  then show ?case using run_inv_local [of s r "\<lambda>c. try_send c msg"] run_invD(3) conn_inv_try_send by simp
next
  case (call_end s r rid)
  then show ?case using run_inv_local [of s r "\<lambda>c. cleanup_pending c rid"] run_invD(3) conn_inv_cleanup
    by (simp add: cleanup_pending_def)
next
  case (push_schedules now nano s a h)
  then show ?case using run_inv_send by (auto simp: sync_agent_schedules_def split: if_splits)
next
  case (push_urls nano s a h)
  then show ?case using run_inv_send by (auto simp: push_failover_urls_def split: if_splits)
next
  case (learn_peer cr s p h out)
  then show ?case using run_inv_peers [of s]
    by (auto simp: add_peer_def Let_def split: if_splits intro!: run_inv_same)
next
  case (save_key cr s a k h)
  then show ?case using run_inv_peers [of s]
    by (auto simp: save_peer_public_key_def split: option.splits sum.splits intro!: run_inv_same)
qed (use run_inv_peers in \<open>auto intro!: run_inv_same\<close>)

lemma hub_steps_inv: "hub_step\<^sup>*\<^sup>* s t \<Longrightarrow> run_inv s \<Longrightarrow> run_inv t \<or> hb_locked (ru_hub t)"
  by (induction rule: rtranclp_induct) (auto dest: hub_step_inv hub_step_locked)

section \<open>Properties\<close>

text \<open>C16: The registry stays consistent. In every state the hub can reach with its mutex free,
  closings under way included, each satellite has at most one registered connection, which is its
  own and has its table of calls in place; every connection that is not closed is the registered
  one of its name, and a registered one that is closed is exactly one whose \<open>Close\<close> has not yet
  taken the mutex for \<open>unregister\<close>; a connection whose closing is past that point, or over, holds
  no name; the table of each connection holds only fresh channels under distinct identifiers, no
  send queue exceeds its capacity, and the list of peers has no duplicates and no empty URL.\<close>

theorem registry_invariant:
  assumes "hub_step\<^sup>*\<^sup>* (quiet_run (new_hub fs tok reg dir seeds url adv)) s"
    and "\<not> hb_locked (ru_hub s)" "h = ru_hub s"
  shows "distinct (map fst (hb_conns h)) \<and>
    (\<forall>a r. map_of (hb_conns h) a = Some r \<longrightarrow> r < length (hb_store h) \<and> ac_id (hb_store h ! r) = a \<and>
       ac_pending (hb_store h ! r) \<noteq> None \<and> (ac_done (hb_store h ! r) \<longleftrightarrow> ru_close s r = AtUnregister)) \<and>
    (\<forall>r < length (hb_store h). \<not> ac_done (hb_store h ! r) \<longrightarrow> map_of (hb_conns h) (ac_id (hb_store h ! r)) = Some r) \<and>
    (\<forall>r < length (hb_store h). ac_pending (hb_store h ! r) = None \<or> ru_close s r = AtWake \<longrightarrow>
       ac_done (hb_store h ! r) \<and> (\<forall>a. map_of (hb_conns h) a \<noteq> Some r)) \<and>
    (\<forall>c\<in>set (hb_store h). conn_inv c) \<and> distinct (hb_peers h) \<and> [] \<notin> set (hb_peers h)"
proof -
  have inv: "run_inv s" using hub_steps_inv [OF assms(1) run_inv_new] assms(2) by blast
  note entry = run_invD(6) [OF inv] and stage = run_invD(4) [OF inv]
  have "made s r \<and> ac_id (conn_at s r) = a \<and> ac_pending (conn_at s r) \<noteq> None \<and>
      (ac_done (conn_at s r) \<longleftrightarrow> ru_close s r = AtUnregister)" if "map_of (hb_conns h) a = Some r" for a r
    using entry [of a r] that stage [of r] assms(3) by (cases "ru_close s r") (auto split: if_splits)
  moreover have "map_of (hb_conns h) (ac_id (conn_at s r)) = Some r" if "made s r" "\<not> ac_done (conn_at s r)" for r
    using stage [OF that(1)] that(2) assms(3) by (cases "ru_close s r") (auto simp: holds_name_def)
  moreover have "ac_done (conn_at s r) \<and> (\<forall>a. map_of (hb_conns h) a \<noteq> Some r)"
    if "made s r" "ac_pending (conn_at s r) = None \<or> ru_close s r = AtWake" for r
    using stage [OF that(1)] that(2) entry [of _ r] assms(3)
    by (cases "ru_close s r") (auto simp: holds_name_def split: if_splits)
  moreover have "\<forall>c\<in>set (hb_store h). conn_inv c"
    using run_invD(3) [OF inv] assms(3) by (auto simp: in_set_conv_nth)
  ultimately show ?thesis using run_invD(1) [OF inv] assms(3) by (simp add: entries_ok_def)
qed

definition sample_registry :: hub where
  "sample_registry = new_hub \<lparr>fs_files = [], fs_denied = []\<rparr> ''tok'' [] [] [] [] False"

definition sample_connected :: hub where
  "sample_connected = fst (register (fst (add_connection sample_registry ''s1'')) 0)"

text \<open>The registered connection has begun to close and has not taken the mutex.\<close>

definition sample_closing :: hub_run where
  "sample_closing = (quiet_run sample_connected)\<lparr>ru_hub := upd_conn 0 close_done sample_connected,
     ru_close := (\<lambda>_. NotClosing)(0 := AtUnregister)\<rparr>"

lemma sample_connected_facts:
  "\<not> hb_locked sample_connected" "map_of (hb_conns sample_connected) ''s1'' = Some 0"
  "hb_store sample_connected = [new_agent_connection ''s1'']"
  by (simp_all add: sample_connected_def add_connection_def sample_registry_def new_hub_def register_def
      new_agent_connection_def)

lemma sample_closing_steps: "hub_step\<^sup>*\<^sup>* (quiet_run sample_registry) sample_closing"
proof -
  have a: "add_connection sample_registry ''s1'' = (fst (add_connection sample_registry ''s1''), 0)"
    by (simp add: add_connection_def sample_registry_def new_hub_def)
  have b: "register (fst (add_connection sample_registry ''s1'')) 0 = (sample_connected, True)"
    by (simp add: sample_connected_def add_connection_def sample_registry_def new_hub_def register_def)
  have "hub_step (quiet_run sample_registry) (quiet_run sample_connected)"
    using hub_step.connect [of "quiet_run sample_registry", OF _ b] a by (simp add: quiet_run_def)
  moreover have "hub_step (quiet_run sample_connected) sample_closing"
    using close_begin [where s = "quiet_run sample_connected" and r = 0] sample_connected_facts(3)
    by (simp add: quiet_run_def sample_closing_def new_agent_connection_def)
  ultimately show ?thesis by (auto intro: converse_rtranclp_into_rtranclp)
qed

lemma sample_closing_facts:
  "\<not> hb_locked (ru_hub sample_closing)" "map_of (hb_conns (ru_hub sample_closing)) ''s1'' = Some 0"
  "ru_close sample_closing 0 = AtUnregister" "made sample_closing 0"
  "ac_pending (conn_at sample_closing 0) \<noteq> None"
  using sample_connected_facts
  by (simp_all add: sample_closing_def quiet_run_def upd_conn_store) (simp add: close_done_def new_agent_connection_def)

theorem registry_invariant_witness:
  "map_of (hb_conns (ru_hub sample_closing)) ''s1'' = Some 0 \<and> ac_done (conn_at sample_closing 0) \<and>
   ac_id (conn_at sample_closing 0) = ''s1'' \<and> ac_pending (conn_at sample_closing 0) \<noteq> None"
  using registry_invariant [OF sample_closing_steps [unfolded sample_registry_def] sample_closing_facts(1) refl]
    sample_closing_facts(2,3) by blast

text \<open>C23: A satellite connects and disconnects cleanly: registering one that is not connected
  returns and makes it the holder of its name, leaving every other entry alone; closing its
  connection returns, removes exactly its entry, wakes every call waiting on it by closing its
  channel, and takes the table away so that no later call waits.\<close>

theorem connect_disconnect:
  assumes "hub_inv h" "map_of (hb_conns h) a = None" "add_connection h a = (h1, r)"
  shows "\<exists>h2. register h1 r = (h2, True) \<and> hub_inv h2 \<and>
    map_of (hb_conns h2) = (map_of (hb_conns h))(a \<mapsto> r) \<and>
    (\<forall>h' q. hub_inv h' \<and> q < length (hb_store h') \<and> \<not> ac_done (hb_store h' ! q) \<longrightarrow>
       (\<exists>h3. close_conn h' q = (h3, True) \<and> hub_inv h3 \<and>
          map_of (hb_conns h3) = (map_of (hb_conns h'))(ac_id (hb_store h' ! q) := None) \<and>
          ac_done (hb_store h3 ! q) \<and> ac_pending (hb_store h3 ! q) = None \<and>
          (\<forall>k i. lookup_pending (hb_store h' ! q) k = Some i \<longrightarrow> rc_closed (ac_chans (hb_store h3 ! q) ! i))))"
proof -
  note h1 = hub_inv_add_connection [OF assms(1,3)]
  have "map_of (hb_conns h1) (ac_id (hb_store h1 ! r)) = None" "\<not> ac_done (hb_store h1 ! r)"
    "r < length (hb_store h1)"
    using h1 assms(2) by (simp_all add: new_agent_connection_def)
  note reg = register_new [OF h1(1) this(3,1,2)]
  have close: "\<exists>h3. close_conn h' q = (h3, True) \<and> hub_inv h3 \<and>
          map_of (hb_conns h3) = (map_of (hb_conns h'))(ac_id (hb_store h' ! q) := None) \<and>
          ac_done (hb_store h3 ! q) \<and> ac_pending (hb_store h3 ! q) = None \<and>
          (\<forall>k i. lookup_pending (hb_store h' ! q) k = Some i \<longrightarrow> rc_closed (ac_chans (hb_store h3 ! q) ! i))"
    if q: "hub_inv h'" "q < length (hb_store h')" "\<not> ac_done (hb_store h' ! q)" for h' q
  proof -
    let ?c = "hb_store h' ! q"
    obtain h3 c where c: "close_conn h' q = (h3, True)" "close_pending (close_done ?c) = Some c"
      "h3 = h'\<lparr>hb_conns := assoc_del (ac_id ?c) (hb_conns h'), hb_store := (hb_store h')[q := c]\<rparr>" "hub_inv h3"
      by (rule close_conn_live [OF q])
    have ci: "conn_inv ?c" using hub_inv_store [OF q(1,2)] by (simp add: store_ok_def)
    have lp: "lookup_pending (close_done ?c) k = lookup_pending ?c k" for k
      by (simp add: lookup_pending_def close_done_def)
    have bound: "i < length (ac_chans ?c)" if "lookup_pending ?c k = Some i" for k i
      using ci that pending_ok_lookup(1) by (auto simp: conn_inv_def lookup_pending_def split: option.splits)
    have "ac_pending c = None \<and> ac_done c \<and> (\<forall>k i. lookup_pending ?c k = Some i \<longrightarrow> rc_closed (ac_chans c ! i))"
      by (rule close_pending_ok [OF conn_inv_close_done [OF ci]])
        (use c(2) lp bound in \<open>auto simp: close_done_def new_chan_def\<close>)
    then show ?thesis using c q(2) by auto
  qed
  show ?thesis
    using reg close h1(4,5) by (intro exI [of _ "h1\<lparr>hb_conns := assoc_put (ac_id (hb_store h1 ! r)) r (hb_conns h1)\<rparr>"])
      (auto simp: new_agent_connection_def)
qed

theorem connect_disconnect_witness:
  "\<exists>h2. register (fst (add_connection sample_registry ''s1'')) 0 = (h2, True) \<and> hub_inv h2"
proof -
  have "add_connection sample_registry ''s1'' = (fst (add_connection sample_registry ''s1''), 0)"
    "map_of (hb_conns sample_registry) ''s1'' = None"
    by (simp_all add: add_connection_def sample_registry_def new_hub_def)
  moreover have "hub_inv sample_registry" unfolding sample_registry_def by (rule hub_inv_new)
  ultimately show ?thesis using connect_disconnect by blast
qed

text \<open>C22: A satellite that connects again while its old connection is still registered, closing or not,
  stops the hub. The registration never returns, and from then on, whatever happens, the mutex is
  never free: listing the satellites, dispatching any job, pushing any schedules and any
  registration never return either.\<close>

theorem reconnect_deadlock:
  assumes "\<not> hb_locked (ru_hub u)" "map_of (hb_conns (ru_hub u)) a = Some old" "made u old"
    and "ac_pending (conn_at u old) \<noteq> None" "add_connection (ru_hub u) a = (h1, r)"
    and "register h1 r = (h2, ok)" "hub_step\<^sup>*\<^sup>* (u\<lparr>ru_hub := h2\<rparr>) u3" "h3 = ru_hub u3"
  shows "\<not> ok \<and> get_connected_agents h3 = None \<and> dispatch_job quote net call h3 b allow = None \<and>
    sync_agent_schedules now nano h3 b = None \<and> add_schedule now nano h3 s = None \<and> \<not> snd (register h3 r')"
proof -
  have h1: "h1 = (ru_hub u)\<lparr>hb_store := hb_store (ru_hub u) @ [new_agent_connection a]\<rparr>"
    "r = length (hb_store (ru_hub u))"
    using assms(5) by (auto simp: add_connection_def)
  then have "map_of (hb_conns h1) (ac_id (hb_store h1 ! r)) = Some old" "ac_pending (hb_store h1 ! old) \<noteq> None"
    using assms(2,3,4) by (simp_all add: nth_append new_agent_connection_def)
  then have "hb_locked h2" "\<not> ok"
    using register_stuck [of h1 r old] assms(1,6) h1 by auto
  moreover have "hb_locked h3" using hub_steps_locked [OF assms(7)] assms(8) \<open>hb_locked h2\<close> by simp
  ultimately show ?thesis
    by (simp add: get_connected_agents_def dispatch_job_def sync_agent_schedules_def add_schedule_def
        register_def)
qed

theorem reconnect_deadlock_witness:
  "\<exists>h1 r h2 ok. add_connection (ru_hub sample_closing) ''s1'' = (h1, r) \<and> register h1 r = (h2, ok) \<and> \<not> ok \<and>
     get_connected_agents h2 = None"
proof -
  obtain h1 r where a: "add_connection (ru_hub sample_closing) ''s1'' = (h1, r)" by force
  obtain h2 ok where b: "register h1 r = (h2, ok)" by force
  have "\<not> ok \<and> get_connected_agents (ru_hub (sample_closing\<lparr>ru_hub := h2\<rparr>)) = None"
    using reconnect_deadlock [OF sample_closing_facts(1,2,4,5) a b rtranclp.rtrancl_refl refl] by blast
  then have "\<not> ok \<and> get_connected_agents h2 = None" by simp
  then show ?thesis using a b by blast
qed

end
