(* ===== verification/HubAuth.thy ===== *)
theory HubAuth
  imports HubRegistry GoRegex
begin

text \<open>
  The hub's gate, \<open>Hub.ServeHTTP\<close> of \<open>hub/server.go\<close>: how a satellite's request to open a
  WebSocket is authenticated, by the signature of a registered key, by registering a new key with
  the registration token, or by the shared token, and what happens after.
\<close>

section \<open>Requests\<close>

text \<open>Header names are taken as the program writes them; \<open>net/http\<close> canonicalises both sides.\<close>

record ws_request =
  wq_headers :: "(string \<times> string) list"
  wq_query :: "(string \<times> string) list"

definition first_value :: "(string \<times> string) list \<Rightarrow> string \<Rightarrow> string" where
  "first_value kvs k = (case map_of kvs k of None \<Rightarrow> [] | Some v \<Rightarrow> v)"

definition header_or_query :: "ws_request \<Rightarrow> string \<Rightarrow> string \<Rightarrow> string" where
  "header_or_query r h q =
     (if first_value (wq_headers r) h = [] then first_value (wq_query r) q else first_value (wq_headers r) h)"

definition agent_id_regex :: regex where
  "agent_id_regex = rplus (RClass True [(97, 122), (65, 90), (48, 57), (95, 95), (45, 45)])"

definition valid_agent_id :: "string \<Rightarrow> bool" where
  "valid_agent_id s = rmatch agent_id_regex s"

section \<open>Authentication\<close>

datatype auth_result = Rejected int string | Accepted string

definition max_skew :: int where "max_skew = 120"

text \<open>The absolute difference of the clocks, in 64-bit arithmetic.\<close>

definition clock_skew :: "int \<Rightarrow> int \<Rightarrow> int" where
  "clock_skew now ts = (let d = wrap64 (now - ts) in if d < 0 then wrap64 (- d) else d)"

text \<open>A key is registered on first contact when the registration token (or else the shared one) is
  presented and the challenge is signed with the offered key. \<open>Inl\<close> is a rejection.\<close>

definition expected_reg_token :: "hub \<Rightarrow> string" where
  "expected_reg_token h = (if hb_registration_token h = [] then hb_auth_token h else hb_registration_token h)"

definition auto_register ::
  "crypto \<Rightarrow> hub \<Rightarrow> ws_request \<Rightarrow> string \<Rightarrow> string \<Rightarrow> string \<Rightarrow> (int \<times> string) + (hub \<times> http_out list \<times> string)" where
  "auto_register cr h r agent ts sig =
     (let reg_token = header_or_query r ''X-Agent-Token'' ''token'';
          key_b64 = header_or_query r ''X-Agent-PublicKey'' ''public_key''
      in if expected_reg_token h \<noteq> [] \<and> reg_token = expected_reg_token h \<and> key_b64 \<noteq> [] then
           (case right_size (b64_decode std_encoding key_b64) of
              None \<Rightarrow> Inl (401, ''Unauthorized: invalid registration public key'')
            | Some k \<Rightarrow>
                if \<not> verify_challenge cr k agent ts sig
                then Inl (401, ''Unauthorized: registration signature verification failed'')
                else if mkdir_all (hb_fs h) (hb_keys_dir h) \<noteq> None then Inl (500, ''Internal Server Error'')
                else (case save_public_key_pem cr (hb_fs h) (key_path h agent) k of
                        Inl _ \<Rightarrow> Inl (500, ''Internal Server Error'')
                      | Inr fs \<Rightarrow> (let h' = h\<lparr>hb_fs := fs\<rparr> in
                          Inr (h', broadcast_key_sync h' agent key_b64, k))))
         else Inl (401, ''Unauthorized: agent key not authorized''))"

definition signature_auth ::
  "crypto \<Rightarrow> int \<Rightarrow> hub \<Rightarrow> ws_request \<Rightarrow> string \<Rightarrow> string \<Rightarrow> string \<Rightarrow> hub \<times> http_out list \<times> auth_result" where
  "signature_auth cr now h r agent ts sig =
     (if hb_keys_dir h = [] then (h, [], Rejected 401 ''Unauthorized: signature auth not supported by Hub'')
      else (case parse_int64 ts of
        NumOk t \<Rightarrow>
          if max_skew < clock_skew now t then (h, [], Rejected 401 ''Unauthorized: timestamp expired'')
          else (case (case load_public_key cr (hb_fs h) (key_path h agent) of
                  Inr k \<Rightarrow> Inr (h, [], k)
                | Inl (FileNotExist _) \<Rightarrow> auto_register cr h r agent ts sig
                | Inl (FileError _) \<Rightarrow> Inl (401, ''Unauthorized: unauthorized agent key'')) of
              Inl (status, text) \<Rightarrow> (h, [], Rejected status text)
            | Inr (h', out, k) \<Rightarrow>
                (h', out, if verify_challenge cr k agent ts sig then Accepted agent
                          else Rejected 401 ''Unauthorized: signature verification failed''))
      | _ \<Rightarrow> (h, [], Rejected 401 ''Unauthorized: invalid timestamp'')))"

text \<open>\<open>os.Stat\<close> of the key file is taken to fail only when there is no such file. Any other failure (a
  component of the path that is not a directory, a name that is too long) is not a value of the
  model; the code then goes on to the token, as it does for a missing file.\<close>

definition token_auth :: "hub \<Rightarrow> ws_request \<Rightarrow> string \<Rightarrow> auth_result" where
  "token_auth h r agent =
     (if hb_keys_dir h \<noteq> [] \<and> fs_exists (hb_fs h) (key_path h agent)
      then Rejected 401 ''Unauthorized: signature authentication required for registered agent''
      else (let token = header_or_query r ''X-Agent-Token'' ''token'' in
        if hb_auth_token h = [] \<or> token \<noteq> hb_auth_token h then Rejected 401 ''Unauthorized''
        else Accepted agent))"

definition authenticate :: "crypto \<Rightarrow> int \<Rightarrow> hub \<Rightarrow> ws_request \<Rightarrow> hub \<times> http_out list \<times> auth_result" where
  "authenticate cr now h r =
     (let agent = header_or_query r ''X-Agent-ID'' ''agent_id'' in
      if agent = [] then (h, [], Rejected 400 ''Bad Request: X-Agent-ID header or agent_id query param required'')
      else if \<not> valid_agent_id agent then (h, [], Rejected 400 ''Bad Request: invalid agent ID format'')
      else (let sig = header_or_query r ''X-Agent-Signature'' ''signature'';
                ts = header_or_query r ''X-Agent-Timestamp'' ''timestamp''
            in if sig \<noteq> [] \<and> ts \<noteq> [] then signature_auth cr now h r agent ts sig
               else (h, [], token_auth h r agent)))"

text \<open>The whole handler. The last component says whether it returns; \<open>upgraded\<close> is whether the
  WebSocket handshake succeeded.\<close>

definition serve_http ::
  "crypto \<Rightarrow> int \<Rightarrow> int \<Rightarrow> bool \<Rightarrow> hub \<Rightarrow> ws_request \<Rightarrow> hub \<times> http_out list \<times> auth_result \<times> bool" where
  "serve_http cr now nano upgraded h r =
     (case authenticate cr now h r of
        (h1, out, Rejected status text) \<Rightarrow> (h1, out, Rejected status text, True)
      | (h1, out, Accepted agent) \<Rightarrow>
          if \<not> upgraded then (h1, out, Accepted agent, True)
          else (let (h2, c) = add_connection h1 agent in
            case register h2 c of
              (h3, False) \<Rightarrow> (h3, out, Accepted agent, False)
            | (h3, True) \<Rightarrow>
                (case sync_agent_schedules now nano h3 agent of
                   None \<Rightarrow> (h3, out, Accepted agent, False)
                 | Some h4 \<Rightarrow>
                     (case (if hb_advertise h4 then push_failover_urls nano h4 agent else Some h4) of
                        None \<Rightarrow> (h4, out, Accepted agent, False)
                      | Some h5 \<Rightarrow> (h5, out, Accepted agent, True)))))"

section \<open>Facts\<close>

definition agent_id_char :: "char \<Rightarrow> bool" where
  "agent_id_char c \<longleftrightarrow> is_alnum c \<or> c = CHR ''_'' \<or> c = CHR ''-''"

lemma valid_agent_id_iff: "valid_agent_id s \<longleftrightarrow> s \<noteq> [] \<and> (\<forall>c\<in>set s. agent_id_char c)"
proof -
  have b: "c = CHR ''_'' \<longleftrightarrow> byte c = 95" "c = CHR ''-'' \<longleftrightarrow> byte c = 45" for c
  proof -
    have "byte CHR ''_'' = 95" "byte CHR ''-'' = 45" by (simp_all add: byte_def)
    then show "c = CHR ''_'' \<longleftrightarrow> byte c = 95" "c = CHR ''-'' \<longleftrightarrow> byte c = 45" by (metis byte_inject)+
  qed
  have "in_class True [(97, 122), (65, 90), (48, 57), (95, 95), (45, 45)] c = agent_id_char c" for c
    by (auto simp: in_class.simps agent_id_char_def is_alnum_def is_digit_def in_range_def b)
  then show ?thesis
    by (simp add: valid_agent_id_def agent_id_regex_def rmatch_rplus_class list_all_iff)
qed

lemma agent_id_char_plain: "agent_id_char c \<Longrightarrow> c \<noteq> CHR ''/'' \<and> c \<noteq> CHR ''.'' \<and> c \<noteq> CHR '':''"
proof -
  have "byte CHR ''/'' = 47" "byte CHR ''.'' = 46" "byte CHR '':'' = 58" "byte CHR ''_'' = 95"
    "byte CHR ''-'' = 45" by (simp_all add: byte_def)
  then show "agent_id_char c \<Longrightarrow> c \<noteq> CHR ''/'' \<and> c \<noteq> CHR ''.'' \<and> c \<noteq> CHR '':''"
    by (auto simp: agent_id_char_def is_alnum_def is_digit_def in_range_def)
qed

lemma valid_agent_id_elem:
  assumes "valid_agent_id a"
  shows "plain_elem (a @ ''.pub'')" "CHR ''/'' \<notin> set (a @ ''.pub'')" "CHR '':'' \<notin> set a"
proof -
  obtain c cs where a: "a = c # cs" "agent_id_char c" "\<forall>c\<in>set a. agent_id_char c"
    using assms by (cases a) (auto simp: valid_agent_id_iff)
  have no: "CHR ''/'' \<notin> set a" "CHR '':'' \<notin> set a" using a(3) agent_id_char_plain by blast+
  then show "CHR '':'' \<notin> set a" "CHR ''/'' \<notin> set (a @ ''.pub'')" by auto
  have "length (a @ ''.pub'') > 2" using a(1) by simp
  then show "plain_elem (a @ ''.pub'')" unfolding plain_elem_def by (cases a) auto
qed

lemma key_path_inject:
  assumes "hb_keys_dir h \<noteq> []" "valid_agent_id a" "valid_agent_id b" "key_path h a = key_path h b"
  shows "a = b"
  using join_path_inject [OF assms(1) valid_agent_id_elem(1,2) [OF assms(2)]
      valid_agent_id_elem(1,2) [OF assms(3)]] assms(4)
  by (simp add: key_path_def)

lemma key_path_child:
  assumes "hb_keys_dir h \<noteq> []" "valid_agent_id a"
  shows "key_path h a = render_path (rooted (hb_keys_dir h)) (path_elems (hb_keys_dir h) @ [a @ ''.pub''])"
  unfolding key_path_def by (rule join_path_elems [OF assms(1) valid_agent_id_elem(1,2) [OF assms(2)]])

lemma clock_skew_small:
  assumes "int64_range now" "int64_range ts" "int64_range (now - ts)" "now - ts \<noteq> - (2 ^ 63)"
  shows "clock_skew now ts = \<bar>now - ts\<bar>"
  using assms by (simp add: clock_skew_def int64_range_def Let_def)

lemma signature_auth_known:
  assumes "load_public_key cr (hb_fs h) (key_path h agent) = Inr k" "hb_keys_dir h \<noteq> []"
    "parse_int64 ts = NumOk t" "clock_skew now t \<le> max_skew" "verify_challenge cr k agent ts sig"
  shows "signature_auth cr now h r agent ts sig = (h, [], Accepted agent)"
  using assms by (simp add: signature_auth_def)

text \<open>The ways through the gate.\<close>

definition by_signature :: "crypto \<Rightarrow> int \<Rightarrow> ws_request \<Rightarrow> string \<Rightarrow> string \<Rightarrow> bool" where
  "by_signature cr now r agent k \<longleftrightarrow>
     (\<exists>t. parse_int64 (header_or_query r ''X-Agent-Timestamp'' ''timestamp'') = NumOk t \<and>
        clock_skew now t \<le> max_skew) \<and>
     verify_challenge cr k agent (header_or_query r ''X-Agent-Timestamp'' ''timestamp'')
       (header_or_query r ''X-Agent-Signature'' ''signature'')"

definition by_registration :: "hub \<Rightarrow> ws_request \<Rightarrow> string \<Rightarrow> bool" where
  "by_registration h r k \<longleftrightarrow> expected_reg_token h \<noteq> [] \<and>
     header_or_query r ''X-Agent-Token'' ''token'' = expected_reg_token h \<and>
     b64_decode std_encoding (header_or_query r ''X-Agent-PublicKey'' ''public_key'') = Some k \<and>
     length k = key_size"

definition by_token :: "hub \<Rightarrow> ws_request \<Rightarrow> string \<Rightarrow> bool" where
  "by_token h r agent \<longleftrightarrow> hb_auth_token h \<noteq> [] \<and>
     header_or_query r ''X-Agent-Token'' ''token'' = hb_auth_token h \<and>
     (hb_keys_dir h \<noteq> [] \<longrightarrow> \<not> fs_exists (hb_fs h) (key_path h agent))"

lemma auto_register_Inr:
  assumes "auto_register cr h r agent ts sig = Inr (h', out, k)"
  shows "by_registration h r k" "verify_challenge cr k agent ts sig"
    "\<exists>fs. save_public_key_pem cr (hb_fs h) (key_path h agent) k = Inr fs \<and> h' = h\<lparr>hb_fs := fs\<rparr> \<and>
      out = broadcast_key_sync h' agent (header_or_query r ''X-Agent-PublicKey'' ''public_key'')"
  using assms unfolding auto_register_def by_registration_def Let_def
  by (auto simp: right_size_Some split: if_splits option.splits sum.splits)

lemma signature_auth_Accepted:
  assumes "signature_auth cr now h r agent ts sig = (h', out, Accepted b)"
    and "ts = header_or_query r ''X-Agent-Timestamp'' ''timestamp''"
    and "sig = header_or_query r ''X-Agent-Signature'' ''signature''"
  obtains k where "b = agent" "hb_keys_dir h \<noteq> []" "by_signature cr now r agent k"
    "load_public_key cr (hb_fs h) (key_path h agent) = Inr k \<and> h' = h \<and> out = [] \<or>
     (\<exists>e. load_public_key cr (hb_fs h) (key_path h agent) = Inl (FileNotExist e)) \<and> by_registration h r k \<and>
     auto_register cr h r agent ts sig = Inr (h', out, k)"
proof -
  have d: "hb_keys_dir h \<noteq> []" using assms(1) by (auto simp: signature_auth_def)
  obtain t where t: "parse_int64 ts = NumOk t" "clock_skew now t \<le> max_skew"
    using assms(1) d by (auto simp: signature_auth_def split: num_parse.splits if_splits)
  define found where "found = (case load_public_key cr (hb_fs h) (key_path h agent) of
        Inr k \<Rightarrow> Inr (h, [], k)
      | Inl (FileNotExist _) \<Rightarrow> auto_register cr h r agent ts sig
      | Inl (FileError _) \<Rightarrow> Inl (401, ''Unauthorized: unauthorized agent key''))"
  have "(case found of Inl (status, text) \<Rightarrow> (h, [], Rejected status text)
     | Inr (h', out, k) \<Rightarrow> (h', out, if verify_challenge cr k agent ts sig then Accepted agent
          else Rejected 401 ''Unauthorized: signature verification failed'')) = (h', out, Accepted b)"
    using assms(1) d t unfolding found_def signature_auth_def by simp
  then obtain k where k: "found = Inr (h', out, k)" "verify_challenge cr k agent ts sig" "b = agent"
    by (auto split: sum.splits if_splits)
  have "load_public_key cr (hb_fs h) (key_path h agent) = Inr k \<and> h' = h \<and> out = [] \<or>
     (\<exists>e. load_public_key cr (hb_fs h) (key_path h agent) = Inl (FileNotExist e)) \<and> by_registration h r k \<and>
     auto_register cr h r agent ts sig = Inr (h', out, k)"
    using k(1) auto_register_Inr(1) unfolding found_def by (auto split: sum.splits file_error.splits)
  then show ?thesis using that d t k assms(2,3) by (auto simp: by_signature_def)
qed

lemma authenticate_Accepted:
  assumes "authenticate cr now h r = (h', out, Accepted b)"
  shows "b = header_or_query r ''X-Agent-ID'' ''agent_id''" "valid_agent_id b"
    "by_token h r b \<and> h' = h \<and> out = [] \<or>
     signature_auth cr now h r b (header_or_query r ''X-Agent-Timestamp'' ''timestamp'')
       (header_or_query r ''X-Agent-Signature'' ''signature'') = (h', out, Accepted b)"
proof -
  let ?a = "header_or_query r ''X-Agent-ID'' ''agent_id''"
  let ?ts = "header_or_query r ''X-Agent-Timestamp'' ''timestamp''"
  let ?sig = "header_or_query r ''X-Agent-Signature'' ''signature''"
  have v: "valid_agent_id ?a" using assms by (auto simp: authenticate_def Let_def split: if_splits)
  have "(if ?sig \<noteq> [] \<and> ?ts \<noteq> [] then signature_auth cr now h r ?a ?ts ?sig
      else (h, [], token_auth h r ?a)) = (h', out, Accepted b)"
    using assms v by (auto simp: authenticate_def Let_def split: if_splits)
  then have "(h = h' \<and> out = [] \<and> token_auth h r ?a = Accepted b) \<or>
      signature_auth cr now h r ?a ?ts ?sig = (h', out, Accepted b)"
    by (auto split: if_splits)
  then have "b = ?a \<and> (by_token h r b \<and> h' = h \<and> out = [] \<or>
     signature_auth cr now h r b ?ts ?sig = (h', out, Accepted b))"
  proof
    assume t: "h = h' \<and> out = [] \<and> token_auth h r ?a = Accepted b"
    then show ?thesis
      by (auto simp: token_auth_def by_token_def Let_def split: if_splits)
  next
    assume s: "signature_auth cr now h r ?a ?ts ?sig = (h', out, Accepted b)"
    then have "b = ?a" by (rule signature_auth_Accepted [OF _ refl refl])
    with s show ?thesis by simp
  qed
  with v show "b = ?a" "valid_agent_id b" "by_token h r b \<and> h' = h \<and> out = [] \<or>
     signature_auth cr now h r b ?ts ?sig = (h', out, Accepted b)"
    by blast+
qed

lemma load_not_exist: "load_public_key cr fs p = Inl (FileNotExist e) \<Longrightarrow> \<not> fs_exists fs p"
proof -
  have "key_of_text t \<noteq> Inl (FileNotExist e)" for t
    by (auto simp: key_of_text_def split: option.splits)
  then show "load_public_key cr fs p = Inl (FileNotExist e) \<Longrightarrow> \<not> fs_exists fs p"
    unfolding fs_exists_def
    by (auto simp: load_public_key_def read_file_def Let_def
        split: sum.splits option.splits if_splits parsed_key.splits)
qed

section \<open>Properties\<close>

text \<open>C1: Nobody passes the gate without credentials. A request is accepted only under a well-formed
  name and either with a challenge signed by a key, inside the clock window, where the key is the
  one on file for that name or is being registered with the registration token because there is
  none; or with the non-empty shared token, when there is no key on file for the name.\<close>

theorem auth_gate:
  assumes "authenticate cr now h r = (h', out, Accepted agent)"
  shows "valid_agent_id agent \<and> agent = header_or_query r ''X-Agent-ID'' ''agent_id'' \<and>
    (by_token h r agent \<and> h' = h \<and> out = [] \<or>
     (\<exists>k. hb_keys_dir h \<noteq> [] \<and> by_signature cr now r agent k \<and>
        (load_public_key cr (hb_fs h) (key_path h agent) = Inr k \<and> h' = h \<and> out = [] \<or>
         \<not> fs_exists (hb_fs h) (key_path h agent) \<and> by_registration h r k)))"
proof -
  note a = authenticate_Accepted [OF assms]
  have "\<exists>k. hb_keys_dir h \<noteq> [] \<and> by_signature cr now r agent k \<and>
        (load_public_key cr (hb_fs h) (key_path h agent) = Inr k \<and> h' = h \<and> out = [] \<or>
         \<not> fs_exists (hb_fs h) (key_path h agent) \<and> by_registration h r k)"
    if s: "signature_auth cr now h r agent (header_or_query r ''X-Agent-Timestamp'' ''timestamp'')
       (header_or_query r ''X-Agent-Signature'' ''signature'') = (h', out, Accepted agent)"
    by (rule signature_auth_Accepted [OF s refl refl]) (blast dest: load_not_exist)
  with a show ?thesis by blast
qed

definition sample_signed :: "string \<Rightarrow> ws_request" where
  "sample_signed token = \<lparr>wq_headers = [(''X-Agent-ID'', ''s1''), (''X-Agent-Timestamp'', ''1000''),
     (''X-Agent-Signature'', sign_challenge sample_crypto sample_key ''s1'' ''1000''),
     (''X-Agent-Token'', token), (''X-Agent-PublicKey'', b64_encode std_encoding sample_key)],
     wq_query = []\<rparr>"

definition sample_gate :: hub where
  "sample_gate = new_hub \<lparr>fs_files = [], fs_denied = []\<rparr> ''tok'' ''reg'' ''/keys'' [''http://b''] ''http://a'' True"

lemma sample_headers:
  "header_or_query (sample_signed tok) ''X-Agent-ID'' ''agent_id'' = ''s1''"
  "header_or_query (sample_signed tok) ''X-Agent-Timestamp'' ''timestamp'' = ''1000''"
  "header_or_query (sample_signed tok) ''X-Agent-Signature'' ''signature'' =
     sign_challenge sample_crypto sample_key ''s1'' ''1000''"
  "header_or_query (sample_signed tok) ''X-Agent-Token'' ''token'' = tok"
  "header_or_query (sample_signed tok) ''X-Agent-PublicKey'' ''public_key'' = b64_encode std_encoding sample_key"
  by (simp_all add: header_or_query_def first_value_def sample_signed_def)

lemma sample_name: "valid_agent_id ''s1''"
  by (simp add: valid_agent_id_iff agent_id_char_def is_alnum_def is_digit_def in_range_def byte_def)

lemma sample_time:
  "parse_int64 ''1000'' = NumOk 1000" "clock_skew 1010 1000 \<le> max_skew" "\<not> max_skew < clock_skew 1010 1000"
  by (simp_all add: parse_int64_def parse_uint_def is_digit_def in_range_def byte_def signed_range_def
      clock_skew_def max_skew_def)

lemma sample_values:
  "sign_challenge sample_crypto sample_key ''s1'' ''1000'' \<noteq> []" "b64_encode std_encoding sample_key \<noteq> []"
  "key_path sample_gate ''s1'' = ''/keys/s1.pub''"
  by code_simp+

lemma sample_fields:
  "hb_keys_dir sample_gate = ''/keys''" "hb_fs sample_gate = \<lparr>fs_files = [], fs_denied = []\<rparr>"
  "hb_auth_token sample_gate = ''tok''" "expected_reg_token sample_gate = ''reg''"
  by (simp_all add: sample_gate_def new_hub_def expected_reg_token_def)

lemma sample_registered:
  "\<exists>h' out. auto_register sample_crypto sample_gate (sample_signed ''reg'') ''s1'' ''1000''
     (sign_challenge sample_crypto sample_key ''s1'' ''1000'') = Inr (h', out, sample_key)"
proof -
  have "pkix_marshal sample_crypto sample_key = Inr sample_key"
    by (simp add: sample_crypto_def sample_key_size)
  then show ?thesis
    using verify_sign_challenge [OF sample_signature, of sample_key "''s1''" "''1000''"]
    by (simp add: auto_register_def Let_def sample_headers sample_fields sample_values codec_simps sample_key_size
        mkdir_all_def save_public_key_pem_def write_file_def)
qed

lemma sample_accepted:
  "\<exists>h' out. authenticate sample_crypto 1010 sample_gate (sample_signed ''reg'') = (h', out, Accepted ''s1'')"
proof -
  obtain h' out where a: "auto_register sample_crypto sample_gate (sample_signed ''reg'') ''s1'' ''1000''
     (sign_challenge sample_crypto sample_key ''s1'' ''1000'') = Inr (h', out, sample_key)"
    using sample_registered by blast
  have "load_public_key sample_crypto (hb_fs sample_gate) (key_path sample_gate ''s1'') =
      Inl (FileNotExist ''open /keys/s1.pub: no such file or directory'')"
    by (simp add: sample_values sample_fields load_public_key_def read_file_def)
  then show ?thesis
    using a verify_sign_challenge [OF sample_signature, of sample_key "''s1''" "''1000''"]
    by (simp add: authenticate_def signature_auth_def Let_def sample_name sample_time sample_headers sample_values sample_fields)
qed

theorem auth_gate_witness:
  "\<exists>h' out. authenticate sample_crypto 1010 sample_gate (sample_signed ''reg'') = (h', out, Accepted ''s1'') \<and>
     valid_agent_id ''s1''"
  using sample_accepted auth_gate by blast

text \<open>C2: A registered satellite cannot be impersonated. Once a key is on file for a name, every
  request accepted under that name carries a challenge signed with that key inside the clock
  window, whatever tokens it presents, and the key on file does not change.\<close>

theorem no_takeover:
  assumes "authenticate cr now h r = (h', out, Accepted agent)"
    and "hb_keys_dir h \<noteq> []" "load_public_key cr (hb_fs h) (key_path h agent) = Inr k"
  shows "by_signature cr now r agent k \<and> h' = h \<and> out = []"
proof -
  have ex: "fs_exists (hb_fs h) (key_path h agent)"
    using assms(3) by (auto simp: fs_exists_def load_public_key_def read_file_def split: option.splits)
  then show ?thesis
    using auth_gate [OF assms(1)] assms(2,3) by (auto simp: by_token_def)
qed

text \<open>Registration sticks. After a satellite registered its key, the hub has it on file: the
  same satellite is accepted again by signature alone, with no token, and a request that only
  presents the shared token is rejected; no other satellite's key file is touched.\<close>

theorem registration_sticks:
  assumes "pem_law cr" "pkix_law cr" "auto_register cr h r agent ts sig = Inr (h', out, k)"
    and "key_path h agent \<notin> set (fs_denied (hb_fs h))" "hb_keys_dir h \<noteq> []" "valid_agent_id agent"
  shows "load_public_key cr (hb_fs h') (key_path h' agent) = Inr k \<and>
    (\<forall>now r' ts' sig' t. parse_int64 ts' = NumOk t \<and> clock_skew now t \<le> max_skew \<and>
        verify_challenge cr k agent ts' sig' \<longrightarrow>
        signature_auth cr now h' r' agent ts' sig' = (h', [], Accepted agent)) \<and>
    (\<forall>r'. \<exists>text. token_auth h' r' agent = Rejected 401 text) \<and>
    (\<forall>b. valid_agent_id b \<and> b \<noteq> agent \<longrightarrow>
        load_public_key cr (hb_fs h') (key_path h' b) = load_public_key cr (hb_fs h) (key_path h b))"
proof -
  note reg = auto_register_Inr [OF assms(3)]
  obtain fs where fs: "save_public_key_pem cr (hb_fs h) (key_path h agent) k = Inr fs" "h' = h\<lparr>hb_fs := fs\<rparr>"
    using reg(3) by blast
  have len: "length k = key_size" using reg(1) by (simp add: by_registration_def)
  have kp: "key_path h' b = key_path h b" for b using fs(2) by (simp add: key_path_def)
  have "load_public_key cr fs (key_path h agent) = Inr k \<and>
      fs_exists fs (key_path h agent) \<and> (\<forall>q. q \<noteq> key_path h agent \<longrightarrow> read_file fs q = read_file (hb_fs h) q)"
    by (rule save_public_key_loads [OF assms(1,2) len assms(4)]) (use fs(1) in auto)
  note saved = this [THEN conjunct1] this [THEN conjunct2, THEN conjunct1]
    this [THEN conjunct2, THEN conjunct2, rule_format]
  have other: "load_public_key cr fs (key_path h b) = load_public_key cr (hb_fs h) (key_path h b)"
    if "valid_agent_id b" "b \<noteq> agent" for b
  proof -
    have "key_path h b \<noteq> key_path h agent"
      using key_path_inject [OF assms(5) that(1) assms(6)] that(2) by blast
    then show ?thesis by (intro load_public_key_cong saved(3))
  qed
  have "signature_auth cr now h' r' agent ts' sig' = (h', [], Accepted agent)"
    if "parse_int64 ts' = NumOk t" "clock_skew now t \<le> max_skew" "verify_challenge cr k agent ts' sig'"
    for now r' ts' sig' t
    using that saved(1) assms(5) kp fs(2) by (intro signature_auth_known) auto
  moreover have "\<exists>text. token_auth h' r' agent = Rejected 401 text" for r'
    using saved(2) assms(5) kp fs(2) by (simp add: token_auth_def)
  ultimately show ?thesis using saved(1) other kp fs(2) by simp
qed

theorem registration_sticks_witness:
  "\<exists>h' out. auto_register sample_crypto sample_gate (sample_signed ''reg'') ''s1'' ''1000''
     (sign_challenge sample_crypto sample_key ''s1'' ''1000'') = Inr (h', out, sample_key) \<and>
   (\<exists>text. token_auth h' (sample_signed ''tok'') ''s1'' = Rejected 401 text)"
proof -
  obtain h' out where r: "auto_register sample_crypto sample_gate (sample_signed ''reg'') ''s1'' ''1000''
     (sign_challenge sample_crypto sample_key ''s1'' ''1000'') = Inr (h', out, sample_key)"
    using sample_registered by blast
  have "valid_agent_id ''s1''" by (rule sample_name)
  moreover have "key_path sample_gate ''s1'' \<notin> set (fs_denied (hb_fs sample_gate))" "hb_keys_dir sample_gate \<noteq> []"
    by (simp_all add: sample_gate_def new_hub_def)
  ultimately show ?thesis using registration_sticks [OF sample_pem sample_pkix r] r by blast
qed

definition sample_keyed :: hub where
  "sample_keyed = sample_gate\<lparr>hb_fs :=
     \<lparr>fs_files = [(''/keys/s1.pub'', b64_encode std_encoding sample_key)], fs_denied = []\<rparr>\<rparr>"

theorem no_takeover_witness:
  "authenticate sample_crypto 1010 sample_keyed (sample_signed ''x'') = (sample_keyed, [], Accepted ''s1'') \<and>
   by_signature sample_crypto 1010 (sample_signed ''x'') ''s1'' sample_key"
proof -
  have f: "hb_keys_dir sample_keyed = ''/keys''" "key_path sample_keyed ''s1'' = ''/keys/s1.pub''"
    using sample_values(3) sample_fields(1) by (simp_all add: sample_keyed_def key_path_def)
  have k: "load_public_key sample_crypto (hb_fs sample_keyed) (key_path sample_keyed ''s1'') = Inr sample_key"
    unfolding f by code_simp
  have a: "authenticate sample_crypto 1010 sample_keyed (sample_signed ''x'') = (sample_keyed, [], Accepted ''s1'')"
    using k verify_sign_challenge [OF sample_signature, of sample_key "''s1''" "''1000''"]
    by (simp add: authenticate_def signature_auth_def Let_def sample_name sample_time sample_headers sample_values f)
  show ?thesis using no_takeover [OF a _ k] a f(1) by simp
qed

text \<open>Key files stay in their directory. For every name the hub accepts, the key file is a direct
  child of the cleaned keys directory, whatever the name contains, and different names have
  different files.\<close>

theorem key_files_confined:
  assumes "hb_keys_dir h \<noteq> []" "valid_agent_id a" "valid_agent_id b"
  shows "key_path h a = render_path (rooted (hb_keys_dir h)) (path_elems (hb_keys_dir h) @ [a @ ''.pub'']) \<and>
    (key_path h a = key_path h b \<longleftrightarrow> a = b)"
  using key_path_child [OF assms(1,2)] key_path_inject [OF assms] by auto

theorem key_files_confined_witness:
  "key_path sample_gate ''s1'' = ''/keys/s1.pub''"
proof -
  have "hb_keys_dir sample_gate \<noteq> []" by (simp add: sample_gate_def new_hub_def)
  moreover have "valid_agent_id ''s1''" by (rule sample_name)
  ultimately have "key_path sample_gate ''s1'' = render_path (rooted (hb_keys_dir sample_gate))
      (path_elems (hb_keys_dir sample_gate) @ [''s1'' @ ''.pub''])"
    using key_files_confined by blast
  moreover have "render_path (rooted (hb_keys_dir sample_gate))
      (path_elems (hb_keys_dir sample_gate) @ [''s1'' @ ''.pub'']) = ''/keys/s1.pub''" by code_simp
  ultimately show ?thesis by simp
qed

text \<open>C39: The clock window is two minutes, but for one instant. With the hub's clock before the year
  146 billion, a timestamp is in the window exactly when it differs by at most 120 seconds, or
  when it lies exactly \<open>2^63\<close> seconds in the past, where the difference and its negation overflow
  to the same negative number.\<close>

theorem clock_window:
  assumes "0 \<le> now" "now < 2 ^ 62" "int64_range t"
  shows "clock_skew now t \<le> max_skew \<longleftrightarrow> \<bar>now - t\<bar> \<le> max_skew \<or> t = now - 2 ^ 63"
proof -
  have t: "- (2 ^ 63) \<le> t" "t < 2 ^ 63" using assms(3) by (simp_all add: int64_range_def)
  show ?thesis
  proof (cases "now - t < 2 ^ 63")
    case True
    then have w: "wrap64 (now - t) = now - t" using assms(1) t by simp
    have "wrap64 (- (now - t)) = - (now - t)" if "now - t < 0" using that assms(1) t by simp
    then show ?thesis using w True by (auto simp: clock_skew_def Let_def max_skew_def)
  next
    case False
    have "(now - t + 2 ^ 63) mod 2 ^ 64 = (now - t + 2 ^ 63 - 2 ^ 64) mod 2 ^ 64" by (metis minus_mod_self2)
    also have "\<dots> = now - t + 2 ^ 63 - 2 ^ 64" using False assms t by (intro mod_pos_pos_trivial) simp_all
    finally have w: "wrap64 (now - t) = now - t - 2 ^ 64" by (simp add: wrap64_def)
    have neg: "now - t - 2 ^ 64 < 0" using assms t by simp
    show ?thesis
    proof (cases "t = now - 2 ^ 63")
      case True
      then show ?thesis by (simp add: clock_skew_def wrap64_def max_skew_def)
    next
      case ne: False
      then have "wrap64 (- (now - t - 2 ^ 64)) = - (now - t - 2 ^ 64)" using False assms t by simp
      then have "clock_skew now t = 2 ^ 64 - (now - t)"
        using w neg by (simp add: clock_skew_def)
      then show ?thesis using False ne assms t by (simp add: max_skew_def)
    qed
  qed
qed

theorem clock_window_witness:
  "clock_skew 1700000000 (1700000000 - 2 ^ 63) \<le> max_skew \<and> \<not> clock_skew 1700000000 1699999879 \<le> max_skew"
proof -
  have "int64_range (1700000000 - 2 ^ 63)" "int64_range 1699999879" by (simp_all add: int64_range_def)
  then show ?thesis
    using clock_window [of 1700000000 "1700000000 - 2 ^ 63"] clock_window [of 1700000000 1699999879]
    by (simp add: max_skew_def)
qed

end
