(* ===== verification/HubApi.thy ===== *)
theory HubApi
  imports HubAuth
begin

text \<open>
  The HTTP interface of the hub, the handlers of \<open>cmd/hub/main.go\<close>, and what two hubs of a
  cluster make of each other's requests.

  A request body is the first JSON value of its text, \<open>None\<close> when there is none. A handler
  returns the hub, the requests it makes the hub send and the response, or \<open>None\<close> when the hub's
  mutex is never released.
\<close>

section \<open>Requests and responses\<close>

record http_request =
  hq_method :: string
  hq_body :: "json option"
  hq_query :: "(string \<times> string) list"
  hq_headers :: "(string \<times> string) list"

record http_response =
  hr_status :: int
  hr_body :: json

type_synonym handled = "(hub \<times> http_out list \<times> http_response) option"

definition respond :: "int \<Rightarrow> json \<Rightarrow> http_response" where
  "respond status body = \<lparr>hr_status = status, hr_body = body\<rparr>"

definition write_json_error :: "string \<Rightarrow> int \<Rightarrow> http_response" where
  "write_json_error message status =
     respond status (JObj [(''error'', JStr message), (''code'', jint status)])"

definition status_ok :: "string \<Rightarrow> http_response" where
  "status_ok text = respond 200 (JObj [(''status'', JStr text)])"

definition method_not_allowed :: http_response where
  "method_not_allowed = write_json_error ''Method not allowed'' 405"

definition invalid_body :: http_response where
  "invalid_body = write_json_error ''Invalid JSON body'' 400"

section \<open>Handlers\<close>

definition agents_handler :: "hub \<Rightarrow> http_response option" where
  "agents_handler h = map_option (\<lambda>as. respond 200 (JArr (map JStr as))) (get_connected_agents h)"

record dispatch_request =
  dr_agent_id :: string
  dr_method :: string
  dr_params :: "json option"

definition zero_dispatch :: dispatch_request where
  "zero_dispatch = \<lparr>dr_agent_id = [], dr_method = [], dr_params = None\<rparr>"

definition dec_dispatch :: "dispatch_request decoder" where
  "dec_dispatch = dec_struct (\<lambda>r kvs.
     case (field ''agent_id'' dec_string (dr_agent_id r) kvs, field ''method'' dec_string (dr_method r) kvs,
           field ''params'' dec_raw (dr_params r) kvs) of
       (Some a, Some m, Some p) \<Rightarrow> Some \<lparr>dr_agent_id = a, dr_method = m, dr_params = p\<rparr>
     | _ \<Rightarrow> None)"

definition error_status :: "string \<Rightarrow> int" where
  "error_status e =
     (if contains e ''is not connected'' then 404
      else if contains e ''context deadline exceeded'' then 504 else 500)"

text \<open>\<open>call\<close> is the outcome of a call on a local connection, given the method and parameters.\<close>

definition dispatch_handler ::
  "(string \<Rightarrow> string) \<Rightarrow> (string \<Rightarrow> http_answer) \<Rightarrow> (nat \<Rightarrow> string \<Rightarrow> json option \<Rightarrow> rpc_response res) \<Rightarrow>
   hub \<Rightarrow> http_request \<Rightarrow> (string list \<times> http_response) option" where
  "dispatch_handler quote net call h r =
     (if hq_method r \<noteq> ''POST'' then Some ([], method_not_allowed)
      else (case unmarshal dec_dispatch zero_dispatch (hq_body r) of
        None \<Rightarrow> Some ([], invalid_body)
      | Some d \<Rightarrow>
          if dr_agent_id d = [] \<or> dr_method d = []
          then Some ([], write_json_error ''agent_id and method are required fields'' 400)
          else (let allow_proxy = first_value (hq_headers r) ''X-Cluster-Proxy'' \<noteq> ''true'' in
            (case dispatch_job quote net (\<lambda>c. call c (dr_method d) (dr_params d)) h (dr_agent_id d) allow_proxy of
               None \<Rightarrow> None
             | Some (asked, Inl e) \<Rightarrow> Some (asked, write_json_error e (error_status e))
             | Some (asked, Inr resp) \<Rightarrow> Some (asked, respond 200 (enc_response resp))))))"

text \<open>The checks on a schedule to create, with the message of the first that fails.\<close>

definition check_schedule :: "job_schedule \<Rightarrow> string option" where
  "check_schedule s =
     (if js_id s = [] \<or> js_agent_id s = [] \<or> js_method s = [] \<or> js_type s = []
      then Some ''id, agent_id, method, and schedule_type are required fields''
      else if js_type s \<noteq> ''once'' \<and> js_type s \<noteq> ''interval'' \<and> js_type s \<noteq> ''at''
      then Some (''schedule_type must be '' @ [char_of (39::nat)] @ ''once'' @ [char_of (39::nat)] @ '', ''
        @ [char_of (39::nat)] @ ''interval'' @ [char_of (39::nat)] @ '', or '' @ [char_of (39::nat)] @ ''at''
        @ [char_of (39::nat)])
      else if js_type s = ''interval'' \<and> js_interval s \<le> 0
      then Some ''interval_seconds must be > 0 for interval schedules''
      else if js_type s = ''at'' \<and> js_run_at s \<le> 0
      then Some ''run_at timestamp must be > 0 for at schedules'' else None)"

definition schedules_handler :: "int \<Rightarrow> int \<Rightarrow> hub \<Rightarrow> http_request \<Rightarrow> handled" where
  "schedules_handler now nano h r =
     (if hq_method r = ''GET'' then Some (h, [], respond 200 (JArr (map enc_schedule (get_schedules h))))
      else if hq_method r = ''POST'' then
        (case unmarshal dec_schedule zero_schedule (hq_body r) of
           None \<Rightarrow> Some (h, [], invalid_body)
         | Some s \<Rightarrow>
             (case check_schedule s of
                Some e \<Rightarrow> Some (h, [], write_json_error e 400)
              | None \<Rightarrow>
                  map_option (\<lambda>(h', out). (h', out,
                      respond 201 (JObj [(''status'', JStr ''Schedule created'')])))
                    (add_schedule now nano h s)))
      else if hq_method r = ''DELETE'' then
        (let sid = first_value (hq_query r) ''id'' in
         if sid = [] then Some (h, [], write_json_error (''Missing '' @ [char_of (39::nat)] @ ''id''
              @ [char_of (39::nat)] @ '' query parameter'') 400)
         else map_option (\<lambda>(h', out). (h', out, status_ok ''Schedule deleted''))
                (delete_schedule now nano h sid))
      else Some (h, [], method_not_allowed))"

definition register_peer_handler :: "crypto \<Rightarrow> hub \<Rightarrow> http_request \<Rightarrow> hub \<times> http_out list \<times> http_response" where
  "register_peer_handler cr h r =
     (if hq_method r \<noteq> ''POST'' then (h, [], method_not_allowed)
      else (case unmarshal dec_peer_registration \<lparr>pr_url = [], pr_token = []\<rparr> (hq_body r) of
        None \<Rightarrow> (h, [], invalid_body)
      | Some reg \<Rightarrow>
          if pr_url reg = [] \<or> pr_token reg = []
          then (h, [], write_json_error ''url and token are required fields'' 400)
          else if pr_token reg \<noteq> hb_auth_token h
          then (h, [], write_json_error ''Unauthorized peer registration'' 401)
          else (let (h', out) = add_peer cr h (pr_url reg) in
            (h', out, respond 200 (JArr (map JStr (get_peers h')))))))"

definition sync_key_handler :: "crypto \<Rightarrow> hub \<Rightarrow> http_request \<Rightarrow> hub \<times> http_response" where
  "sync_key_handler cr h r =
     (if hq_method r \<noteq> ''POST'' then (h, method_not_allowed)
      else (case unmarshal dec_key_sync \<lparr>ks_agent_id = [], ks_public_key = [], ks_token = []\<rparr> (hq_body r) of
        None \<Rightarrow> (h, invalid_body)
      | Some k \<Rightarrow>
          if ks_agent_id k = [] \<or> ks_public_key k = [] \<or> ks_token k = []
          then (h, write_json_error ''agent_id, public_key, and token are required fields'' 400)
          else if ks_token k \<noteq> hb_auth_token h
          then (h, write_json_error ''Unauthorized key synchronization'' 401)
          else (case save_peer_public_key cr h (ks_agent_id k) (ks_public_key k) of
             Inl e \<Rightarrow> (h, write_json_error e 500)
           | Inr h' \<Rightarrow> (h', status_ok ''Key synchronized''))))"

definition dec_schedule_sync :: "(job_schedule \<times> string) decoder" where
  "dec_schedule_sync = dec_struct (\<lambda>r kvs.
     case (field ''schedule'' dec_schedule (fst r) kvs, field ''token'' dec_string (snd r) kvs) of
       (Some s, Some t) \<Rightarrow> Some (s, t) | _ \<Rightarrow> None)"

definition sync_schedule_handler :: "int \<Rightarrow> int \<Rightarrow> hub \<Rightarrow> http_request \<Rightarrow> (hub \<times> http_response) option" where
  "sync_schedule_handler now nano h r =
     (if hq_method r = ''POST'' then
        (case unmarshal dec_schedule_sync (zero_schedule, []) (hq_body r) of
           None \<Rightarrow> Some (h, invalid_body)
         | Some (s, token) \<Rightarrow>
             if token \<noteq> hb_auth_token h
             then Some (h, write_json_error ''Unauthorized schedule synchronization'' 401)
             else map_option (\<lambda>h'. (h', status_ok ''Schedule synchronized''))
                    (save_peer_schedule now nano h s))
      else if hq_method r = ''DELETE'' then
        (let sid = first_value (hq_query r) ''id''; token = first_value (hq_query r) ''token'' in
         if sid = [] then Some (h, write_json_error (''Missing '' @ [char_of (39::nat)] @ ''id''
              @ [char_of (39::nat)] @ '' query parameter'') 400)
         else if token \<noteq> hb_auth_token h
         then Some (h, write_json_error ''Unauthorized schedule deletion'' 401)
         else map_option (\<lambda>h'. (h', status_ok ''Schedule synchronized delete''))
                (delete_peer_schedule now nano h sid))
      else Some (h, method_not_allowed))"

section \<open>Query strings\<close>

text \<open>The query of a URL as \<open>net/url\<close> parses it: a fragment is cut off, pairs are separated by
  ampersands, plus signs are spaces and per cent signs start two hexadecimal digits; a pair that
  does not decode, or holds a semicolon, is skipped.\<close>

fun query_unescape :: "string \<Rightarrow> string option" where
  "query_unescape [] = Some []"
| "query_unescape (c # cs) =
     (if c = CHR ''%'' then
        (case cs of
           x # y # rest \<Rightarrow>
             (case (hex_val x, hex_val y) of
                (Some p, Some q) \<Rightarrow> map_option (Cons (char_of (p * 16 + q))) (query_unescape rest)
              | _ \<Rightarrow> None)
         | _ \<Rightarrow> None)
      else map_option (Cons (if c = CHR ''+'' then CHR '' '' else c)) (query_unescape cs))"

definition query_pair :: "string \<Rightarrow> (string \<times> string) option" where
  "query_pair s =
     (if s = [] \<or> CHR '';'' \<in> set s then None
      else (let k = takeWhile (\<lambda>c. c \<noteq> CHR ''='') s; v = tl (dropWhile (\<lambda>c. c \<noteq> CHR ''='') s) in
        (case (query_unescape k, query_unescape v) of (Some a, Some b) \<Rightarrow> Some (a, b) | _ \<Rightarrow> None)))"

definition url_query :: "string \<Rightarrow> (string \<times> string) list" where
  "url_query u = List.map_filter query_pair
     (split_on CHR ''&'' (tl (dropWhile (\<lambda>c. c \<noteq> CHR ''?'') (takeWhile (\<lambda>c. c \<noteq> CHR ''#'') u))))"

text \<open>What a peer's handler gets from a request of the hub.\<close>

definition peer_request :: "http_out \<Rightarrow> http_request" where
  "peer_request out = (case out of
     HttpPost u body \<Rightarrow> \<lparr>hq_method = ''POST'', hq_body = Some body, hq_query = url_query u, hq_headers = []\<rparr>
   | HttpDelete u \<Rightarrow> \<lparr>hq_method = ''DELETE'', hq_body = None, hq_query = url_query u, hq_headers = []\<rparr>)"

section \<open>Facts\<close>

definition arrived :: "job_schedule \<Rightarrow> job_schedule" where
  "arrived s = s\<lparr>js_params := sent_params (js_params s)\<rparr>"

definition sched_ok :: "job_schedule \<Rightarrow> bool" where
  "sched_ok s \<longleftrightarrow> int64_range (js_interval s) \<and> int64_range (js_run_at s)"

lemma schedule_sync_decodes:
  assumes "sched_ok s"
  shows "unmarshal dec_schedule_sync (zero_schedule, []) (Some (schedule_sync_body h s)) =
    Some (arrived s, hb_auth_token h)"
proof -
  have "dec_schedule zero_schedule (enc_schedule s) = Some (arrived s)"
    using assms schedule_decodes [of s] by (simp add: sched_ok_def arrived_def)
  then show ?thesis
    by (simp add: dec_schedule_sync_def schedule_sync_body_def codec_defs codec_simps)
qed

lemma key_sync_decodes:
  "unmarshal dec_key_sync \<lparr>ks_agent_id = [], ks_public_key = [], ks_token = []\<rparr> (Some (key_sync_body h a k)) =
   Some \<lparr>ks_agent_id = a, ks_public_key = k, ks_token = hb_auth_token h\<rparr>"
  by (simp add: dec_key_sync_def key_sync_body_def enc_key_sync_def codec_defs codec_simps)

lemma arrived_idem [simp]: "arrived (arrived s) = arrived s"
  by (simp add: arrived_def sent_params_def enc_raw_def)

lemma arrived_fields [simp]: "js_id (arrived s) = js_id s" "js_agent_id (arrived s) = js_agent_id s"
  "sched_ok (arrived s) = sched_ok s"
  by (simp_all add: arrived_def sched_ok_def)

lemma save_peer_schedule_result:
  assumes "\<not> hb_locked h"
  shows "\<exists>h'. save_peer_schedule now nano h s = Some h' \<and>
    map_of (hb_schedules h') = (map_of (hb_schedules h))(js_id s \<mapsto> s) \<and> \<not> hb_locked h' \<and>
    hb_auth_token h' = hb_auth_token h \<and> hb_my_url h' = hb_my_url h"
  using assms by (simp add: save_peer_schedule_def sync_agent_schedules_def)

lemma sync_schedule_post:
  assumes "\<not> hb_locked h" "sched_ok s" "hb_auth_token sender = hb_auth_token h"
  shows "\<exists>h'. sync_schedule_handler now nano h (peer_request (HttpPost u (schedule_sync_body sender s))) =
      Some (h', status_ok ''Schedule synchronized'') \<and>
    map_of (hb_schedules h') = (map_of (hb_schedules h))(js_id s \<mapsto> arrived s) \<and>
    \<not> hb_locked h' \<and> hb_auth_token h' = hb_auth_token h \<and> hb_my_url h' = hb_my_url h"
proof -
  have "\<not> hb_locked h \<Longrightarrow> unmarshal dec_schedule_sync (zero_schedule, []) (Some (schedule_sync_body sender s)) =
      Some (arrived s, hb_auth_token h)"
    using schedule_sync_decodes [OF assms(2), of sender] assms(3) by simp
  then show ?thesis
    using assms(1) save_peer_schedule_result [OF assms(1), of now nano "arrived s"]
    by (auto simp: sync_schedule_handler_def peer_request_def)
qed

text \<open>The routing of the peer endpoints by path.\<close>

definition has_path :: "string \<Rightarrow> string \<Rightarrow> bool" where
  "has_path u path \<longleftrightarrow> has_suffix (takeWhile (\<lambda>c. c \<noteq> CHR ''?'') u) path"

definition peer_endpoint :: "crypto \<Rightarrow> int \<Rightarrow> int \<Rightarrow> hub \<Rightarrow> http_out \<Rightarrow> hub option" where
  "peer_endpoint cr now nano h out =
     (let u = (case out of HttpPost u _ \<Rightarrow> u | HttpDelete u \<Rightarrow> u) in
      if has_path u ''/internal/sync-key'' then Some (fst (sync_key_handler cr h (peer_request out)))
      else if has_path u ''/internal/sync-schedule''
      then map_option fst (sync_schedule_handler now nano h (peer_request out))
      else Some (fst (register_peer_handler cr h (peer_request out))))"

fun deliver_all :: "crypto \<Rightarrow> int \<Rightarrow> int \<Rightarrow> hub \<Rightarrow> http_out list \<Rightarrow> hub option" where
  "deliver_all cr now nano h [] = Some h"
| "deliver_all cr now nano h (out # outs) =
     (case peer_endpoint cr now nano h out of
        None \<Rightarrow> None | Some h' \<Rightarrow> deliver_all cr now nano h' outs)"

lemma deliver_all_append:
  "deliver_all cr now nano h (xs @ ys) =
     (case deliver_all cr now nano h xs of None \<Rightarrow> None | Some h' \<Rightarrow> deliver_all cr now nano h' ys)"
  by (induction cr now nano h xs rule: deliver_all.induct) (auto split: option.splits)

text \<open>Peer addresses have no query.\<close>

definition plain_url :: "string \<Rightarrow> bool" where
  "plain_url p \<longleftrightarrow> CHR ''?'' \<notin> set p \<and> CHR ''#'' \<notin> set p"

lemma has_path_post:
  assumes "plain_url p"
  shows "has_path (p @ ''/internal/sync-key'') ''/internal/sync-key''"
    "has_path (p @ ''/internal/sync-schedule'') ''/internal/sync-schedule''"
    "\<not> has_path (p @ ''/internal/sync-schedule'') ''/internal/sync-key''"
proof -
  have t: "takeWhile (\<lambda>c. c \<noteq> CHR ''?'') (p @ q) = p @ takeWhile (\<lambda>c. c \<noteq> CHR ''?'') q" for q
    by (rule takeWhile_append2) (use assms in \<open>auto simp: plain_url_def\<close>)
  show "has_path (p @ ''/internal/sync-key'') ''/internal/sync-key''"
    "has_path (p @ ''/internal/sync-schedule'') ''/internal/sync-schedule''"
    "\<not> has_path (p @ ''/internal/sync-schedule'') ''/internal/sync-key''"
    by (simp_all add: has_path_def t has_suffix_def)
qed

lemma sync_key_frame:
  "hb_schedules (fst (sync_key_handler cr h r)) = hb_schedules h"
  "hb_locked (fst (sync_key_handler cr h r)) = hb_locked h"
  "hb_auth_token (fst (sync_key_handler cr h r)) = hb_auth_token h"
  by (auto simp: sync_key_handler_def save_peer_public_key_def split: option.splits sum.splits)

lemma deliver_key_posts:
  assumes "\<forall>out\<in>set outs. \<exists>b. out = HttpPost (p @ ''/internal/sync-key'') b" "plain_url p"
  shows "\<exists>h'. deliver_all cr now nano h outs = Some h' \<and> hb_schedules h' = hb_schedules h \<and>
    hb_locked h' = hb_locked h \<and> hb_auth_token h' = hb_auth_token h"
  using assms(1)
proof (induction outs arbitrary: h)
  case (Cons out outs)
  obtain b where b: "out = HttpPost (p @ ''/internal/sync-key'') b" using Cons.prems by auto
  let ?h = "fst (sync_key_handler cr h (peer_request out))"
  have "peer_endpoint cr now nano h out = Some ?h"
    by (simp add: peer_endpoint_def b has_path_post [OF assms(2)])
  then show ?case using Cons.IH [of ?h] Cons.prems sync_key_frame [of cr h "peer_request out"] by simp
qed simp

lemma deliver_schedule_posts:
  assumes "plain_url p" "\<forall>s\<in>set ss. sched_ok s" "\<not> hb_locked h" "hb_auth_token sender = hb_auth_token h"
  shows "\<exists>h'. deliver_all cr now nano h
      (map (\<lambda>s. HttpPost (p @ ''/internal/sync-schedule'') (schedule_sync_body sender s)) ss) = Some h' \<and>
    map_of (hb_schedules h') = map_of (hb_schedules h) ++ map_of (rev (map (\<lambda>s. (js_id s, arrived s)) ss)) \<and>
    \<not> hb_locked h'"
  using assms(2-4)
proof (induction ss arbitrary: h)
  case (Cons s ss)
  let ?out = "HttpPost (p @ ''/internal/sync-schedule'') (schedule_sync_body sender s)"
  obtain h1 where h1: "sync_schedule_handler now nano h (peer_request ?out) =
      Some (h1, status_ok ''Schedule synchronized'')"
    "map_of (hb_schedules h1) = (map_of (hb_schedules h))(js_id s \<mapsto> arrived s)"
    "\<not> hb_locked h1" "hb_auth_token h1 = hb_auth_token h"
    using sync_schedule_post [of h s sender now nano] Cons.prems by auto
  have "peer_endpoint cr now nano h ?out = Some h1"
    using h1(1) by (simp add: peer_endpoint_def has_path_post [OF assms(1)])
  moreover obtain h' where h': "deliver_all cr now nano h1
      (map (\<lambda>s. HttpPost (p @ ''/internal/sync-schedule'') (schedule_sync_body sender s)) ss) = Some h'"
    "map_of (hb_schedules h') = map_of (hb_schedules h1) ++ map_of (rev (map (\<lambda>s. (js_id s, arrived s)) ss))"
    "\<not> hb_locked h'"
    using Cons.IH [of h1] Cons.prems h1(3,4) by auto
  ultimately show ?case using h1(2) by (simp add: map_add_assoc)
qed simp

section \<open>Properties\<close>

text \<open>A schedule that may be created.\<close>

definition schedule_valid :: "job_schedule \<Rightarrow> bool" where
  "schedule_valid s \<longleftrightarrow> js_id s \<noteq> [] \<and> js_agent_id s \<noteq> [] \<and> js_method s \<noteq> [] \<and>
     (js_type s = ''once'' \<or> js_type s = ''interval'' \<and> 0 < js_interval s \<or> js_type s = ''at'' \<and> 0 < js_run_at s)"

lemma check_schedule_valid: "check_schedule s = None \<longleftrightarrow> schedule_valid s"
  by (auto simp: check_schedule_def schedule_valid_def)

text \<open>Creating a schedule over the API is exact: the hub answers 201, stores the schedule under its
  identifier and sends it to its peers exactly when the body is a schedule with all its fields, a
  known type and a positive interval or time as the type needs; in every other case it answers 400
  and neither the hub nor its peers see anything.\<close>

theorem schedule_create:
  assumes "\<not> hb_locked h" "hq_method r = ''POST''"
  shows "(\<forall>s. unmarshal dec_schedule zero_schedule (hq_body r) = Some s \<and> schedule_valid s \<longrightarrow>
      (\<exists>h' resp. schedules_handler now nano h r = Some (h', broadcast_schedule_sync h' s, resp) \<and>
         hr_status resp = 201 \<and> map_of (hb_schedules h') = (map_of (hb_schedules h))(js_id s \<mapsto> s))) \<and>
    ((\<forall>s. unmarshal dec_schedule zero_schedule (hq_body r) = Some s \<longrightarrow> \<not> schedule_valid s) \<longrightarrow>
      (\<exists>resp. schedules_handler now nano h r = Some (h, [], resp) \<and> hr_status resp = 400))"
proof (cases "unmarshal dec_schedule zero_schedule (hq_body r)")
  case None
  then show ?thesis
    using assms by (simp add: schedules_handler_def invalid_body_def write_json_error_def respond_def)
next
  case (Some s)
  show ?thesis
  proof (cases "check_schedule s")
    case None
    then have "schedule_valid s" by (simp add: check_schedule_valid)
    then show ?thesis
      using assms Some None by (simp add: schedules_handler_def add_schedule_def sync_agent_schedules_def respond_def)
  next
    case (Some e)
    then have "\<not> schedule_valid s" using check_schedule_valid [of s] by simp
    then show ?thesis
      using assms Some \<open>unmarshal dec_schedule zero_schedule (hq_body r) = Some s\<close>
      by (simp add: schedules_handler_def write_json_error_def respond_def)
  qed
qed

definition sample_post :: "json \<Rightarrow> http_request" where
  "sample_post body = \<lparr>hq_method = ''POST'', hq_body = Some body, hq_query = [], hq_headers = []\<rparr>"

theorem schedule_create_witness:
  "\<exists>h' resp. schedules_handler 100 1 sample_gate (sample_post (enc_schedule (arrived sample_schedule))) =
     Some (h', broadcast_schedule_sync h' (arrived sample_schedule), resp) \<and> hr_status resp = 201"
proof -
  have l: "\<not> hb_locked sample_gate" by (simp add: sample_gate_def new_hub_def)
  have d: "unmarshal dec_schedule zero_schedule (hq_body (sample_post (enc_schedule (arrived sample_schedule)))) =
      Some (arrived sample_schedule)"
    using schedule_decodes [of "arrived sample_schedule"]
    by (simp add: sample_post_def unmarshal_def arrived_def sample_schedule_def sent_params_def enc_raw_def int64_range_def)
  have v: "schedule_valid (arrived sample_schedule)"
    by (simp add: schedule_valid_def arrived_def sample_schedule_def)
  show ?thesis using schedule_create [OF l, of "sample_post (enc_schedule (arrived sample_schedule))" 100 1] d v
    by (auto simp: sample_post_def)
qed

text \<open>The endpoint's answer to a failed job, in terms of the text of its error.\<close>

lemma error_status_cases:
  "contains e ''is not connected'' \<Longrightarrow> error_status e = 404"
  "\<not> contains e ''is not connected'' \<Longrightarrow> contains e ''context deadline exceeded'' \<Longrightarrow> error_status e = 504"
  "\<not> contains e ''is not connected'' \<Longrightarrow> \<not> contains e ''context deadline exceeded'' \<Longrightarrow> error_status e = 500"
  by (simp_all add: error_status_def)

lemma error_status_not_connected: "error_status (not_connected q) = 404"
  using contains_infix [of "''agent '' @ q @ '' ''" "''is not connected''" "[]"]
  by (intro error_status_cases(1)) (simp add: not_connected_def)

lemma ask_peers_all_fail:
  "\<forall>p\<in>set ps. \<not> is_ok (dispatch_job_to_peer p (net p)) \<Longrightarrow> ask_peers net ps = (ps, None)"
  by (induction ps) (auto simp: is_ok_def split: sum.splits)

lemma ask_peers_first:
  "\<not> (\<forall>p\<in>set ps. \<not> is_ok (dispatch_job_to_peer p (net p))) \<Longrightarrow>
   \<exists>before p after resp. ps = before @ p # after \<and> dispatch_job_to_peer p (net p) = Inr resp \<and>
     (\<forall>q\<in>set before. \<not> is_ok (dispatch_job_to_peer q (net q))) \<and> ask_peers net ps = (before @ [p], Some resp)"
proof (induction ps)
  case (Cons q qs)
  show ?case
  proof (cases "dispatch_job_to_peer q (net q)")
    case (Inl e)
    then have "\<not> (\<forall>p\<in>set qs. \<not> is_ok (dispatch_job_to_peer p (net p)))"
      using Cons.prems by (auto simp: is_ok_def)
    then obtain before p after resp where "qs = before @ p # after" "dispatch_job_to_peer p (net p) = Inr resp"
      "\<forall>q\<in>set before. \<not> is_ok (dispatch_job_to_peer q (net q))" "ask_peers net qs = (before @ [p], Some resp)"
      using Cons.IH by blast
    with Inl show ?thesis by (intro exI [of _ "q # before"] exI [of _ p] exI [of _ after] exI [of _ resp])
      (auto simp: is_ok_def)
  next
    case (Inr resp)
    then show ?thesis by (intro exI [of _ "[]"] exI [of _ q] exI [of _ qs] exI [of _ resp]) simp
  qed
qed simp

text \<open>The handler of a well-formed request, for a satellite that is connected here and one that is not.\<close>

lemma dispatch_handler_near:
  assumes "\<not> hb_locked h" "hq_method r = ''POST''"
    and "unmarshal dec_dispatch zero_dispatch (hq_body r) = Some d" "dr_agent_id d \<noteq> []" "dr_method d \<noteq> []"
    and "map_of (hb_conns h) (dr_agent_id d) = Some c"
  shows "dispatch_handler quote net call h r = (case call c (dr_method d) (dr_params d) of
      Inl e \<Rightarrow> Some ([], write_json_error e (error_status e)) | Inr resp \<Rightarrow> Some ([], respond 200 (enc_response resp)))"
  using assms by (simp add: dispatch_handler_def dispatch_job_def)

lemma dispatch_handler_far:
  assumes "\<not> hb_locked h" "hq_method r = ''POST''"
    and "unmarshal dec_dispatch zero_dispatch (hq_body r) = Some d" "dr_agent_id d \<noteq> []" "dr_method d \<noteq> []"
    and "map_of (hb_conns h) (dr_agent_id d) = None"
  shows "dispatch_handler quote net call h r =
    (if first_value (hq_headers r) ''X-Cluster-Proxy'' = ''true''
     then Some ([], write_json_error (not_connected (quote (dr_agent_id d))) 404)
     else (case ask_peers net (other_peers h) of
         (asked, None) \<Rightarrow> Some (asked, write_json_error (not_connected (quote (dr_agent_id d))) 404)
       | (asked, Some resp) \<Rightarrow> Some (asked, respond 200 (enc_response resp))))"
  using assms by (cases "ask_peers net (other_peers h)")
    (auto simp: dispatch_handler_def dispatch_job_def error_status_not_connected split: option.split)


definition sample_dispatch :: http_request where
  "sample_dispatch = (sample_post (dispatch_body ''s2'' ''ping'' None))\<lparr>hq_headers := [(''X-Cluster-Proxy'', ''true'')]\<rparr>"


text \<open>C28: Only the cluster's token changes a hub from outside. Whenever one of the three internal
  endpoints changes the hub or makes it send anything, the request carried exactly the hub's
  token; for registering peers and keys the token was not empty either. For schedules it may be:
  a hub configured without a token stores a schedule anyone posts.\<close>

theorem peer_endpoints_need_token:
  "(\<forall>h' out resp. register_peer_handler cr h r = (h', out, resp) \<and> (h' \<noteq> h \<or> out \<noteq> []) \<longrightarrow>
      hb_auth_token h \<noteq> [] \<and> (\<exists>reg. unmarshal dec_peer_registration \<lparr>pr_url = [], pr_token = []\<rparr> (hq_body r) = Some reg \<and>
         pr_token reg = hb_auth_token h)) \<and>
   (\<forall>h' resp. sync_key_handler cr h r = (h', resp) \<and> h' \<noteq> h \<longrightarrow>
      hb_auth_token h \<noteq> [] \<and> (\<exists>k. unmarshal dec_key_sync \<lparr>ks_agent_id = [], ks_public_key = [], ks_token = []\<rparr> (hq_body r) =
         Some k \<and> ks_token k = hb_auth_token h)) \<and>
   (\<forall>h' resp. sync_schedule_handler now nano h r = Some (h', resp) \<and> h' \<noteq> h \<longrightarrow>
      (\<exists>s. unmarshal dec_schedule_sync (zero_schedule, []) (hq_body r) = Some (s, hb_auth_token h)) \<or>
      first_value (hq_query r) ''token'' = hb_auth_token h) \<and>
   (\<not> hb_locked open_hub \<and> hb_auth_token open_hub = [] \<and> sched_ok s \<longrightarrow>
      (\<exists>h' resp. sync_schedule_handler now nano open_hub
          \<lparr>hq_method = ''POST'', hq_body = Some (JObj [(''schedule'', enc_schedule s)]), hq_query = [], hq_headers = []\<rparr> =
          Some (h', resp) \<and> hr_status resp = 200 \<and> map_of (hb_schedules h') (js_id s) = Some (arrived s)))"
proof (intro conjI impI)
  show "\<exists>h' resp. sync_schedule_handler now nano open_hub
      \<lparr>hq_method = ''POST'', hq_body = Some (JObj [(''schedule'', enc_schedule s)]), hq_query = [], hq_headers = []\<rparr> =
      Some (h', resp) \<and> hr_status resp = 200 \<and> map_of (hb_schedules h') (js_id s) = Some (arrived s)"
    if h: "\<not> hb_locked open_hub \<and> hb_auth_token open_hub = [] \<and> sched_ok s"
  proof -
    have d: "unmarshal dec_schedule_sync (zero_schedule, []) (Some (JObj [(''schedule'', enc_schedule s)])) = Some (arrived s, [])"
      using h schedule_decodes [of s]
      by (simp add: dec_schedule_sync_def sched_ok_def arrived_def codec_defs codec_simps)
    obtain h' where "save_peer_schedule now nano open_hub (arrived s) = Some h'"
      "map_of (hb_schedules h') = (map_of (hb_schedules open_hub))(js_id s \<mapsto> arrived s)"
      using save_peer_schedule_result [of open_hub now nano "arrived s"] h by auto
    then show ?thesis using d h by (simp add: sync_schedule_handler_def status_ok_def respond_def)
  qed
  show "\<forall>h' resp. sync_schedule_handler now nano h r = Some (h', resp) \<and> h' \<noteq> h \<longrightarrow>
      (\<exists>s. unmarshal dec_schedule_sync (zero_schedule, []) (hq_body r) = Some (s, hb_auth_token h)) \<or>
      first_value (hq_query r) ''token'' = hb_auth_token h"
    by (simp add: sync_schedule_handler_def Let_def split: if_splits option.splits)
  show "\<forall>h' out resp. register_peer_handler cr h r = (h', out, resp) \<and> (h' \<noteq> h \<or> out \<noteq> []) \<longrightarrow>
      hb_auth_token h \<noteq> [] \<and> (\<exists>reg. unmarshal dec_peer_registration \<lparr>pr_url = [], pr_token = []\<rparr> (hq_body r) = Some reg \<and>
         pr_token reg = hb_auth_token h)"
    by (simp add: register_peer_handler_def split: if_splits option.splits)
  show "\<forall>h' resp. sync_key_handler cr h r = (h', resp) \<and> h' \<noteq> h \<longrightarrow>
      hb_auth_token h \<noteq> [] \<and> (\<exists>k. unmarshal dec_key_sync \<lparr>ks_agent_id = [], ks_public_key = [], ks_token = []\<rparr> (hq_body r) =
         Some k \<and> ks_token k = hb_auth_token h)"
    by (simp add: sync_key_handler_def split: if_splits option.splits)
qed

theorem peer_endpoints_need_token_witness:
  "\<exists>h' resp. sync_schedule_handler 1 1 (sample_gate\<lparr>hb_auth_token := []\<rparr>)
     (sample_post (JObj [(''schedule'', enc_schedule sample_schedule)])) = Some (h', resp) \<and> hr_status resp = 200"
proof -
  have "\<not> hb_locked (sample_gate\<lparr>hb_auth_token := []\<rparr>) \<and> hb_auth_token (sample_gate\<lparr>hb_auth_token := []\<rparr>) = [] \<and>
      sched_ok sample_schedule"
    by (simp add: sched_ok_def sample_schedule_def int64_range_def sample_gate_def new_hub_def)
  then show ?thesis
    using peer_endpoints_need_token [of undefined sample_gate "sample_post JNull" 1 1 "sample_gate\<lparr>hb_auth_token := []\<rparr>"
        sample_schedule]
    by (auto simp: sample_post_def)
qed

lemma add_schedule_frame:
  assumes "add_schedule now nano a s = Some (a', outs)"
  shows "hb_peers a' = hb_peers a" "hb_my_url a' = hb_my_url a" "hb_auth_token a' = hb_auth_token a"
    "outs = broadcast_schedule_sync a' s"
proof -
  obtain h where h: "sync_agent_schedules now nano (put_schedule a s) (js_agent_id s) = Some h"
      "a' = h" "outs = broadcast_schedule_sync h s"
    using assms by (cases "sync_agent_schedules now nano (put_schedule a s) (js_agent_id s)")
      (simp_all add: add_schedule_def)
  have "a' = send_to_agent (put_schedule a s) (js_agent_id s)
      (sync_message nano (agent_tasks now (put_schedule a s) (js_agent_id s)))"
    using h(1,2) by (simp add: sync_agent_schedules_def split: if_splits)
  then show "hb_peers a' = hb_peers a" "hb_my_url a' = hb_my_url a" "hb_auth_token a' = hb_auth_token a"
    by (simp_all only: send_to_agent_fields put_del_schedule_fields)
  show "outs = broadcast_schedule_sync a' s" using h(2,3) by simp
qed

text \<open>C24: A schedule created on one hub exists on every hub. Each request that \<open>AddSchedule\<close> sends is
  addressed to a different peer, and a peer with the same token that handles it answers 200,
  stores the same schedule under the same identifier (absent parameters as \<open>null\<close>), keeps its
  other schedules, and sends nothing on.\<close>

theorem schedule_replicates:
  assumes "add_schedule now nano a s = Some (a', outs)" "distinct (hb_peers a)" "sched_ok s"
    and "\<not> hb_locked b" "hb_auth_token b = hb_auth_token a"
  shows "length outs = card (set (hb_peers a) - {hb_my_url a}) \<and>
    (\<forall>p \<in> set (hb_peers a) - {hb_my_url a}. \<exists>out\<in>set outs.
       out = HttpPost (p @ ''/internal/sync-schedule'') (schedule_sync_body a s) \<and>
       (\<exists>b' resp. sync_schedule_handler now' nano' b (peer_request out) = Some (b', resp) \<and> hr_status resp = 200 \<and>
          map_of (hb_schedules b') = (map_of (hb_schedules b))(js_id s \<mapsto> arrived s)))"
proof -
  have f: "hb_peers a' = hb_peers a" "hb_my_url a' = hb_my_url a" "hb_auth_token a' = hb_auth_token a"
    and outs: "outs = broadcast_schedule_sync a' s"
    using add_schedule_frame [OF assms(1)] by blast+
  have o: "outs = map (\<lambda>p. HttpPost (p @ ''/internal/sync-schedule'') (schedule_sync_body a s)) (other_peers a)"
    using outs f by (simp add: broadcast_schedule_sync_def other_peers_def schedule_sync_body_def)
  have ps: "distinct (other_peers a)" "set (other_peers a) = set (hb_peers a) - {hb_my_url a}"
    using assms(2) by (auto simp: other_peers_def)
  have "length outs = length (other_peers a)" by (simp add: o)
  also have "\<dots> = card (set (hb_peers a) - {hb_my_url a})"
    using distinct_card [OF ps(1)] by (simp only: ps(2))
  finally have "length outs = card (set (hb_peers a) - {hb_my_url a})" .
  moreover have "\<exists>b' resp. sync_schedule_handler now' nano' b
        (peer_request (HttpPost u (schedule_sync_body a s))) = Some (b', resp) \<and> hr_status resp = 200 \<and>
      map_of (hb_schedules b') = (map_of (hb_schedules b))(js_id s \<mapsto> arrived s)" for u
    using sync_schedule_post [OF assms(4,3), of a now' nano' u] assms(5)
    by (auto simp: status_ok_def respond_def)
  ultimately show ?thesis using o ps(2) by auto
qed

theorem schedule_replicates_witness:
  "\<exists>b' resp. sync_schedule_handler 1 1 sample_gate (peer_request (HttpPost (''http://b'' @ ''/internal/sync-schedule'')
     (schedule_sync_body sample_gate sample_schedule))) = Some (b', resp) \<and> hr_status resp = 200"
proof -
  have d: "distinct (hb_peers sample_gate)" "\<not> hb_locked sample_gate"
    "''http://b'' \<in> set (hb_peers sample_gate) - {hb_my_url sample_gate}"
    by (auto simp: sample_gate_def new_hub_def add_once_def)
  have s: "sched_ok sample_schedule" by (simp add: sched_ok_def sample_schedule_def int64_range_def)
  obtain a' outs where a: "add_schedule 1 1 sample_gate sample_schedule = Some (a', outs)"
    using d(2) by (auto simp: add_schedule_def sync_agent_schedules_def)
  show ?thesis
    using schedule_replicates [OF a d(1) s d(2) refl, of 1 1] d(3) by blast
qed

text \<open>C25: A key registered on one hub opens every hub. The request a hub broadcasts for a key, handled
  by a peer with the same non-empty token and a writable keys directory, leaves that key on file
  there under the same name, so the satellite is accepted by the peer too.\<close>

theorem key_replicates:
  assumes "pem_law cr" "pkix_law cr" "length k = key_size" "hb_auth_token b = hb_auth_token a"
    and "hb_auth_token a \<noteq> []" "valid_agent_id agent" "hb_keys_dir b \<noteq> []"
    and "hb_keys_dir b \<notin> set (fs_denied (hb_fs b))" "key_path b agent \<notin> set (fs_denied (hb_fs b))"
    and "out \<in> set (broadcast_key_sync a agent (b64_encode std_encoding k))"
  shows "\<exists>b' resp. sync_key_handler cr b (peer_request out) = (b', resp) \<and> hr_status resp = 200 \<and>
    load_public_key cr (hb_fs b') (key_path b' agent) = Inr k \<and>
    (\<forall>now r ts sig t. parse_int64 ts = NumOk t \<and> clock_skew now t \<le> max_skew \<and>
        verify_challenge cr k agent ts sig \<longrightarrow>
        signature_auth cr now b' r agent ts sig = (b', [], Accepted agent))"
proof -
  obtain p where out: "out = HttpPost (p @ ''/internal/sync-key'') (key_sync_body a agent (b64_encode std_encoding k))"
    using assms(10) by (auto simp: broadcast_key_sync_def)
  obtain fs where fs: "save_public_key_pem cr (hb_fs b) (key_path b agent) k = Inr fs"
    "load_public_key cr fs (key_path b agent) = Inr k"
    by (rule save_public_key_loads [OF assms(1-3,9)]) auto
  have ne: "agent \<noteq> []" "b64_encode std_encoding k \<noteq> []"
    using assms(3,6) by (auto simp: valid_agent_id_iff key_size_def length_b64_encode_padded std_encoding_def
        simp flip: length_greater_0_conv)
  have "save_peer_public_key cr b agent (b64_encode std_encoding k) = Inr (b\<lparr>hb_fs := fs\<rparr>)"
    using fs(1) assms(7,8) by (simp add: save_peer_public_key_def codec_simps mkdir_all_def)
  then have "sync_key_handler cr b (peer_request out) = (b\<lparr>hb_fs := fs\<rparr>, status_ok ''Key synchronized'')"
    using assms(4,5) ne key_sync_decodes [of a agent] by (simp add: sync_key_handler_def peer_request_def out)
  moreover have "key_path (b\<lparr>hb_fs := fs\<rparr>) agent = key_path b agent" by (simp add: key_path_def)
  ultimately show ?thesis
    using fs(2) assms(7) by (auto simp: status_ok_def respond_def intro!: signature_auth_known)
qed

theorem key_replicates_witness:
  "\<exists>b' resp. sync_key_handler sample_crypto sample_gate (peer_request (HttpPost (''http://b'' @ ''/internal/sync-key'')
     (key_sync_body sample_gate ''s1'' (b64_encode std_encoding sample_key)))) = (b', resp) \<and>
   load_public_key sample_crypto (hb_fs b') (key_path b' ''s1'') = Inr sample_key"
proof -
  have o: "HttpPost (''http://b'' @ ''/internal/sync-key'') (key_sync_body sample_gate ''s1'' (b64_encode std_encoding sample_key))
    \<in> set (broadcast_key_sync sample_gate ''s1'' (b64_encode std_encoding sample_key))"
    by (auto simp: broadcast_key_sync_def other_peers_def sample_gate_def new_hub_def add_once_def)
  show ?thesis
    using key_replicates [OF sample_pem sample_pkix sample_key_size refl _ sample_name _ _ _ o]
    by (auto simp: sample_fields)
qed

text \<open>C26: A full synchronisation is a merge that the sender wins: once a hub has handled everything a
  peer sends it, it has every schedule of the peer as the peer has it and keeps those the peer
  does not have. There is no record of deletions: a schedule deleted on one hub while a peer still
  has it is back after the peer's next synchronisation.\<close>

theorem full_sync_merges:
  assumes "plain_url url" "url \<noteq> []" "url \<noteq> hb_my_url b" "\<not> hb_locked a" "hb_auth_token b = hb_auth_token a"
    and "\<forall>(k, s)\<in>set (hb_schedules b). js_id s = k \<and> sched_ok s" "distinct (map fst (hb_schedules b))"
  shows "\<exists>a'. deliver_all cr now nano a (sync_all_to_peer cr b url) = Some a' \<and>
    map_of (hb_schedules a') = map_of (hb_schedules a) ++ (map_option arrived \<circ> map_of (hb_schedules b)) \<and>
    (\<forall>sid s. map_of (hb_schedules a) sid = None \<and> map_of (hb_schedules b) sid = Some s \<longrightarrow>
       map_of (hb_schedules a') sid = Some (arrived s))"
proof -
  let ?keys = "map (\<lambda>(agent, k). HttpPost (url @ ''/internal/sync-key'')
                  (key_sync_body b agent (b64_encode std_encoding k))) (local_keys cr b)"
  obtain a1 where a1: "deliver_all cr now nano a ?keys = Some a1" "hb_schedules a1 = hb_schedules a"
    "hb_locked a1 = hb_locked a" "hb_auth_token a1 = hb_auth_token a"
    using deliver_key_posts [of ?keys url cr now nano a] assms(1) by fastforce
  obtain a' where a': "deliver_all cr now nano a1 (map (\<lambda>s. HttpPost (url @ ''/internal/sync-schedule'')
      (schedule_sync_body b s)) (get_schedules b)) = Some a'"
    "map_of (hb_schedules a') = map_of (hb_schedules a1) ++
       map_of (rev (map (\<lambda>s. (js_id s, arrived s)) (get_schedules b)))"
    using deliver_schedule_posts [OF assms(1), of "get_schedules b" a1 b cr now nano] assms(4-6) a1
    by (fastforce simp: get_schedules_def)
  have ids: "map (\<lambda>s. (js_id s, arrived s)) (get_schedules b) = map (\<lambda>(k, s). (k, arrived s)) (hb_schedules b)"
    using assms(6) by (auto simp: get_schedules_def)
  have "distinct (map fst (map (\<lambda>(k, s). (k, arrived s)) (hb_schedules b)))"
    using assms(7) by (simp add: case_prod_beta comp_def)
  then have "map_of (rev (map (\<lambda>s. (js_id s, arrived s)) (get_schedules b))) =
      map_option arrived \<circ> map_of (hb_schedules b)"
    unfolding ids by (simp only: map_of_rev) (simp add: map_of_map case_prod_beta)
  then have m: "map_of (hb_schedules a') = map_of (hb_schedules a) ++ (map_option arrived \<circ> map_of (hb_schedules b))"
    using a'(2) a1(2) by simp
  have "deliver_all cr now nano a (sync_all_to_peer cr b url) = Some a'"
    using assms(2,3) a1(1) a'(1) by (simp add: sync_all_to_peer_def deliver_all_append)
  then show ?thesis using m by (auto simp: map_add_def)
qed

theorem full_sync_merges_witness:
  "\<exists>a'. deliver_all sample_crypto 1 1 sample_gate
     (sync_all_to_peer sample_crypto (put_schedule sample_gate sample_schedule) ''http://b'') = Some a' \<and>
   map_of (hb_schedules a') ''j'' = Some (arrived sample_schedule)"
proof -
  have c: "plain_url ''http://b''" "''http://b'' \<noteq> hb_my_url (put_schedule sample_gate sample_schedule)"
    "\<not> hb_locked sample_gate" "hb_auth_token (put_schedule sample_gate sample_schedule) = hb_auth_token sample_gate"
    "\<forall>(k, s)\<in>set (hb_schedules (put_schedule sample_gate sample_schedule)). js_id s = k \<and> sched_ok s"
    "distinct (map fst (hb_schedules (put_schedule sample_gate sample_schedule)))"
    "map_of (hb_schedules sample_gate) ''j'' = None"
    "map_of (hb_schedules (put_schedule sample_gate sample_schedule)) ''j'' = Some sample_schedule"
    by (auto simp: plain_url_def sample_gate_def new_hub_def sample_schedule_def sched_ok_def int64_range_def)
  show ?thesis using full_sync_merges [OF c(1) _ c(2-6), of sample_crypto 1 1] c(7,8) by auto
qed

text \<open>Characters that mean themselves in a query.\<close>

definition query_char :: "char \<Rightarrow> bool" where
  "query_char c \<longleftrightarrow> graphic c \<and> c \<notin> set ''&+%#;''"

lemma query_unescape_plain: "list_all query_char s \<Longrightarrow> query_unescape s = Some s"
  by (induction s) (auto simp: query_char_def)

lemma query_char_not:
  "list_all query_char s \<Longrightarrow> CHR ''&'' \<notin> set s \<and> CHR ''#'' \<notin> set s \<and> CHR '';'' \<notin> set s"
  by (auto simp: list_all_iff query_char_def)

lemma query_pair_plain:
  assumes "list_all query_char v" "list_all query_char k" "CHR ''='' \<notin> set k"
  shows "query_pair (k @ CHR ''='' # v) = Some (k, v)"
proof -
  have t: "takeWhile (\<lambda>c. c \<noteq> CHR ''='') (k @ CHR ''='' # v) = k"
    "dropWhile (\<lambda>c. c \<noteq> CHR ''='') (k @ CHR ''='' # v) = CHR ''='' # v"
    using assms(3) by (subst takeWhile_append2, auto) (subst dropWhile_append2, auto)
  have "CHR '';'' \<notin> set (k @ CHR ''='' # v)" using query_char_not assms(1,2) by simp
  then show ?thesis using assms by (simp add: query_pair_def t query_unescape_plain)
qed

lemma url_query_split:
  assumes "CHR ''?'' \<notin> set x" "CHR ''#'' \<notin> set x" "CHR ''#'' \<notin> set q"
  shows "url_query (x @ CHR ''?'' # q) = List.map_filter query_pair (split_on CHR ''&'' q)"
proof -
  have "takeWhile (\<lambda>c. c \<noteq> CHR ''#'') (x @ CHR ''?'' # q) = x @ CHR ''?'' # q"
    using assms(2,3) by (auto simp: takeWhile_eq_all_conv)
  moreover have "dropWhile (\<lambda>c. c \<noteq> CHR ''?'') (x @ CHR ''?'' # q) = CHR ''?'' # q"
    using assms(1) by (subst dropWhile_append2) auto
  ultimately show ?thesis unfolding url_query_def by (simp only: list.sel(3))
qed

lemma delete_url_query:
  assumes "plain_url p" "list_all query_char sid" "list_all query_char token"
  shows "url_query (p @ ''/internal/sync-schedule?id='' @ sid @ ''&token='' @ token) =
    [(''id'', sid), (''token'', token)]"
proof -
  note plain = query_char_not [OF assms(2)] query_char_not [OF assms(3)]
  define v where "v = ''id'' @ CHR ''='' # sid"
  define w where "w = ''token'' @ CHR ''='' # token"
  have no: "CHR ''&'' \<notin> set v" "CHR ''&'' \<notin> set w" "CHR ''#'' \<notin> set v" "CHR ''#'' \<notin> set w"
    using plain by (auto simp: v_def w_def)
  have pairs: "query_pair v = Some (''id'', sid)" "query_pair w = Some (''token'', token)"
    unfolding v_def w_def
    by (rule query_pair_plain; simp add: assms query_char_def graphic_def in_range_def byte_def)+
  have u: "p @ ''/internal/sync-schedule?id='' @ sid @ ''&token='' @ token =
      (p @ ''/internal/sync-schedule'') @ CHR ''?'' # (v @ CHR ''&'' # w)"
    by (simp add: v_def w_def)
  have q: "url_query ((p @ ''/internal/sync-schedule'') @ CHR ''?'' # (v @ CHR ''&'' # w)) =
      List.map_filter query_pair (split_on CHR ''&'' (v @ CHR ''&'' # w))"
    by (rule url_query_split) (use assms(1) no in \<open>auto simp: plain_url_def\<close>)
  have "split_on CHR ''&'' (v @ CHR ''&'' # w) = [v, w]"
    using no by (simp add: split_on_append split_on_absent)
  then show ?thesis unfolding u q by (simp add: List.map_filter_def pairs)
qed

lemma delete_peer_schedule_result:
  assumes "\<not> hb_locked h"
  shows "\<exists>h'. delete_peer_schedule now nano h sid = Some h' \<and>
    map_of (hb_schedules h') = (map_of (hb_schedules h))(sid := None)"
  using assms
  by (cases "map_of (hb_schedules h) sid")
    (auto simp: delete_peer_schedule_def sync_agent_schedules_def fun_eq_iff)

text \<open>C27: A schedule deleted on one hub is deleted on every hub, when its identifier and the token
  consist of characters that mean themselves in a URL: each request of the deletion, handled by a
  peer with the same token, removes exactly that schedule there.\<close>

theorem delete_replicates:
  assumes "map_of (hb_schedules a) sid = Some s" "delete_schedule now nano a sid = Some (a', outs)"
    and "list_all query_char sid" "sid \<noteq> []" "list_all query_char (hb_auth_token a)"
    and "\<forall>p\<in>set (hb_peers a). plain_url p" "\<not> hb_locked b" "hb_auth_token b = hb_auth_token a"
  shows "map_of (hb_schedules a') = (map_of (hb_schedules a))(sid := None) \<and>
    length outs = length (other_peers a) \<and>
    (\<forall>out\<in>set outs. \<exists>b' resp. sync_schedule_handler now' nano' b (peer_request out) = Some (b', resp) \<and>
       hr_status resp = 200 \<and> map_of (hb_schedules b') = (map_of (hb_schedules b))(sid := None))"
proof -
  obtain h where h: "sync_agent_schedules now nano (del_schedule a sid) (js_agent_id s) = Some h"
      "a' = h" "outs = broadcast_schedule_delete h sid"
    using assms(1,2) by (cases "sync_agent_schedules now nano (del_schedule a sid) (js_agent_id s)")
      (simp_all add: delete_schedule_def)
  have a': "a' = send_to_agent (del_schedule a sid) (js_agent_id s)
      (sync_message nano (agent_tasks now (del_schedule a sid) (js_agent_id s)))"
    using h(1,2) by (simp add: sync_agent_schedules_def split: if_splits)
  have f: "hb_peers h = hb_peers a" "hb_my_url h = hb_my_url a" "hb_auth_token h = hb_auth_token a"
    "map_of (hb_schedules a') = (map_of (hb_schedules a))(sid := None)"
    using a' h(2) by (simp_all only: send_to_agent_fields put_del_schedule_fields map_of_assoc_del)
  have outs: "outs = map (\<lambda>p. HttpDelete (p @ ''/internal/sync-schedule?id='' @ sid @ ''&token='' @ hb_auth_token a))
      (other_peers a)"
    using h(3) f(1-3) by (simp only: broadcast_schedule_delete_def other_peers_def)
  have "\<exists>b' resp. sync_schedule_handler now' nano' b (peer_request out) = Some (b', resp) \<and>
       hr_status resp = 200 \<and> map_of (hb_schedules b') = (map_of (hb_schedules b))(sid := None)"
    if out: "out \<in> set outs" for out
  proof -
    obtain p where p: "p \<in> set (hb_peers a)"
      "out = HttpDelete (p @ ''/internal/sync-schedule?id='' @ sid @ ''&token='' @ hb_auth_token a)"
      using out outs by (auto simp: other_peers_def)
    have q: "peer_request out = \<lparr>hq_method = ''DELETE'', hq_body = None,
        hq_query = [(''id'', sid), (''token'', hb_auth_token a)], hq_headers = []\<rparr>"
      unfolding peer_request_def p(2) using delete_url_query assms(3,5,6) p(1) by simp
    obtain b' where "delete_peer_schedule now' nano' b sid = Some b'"
      "map_of (hb_schedules b') = (map_of (hb_schedules b))(sid := None)"
      using delete_peer_schedule_result [OF assms(7)] by blast
    then show ?thesis
      using assms(4,8) by (simp add: sync_schedule_handler_def q first_value_def status_ok_def respond_def)
  qed
  then show ?thesis using f(4) outs by simp
qed

definition two_schedules :: hub where
  "two_schedules = put_schedule (put_schedule sample_gate (sample_schedule\<lparr>js_id := ''a''\<rparr>))
     (sample_schedule\<lparr>js_id := ''a&b''\<rparr>)"

theorem delete_replicates_witness:
  "\<exists>a' outs. delete_schedule 1 1 two_schedules ''a'' = Some (a', outs) \<and>
     map_of (hb_schedules a') = (map_of (hb_schedules two_schedules))(''a'' := None)"
proof -
  have l: "\<not> hb_locked two_schedules" by (simp add: two_schedules_def sample_gate_def new_hub_def)
  have m: "map_of (hb_schedules two_schedules) ''a'' = Some (sample_schedule\<lparr>js_id := ''a''\<rparr>)"
    by (simp add: two_schedules_def)
  obtain a' outs where d: "delete_schedule 1 1 two_schedules ''a'' = Some (a', outs)"
    using l m by (simp add: delete_schedule_def sync_agent_schedules_def)
  have q: "list_all query_char ''a''" "list_all query_char (hb_auth_token two_schedules)"
    "\<forall>p\<in>set (hb_peers two_schedules). plain_url p"
    by (simp_all add: two_schedules_def sample_gate_def new_hub_def query_char_def graphic_def in_range_def byte_def
        plain_url_def add_once_def)
  show ?thesis using delete_replicates [OF m d q(1) _ q(2,3) l refl] d by blast
qed

text \<open>The identifier of a deleted schedule is not escaped. A hub that deletes its schedule
  \<open>a&b\<close> makes its peers delete their schedule \<open>a\<close> instead and keep \<open>a&b\<close>, which the next full
  synchronisation brings back.\<close>

theorem delete_not_escaped:
  "\<exists>a' out b' resp. delete_schedule 1 1 two_schedules ''a&b'' = Some (a', [out]) \<and>
     map_of (hb_schedules a') ''a&b'' = None \<and>
     sync_schedule_handler 1 1 two_schedules (peer_request out) = Some (b', resp) \<and> hr_status resp = 200 \<and>
     map_of (hb_schedules b') ''a'' = None \<and> map_of (hb_schedules b') ''a&b'' \<noteq> None"
proof -
  let ?u = "''http://b'' @ ''/internal/sync-schedule?id='' @ ''a&b'' @ ''&token='' @ ''tok''"
  have l: "\<not> hb_locked two_schedules" "hb_auth_token two_schedules = ''tok''"
    "hb_peers two_schedules = [''http://b'']" "hb_my_url two_schedules = ''http://a''"
    "map_of (hb_schedules two_schedules) ''a&b'' = Some (sample_schedule\<lparr>js_id := ''a&b''\<rparr>)"
    by (simp_all add: two_schedules_def sample_gate_def new_hub_def add_once_def)
  define a' where "a' = send_to_agent (del_schedule two_schedules ''a&b'') (js_agent_id sample_schedule)
      (sync_message 1 (agent_tasks 1 (del_schedule two_schedules ''a&b'') (js_agent_id sample_schedule)))"
  have d: "delete_schedule 1 1 two_schedules ''a&b'' = Some (a', [HttpDelete ?u])"
    using l by (simp add: delete_schedule_def sync_agent_schedules_def a'_def broadcast_schedule_delete_def
        other_peers_def)
  have q: "url_query ?u = [(''id'', ''a''), (''b'', []), (''token'', ''tok'')]"
    by code_simp
  obtain b' where b: "delete_peer_schedule 1 1 two_schedules ''a'' = Some b'"
      "map_of (hb_schedules b') = (map_of (hb_schedules two_schedules))(''a'' := None)"
    using delete_peer_schedule_result [OF l(1)] by blast
  have "sync_schedule_handler 1 1 two_schedules (peer_request (HttpDelete ?u)) =
      Some (b', status_ok ''Schedule synchronized delete'')"
    unfolding peer_request_def http_out.case q using b(1) l(2)
    by (simp add: sync_schedule_handler_def first_value_def)
  moreover have "map_of (hb_schedules a') ''a&b'' = None" by (simp add: a'_def)
  ultimately show ?thesis using d b(2) l(5) by (auto simp: status_ok_def respond_def)
qed

text \<open>A peer's key is stored under whatever name the peer sends. The name is not checked on this
  path: with the keys in \<open>/keys\<close> and the cluster's token, a key for the name \<open>../evil\<close> is written
  to \<open>/evil.pub\<close>, outside the directory.\<close>

theorem peer_key_escapes_directory:
  "\<exists>b' resp. sync_key_handler sample_crypto sample_gate
      (sample_post (key_sync_body sample_gate ''../evil'' (b64_encode std_encoding sample_key))) = (b', resp) \<and>
    hr_status resp = 200 \<and> fs_exists (hb_fs b') ''/evil.pub'' \<and> \<not> valid_agent_id ''../evil''"
proof -
  have p: "key_path sample_gate ''../evil'' = ''/evil.pub''" by code_simp
  have "pkix_marshal sample_crypto sample_key = Inr sample_key"
    by (simp add: sample_crypto_def sample_key_size)
  then have "save_public_key_pem sample_crypto \<lparr>fs_files = [], fs_denied = []\<rparr> ''/evil.pub'' sample_key =
      Inr \<lparr>fs_files = [(''/evil.pub'', pem_encode sample_crypto pub_type sample_key)], fs_denied = []\<rparr>"
    by (simp add: save_public_key_pem_def write_file_def)
  then have s: "save_peer_public_key sample_crypto sample_gate ''../evil'' (b64_encode std_encoding sample_key) =
      Inr (sample_gate\<lparr>hb_fs := \<lparr>fs_files = [(''/evil.pub'', pem_encode sample_crypto pub_type sample_key)], fs_denied = []\<rparr>\<rparr>)"
    using p by (simp add: save_peer_public_key_def codec_simps mkdir_all_def sample_fields)
  have "\<not> agent_id_char CHR ''.''"
    by (simp add: agent_id_char_def is_alnum_def is_digit_def in_range_def byte_def)
  then have "\<not> valid_agent_id ''../evil''" by (simp add: valid_agent_id_iff)
  then show ?thesis
    using s key_sync_decodes [of sample_gate "''../evil''" "b64_encode std_encoding sample_key"] sample_values(2)
    by (simp add: sync_key_handler_def sample_post_def sample_fields status_ok_def respond_def fs_exists_def)
qed

end
