(* ===== verification/DiskCache.thy ===== *)
theory DiskCache
  imports RpcTypes
begin

text \<open>
  The satellite's cache of results, \<open>DiskCache\<close> of \<open>agent/cache.go\<close>: a JSON file holding a list
  of metric submissions. The disk maps paths to files; a file is its parsed document, \<open>None\<close>
  for text that is not JSON, and the error that reading it gives, if any. How a write ends is
  an argument of the operation: done, refused before the file is touched, or cut short after
  the file was truncated, which leaves no JSON behind. The mutex makes each operation one step.
\<close>

section \<open>The disk\<close>

record doc_file =
  df_doc :: "json option"
  df_error :: "string option"

type_synonym disk = "string \<Rightarrow> doc_file option"

datatype write_outcome = WriteOk | WriteRefused string | WriteCut string

datatype cache_error = CannotRead string | BadDocument | CannotWrite string | CannotRemove string

definition write_doc :: "write_outcome \<Rightarrow> disk \<Rightarrow> string \<Rightarrow> json \<Rightarrow> disk \<times> string option" where
  "write_doc w d p j =
     (let held = (\<lambda>doc. d(p \<mapsto> \<lparr>df_doc = doc, df_error = (case d p of None \<Rightarrow> None | Some f \<Rightarrow> df_error f)\<rparr>))
      in case w of
           WriteOk \<Rightarrow> (held (Some j), None)
         | WriteRefused e \<Rightarrow> (d, Some e)
         | WriteCut e \<Rightarrow> (held None, Some e))"

text \<open>\<open>os.Remove\<close>: \<open>rm\<close> is a failure other than the file not being there.\<close>

definition remove_doc :: "string option \<Rightarrow> disk \<Rightarrow> string \<Rightarrow> disk \<times> string option" where
  "remove_doc rm d p =
     (case (rm, d p) of
        (Some e, _) \<Rightarrow> (d, Some e)
      | (None, None) \<Rightarrow> (d, Some (''remove '' @ p @ '': no such file or directory''))
      | (None, Some _) \<Rightarrow> (d(p := None), None))"

section \<open>Operations\<close>

definition cache_load :: "disk \<Rightarrow> string \<Rightarrow> cache_error + metric_submission list" where
  "cache_load d p =
     (case d p of
        None \<Rightarrow> Inr []
      | Some f \<Rightarrow>
     (case df_error f of
        Some e \<Rightarrow> Inl (CannotRead e)
      | None \<Rightarrow>
     (case unmarshal dec_metrics [] (df_doc f) of
        None \<Rightarrow> Inl BadDocument
      | Some subs \<Rightarrow> Inr subs)))"

definition cache_save ::
  "write_outcome \<Rightarrow> disk \<Rightarrow> string \<Rightarrow> metric_submission list \<Rightarrow> disk \<times> cache_error option" where
  "cache_save w d p subs = map_prod (\<lambda>d. d) (map_option CannotWrite) (write_doc w d p (enc_metrics subs))"

definition cache_add ::
  "write_outcome \<Rightarrow> disk \<Rightarrow> string \<Rightarrow> metric_submission \<Rightarrow> disk \<times> cache_error option" where
  "cache_add w d p sub =
     (let subs = (case cache_load d p of Inl _ \<Rightarrow> [] | Inr subs \<Rightarrow> subs)
      in cache_save w d p (subs @ [sub]))"

definition cache_pop_all :: "disk \<Rightarrow> string \<Rightarrow> cache_error + metric_submission list" where
  "cache_pop_all d p = cache_load d p"

definition cache_remove_oldest ::
  "write_outcome \<Rightarrow> string option \<Rightarrow> disk \<Rightarrow> string \<Rightarrow> nat \<Rightarrow> disk \<times> cache_error option" where
  "cache_remove_oldest w rm d p n =
     (case cache_load d p of
        Inl e \<Rightarrow> (d, Some e)
      | Inr subs \<Rightarrow>
          if length subs \<le> n then map_prod (\<lambda>d. d) (map_option CannotRemove) (remove_doc rm d p)
          else cache_save w d p (drop n subs))"

section \<open>The cache as a queue\<close>

text \<open>A timestamp is a 64-bit integer.\<close>

definition metric_ok :: "metric_submission \<Rightarrow> bool" where
  "metric_ok m \<longleftrightarrow> int64_range (ms_timestamp m)"

definition cache_items :: "string \<Rightarrow> disk \<Rightarrow> metric_submission list" where
  "cache_items p d = (case cache_load d p of Inl _ \<Rightarrow> [] | Inr subs \<Rightarrow> subs)"

definition cache_wf :: "string \<Rightarrow> disk \<Rightarrow> bool" where
  "cache_wf p d \<longleftrightarrow> (\<exists>subs. cache_load d p = Inr subs \<and> list_all metric_ok subs)"

lemma cache_wf_load: "cache_wf p d \<Longrightarrow> cache_load d p = Inr (cache_items p d)"
  by (auto simp: cache_wf_def cache_items_def)

lemma cache_wf_items: "cache_wf p d \<Longrightarrow> list_all metric_ok (cache_items p d)"
  by (auto simp: cache_wf_def cache_items_def)

lemma cache_wfI: "cache_load d p = Inr subs \<Longrightarrow> list_all metric_ok subs \<Longrightarrow> cache_wf p d \<and> cache_items p d = subs"
  by (simp add: cache_wf_def cache_items_def)

lemma metrics_roundtrip:
  "list_all metric_ok subs \<Longrightarrow> unmarshal dec_metrics [] (Some (enc_metrics subs)) = Some subs"
  using metric_codec.list_exact [of subs "[]"]
  by (simp add: unmarshal_def dec_metrics_def enc_metrics_def metric_ok_def [abs_def])

text \<open>What is saved is what is loaded, unless the file cannot be read.\<close>

lemma load_saved:
  assumes "list_all metric_ok subs" "\<And>f. d p = Some f \<Longrightarrow> df_error f = None"
  shows "cache_save WriteOk d p subs = (d', e) \<Longrightarrow> e = None \<and> cache_load d' p = Inr subs"
  using assms metrics_roundtrip [OF assms(1)]
  by (auto simp: cache_save_def write_doc_def cache_load_def split: option.splits)

lemma cache_wf_readable: "cache_wf p d \<Longrightarrow> d p = Some f \<Longrightarrow> df_error f = None"
  by (auto simp: cache_wf_def cache_load_def split: option.splits)

lemma cache_add_ok:
  assumes "cache_wf p d" "metric_ok m"
  shows "snd (cache_add WriteOk d p m) = None"
    and "cache_wf p (fst (cache_add WriteOk d p m))"
    and "cache_items p (fst (cache_add WriteOk d p m)) = cache_items p d @ [m]"
proof -
  obtain d' e where r: "cache_add WriteOk d p m = (d', e)" by fastforce
  then have s: "cache_save WriteOk d p (cache_items p d @ [m]) = (d', e)"
    using cache_wf_load [OF assms(1)] by (simp add: cache_add_def)
  have ok: "list_all metric_ok (cache_items p d @ [m])"
    using cache_wf_items [OF assms(1)] assms(2) by simp
  have l: "e = None \<and> cache_load d' p = Inr (cache_items p d @ [m])"
    using load_saved [OF ok cache_wf_readable [OF assms(1)] s] .
  then show "snd (cache_add WriteOk d p m) = None" using r by simp
  show "cache_wf p (fst (cache_add WriteOk d p m))"
    "cache_items p (fst (cache_add WriteOk d p m)) = cache_items p d @ [m]"
    using cache_wfI [of d' p] l ok r by auto
qed

lemma cache_remove_ok:
  assumes "cache_wf p d"
  shows "cache_wf p (fst (cache_remove_oldest WriteOk None d p n))"
    and "cache_items p (fst (cache_remove_oldest WriteOk None d p n)) = drop n (cache_items p d)"
proof -
  let ?subs = "cache_items p d" and ?r = "cache_remove_oldest WriteOk None d p n"
  have l: "cache_load d p = Inr ?subs" by (rule cache_wf_load [OF assms])
  have ok: "list_all metric_ok (drop n ?subs)"
    using cache_wf_items [OF assms] by (auto simp: list_all_iff dest: in_set_dropD)
  have "cache_load (fst ?r) p = Inr (drop n ?subs)"
  proof (cases "length ?subs \<le> n")
    case True
    then show ?thesis using l
      by (cases "d p") (auto simp: cache_remove_oldest_def remove_doc_def cache_load_def)
  next
    case False
    obtain d' e where s: "cache_save WriteOk d p (drop n ?subs) = (d', e)" by fastforce
    have "cache_load d' p = Inr (drop n ?subs)"
      by (rule load_saved [OF ok cache_wf_readable [OF assms] s, THEN conjunct2])
    then show ?thesis using False l s by (simp add: cache_remove_oldest_def)
  qed
  from cache_wfI [OF this ok] show "cache_wf p (fst ?r)" "cache_items p (fst ?r) = drop n ?subs"
    by blast+
qed

definition cache_put :: "string \<Rightarrow> metric_submission \<Rightarrow> disk \<Rightarrow> disk" where
  "cache_put p m d = (if metric_ok m then fst (cache_add WriteOk d p m) else d)"

interpretation disk_queue: fifo_flush "cache_items p" "cache_wf p" "\<lambda>_. metric_ok" "cache_put p"
  "\<lambda>n d. fst (cache_remove_oldest WriteOk None d p n)" for p
  by unfold_locales (auto simp: cache_put_def cache_add_ok cache_remove_ok)

text \<open>While the disk works, the cache file is a first-in first-out queue. Adding a result appends
  it to what is stored, reading returns everything in order, and dropping the n oldest results
  leaves the others, also when the file is not there yet and when nothing remains.\<close>

theorem cache_is_queue:
  assumes "cache_wf p d" "metric_ok m"
  shows "cache_pop_all d p = Inr (cache_items p d) \<and>
    (\<exists>d'. cache_add WriteOk d p m = (d', None) \<and> cache_wf p d' \<and> cache_pop_all d' p = Inr (cache_items p d @ [m])) \<and>
    (\<exists>d' e. cache_remove_oldest WriteOk None d p n = (d', e) \<and> cache_wf p d' \<and>
       cache_pop_all d' p = Inr (drop n (cache_items p d)))"
proof (intro conjI)
  show "cache_pop_all d p = Inr (cache_items p d)"
    using cache_wf_load [OF assms(1)] by (simp add: cache_pop_all_def)
  show "\<exists>d'. cache_add WriteOk d p m = (d', None) \<and> cache_wf p d' \<and> cache_pop_all d' p = Inr (cache_items p d @ [m])"
    using cache_add_ok [OF assms] cache_wf_load [of p "fst (cache_add WriteOk d p m)"]
    by (metis cache_pop_all_def prod.collapse)
  show "\<exists>d' e. cache_remove_oldest WriteOk None d p n = (d', e) \<and> cache_wf p d' \<and>
       cache_pop_all d' p = Inr (drop n (cache_items p d))"
    using cache_remove_ok [OF assms(1), of n] cache_wf_load [of p "fst (cache_remove_oldest WriteOk None d p n)"]
    by (metis cache_pop_all_def prod.collapse)
qed

definition sample_metric :: metric_submission where
  "sample_metric = zero_metric\<lparr>ms_task_id := ''t'', ms_timestamp := 7, ms_error := ''down''\<rparr>"

theorem cache_is_queue_witness:
  "\<exists>d'. cache_add WriteOk (\<lambda>_. None) ''c'' sample_metric = (d', None) \<and> cache_pop_all d' ''c'' = Inr [sample_metric]"
proof -
  have "cache_wf ''c'' (\<lambda>_. None)" "metric_ok sample_metric" "cache_items ''c'' (\<lambda>_. None) = []"
    by (simp_all add: cache_wf_def cache_load_def cache_items_def metric_ok_def sample_metric_def int64_range_def)
  then show ?thesis using cache_is_queue [of "''c''" "\<lambda>_. None" sample_metric 0] by auto
qed

text \<open>C38: A write that is cut short loses every result in the cache: the file is truncated before
  the new text is written. Reading and dropping fail from then on and leave the disk as it is,
  and the next result that is added replaces the broken file, alone in it.\<close>

theorem cut_write_loses_cache:
  assumes "cache_wf p d" "metric_ok m'" "cache_add (WriteCut e) d p m = (d1, r)"
  shows "r = Some (CannotWrite e) \<and> cache_pop_all d1 p = Inl BadDocument \<and>
    cache_remove_oldest w rm d1 p n = (d1, Some BadDocument) \<and>
    cache_pop_all (fst (cache_add WriteOk d1 p m')) p = Inr [m']"
proof -
  let ?f = "\<lparr>df_doc = None, df_error = (case d p of None \<Rightarrow> None | Some f \<Rightarrow> df_error f)\<rparr>"
  have d1: "d1 = d(p \<mapsto> ?f)" and r: "r = Some (CannotWrite e)"
    using assms(3) by (auto simp: cache_add_def cache_save_def write_doc_def)
  have ne: "df_error ?f = None" using cache_wf_readable [OF assms(1)] by (auto split: option.splits)
  have bad: "cache_load d1 p = Inl BadDocument"
    using d1 ne by (simp add: cache_load_def unmarshal_def)
  obtain d2 e2 where s: "cache_save WriteOk d1 p [m'] = (d2, e2)" by fastforce
  have "cache_load d2 p = Inr [m']"
    using load_saved [of "[m']" d1 p, OF _ _ s] assms(2) d1 ne by auto
  then have "cache_load (fst (cache_add WriteOk d1 p m')) p = Inr [m']"
    using s bad by (simp add: cache_add_def)
  then show ?thesis using bad r by (simp add: cache_pop_all_def cache_remove_oldest_def)
qed

theorem cut_write_loses_cache_witness:
  "cache_pop_all (fst (cache_add WriteOk
     (fst (cache_add (WriteCut ''no space'') (fst (cache_add WriteOk (\<lambda>_. None) ''c'' sample_metric)) ''c'' sample_metric))
     ''c'' sample_metric)) ''c'' = Inr [sample_metric]"
proof -
  have w: "cache_wf ''c'' (\<lambda>_. None)" "metric_ok sample_metric"
    by (simp_all add: cache_wf_def cache_load_def metric_ok_def sample_metric_def int64_range_def)
  show ?thesis
    using cut_write_loses_cache [OF cache_add_ok(2) [OF w] w(2), of "''no space''" sample_metric _ _ WriteOk None 0]
    by (metis prod.collapse)
qed

end
