(* ===== verification/Host.thy ===== *)
theory Host
  imports GoFloat "HOL-Library.List_Lexorder" "HOL-Library.Char_ord"
begin

text \<open>
  What the satellite's jobs use of the machine they run on, as arguments of the model: running
  programs, the files a custom command may read, temporary directories, the \<open>regexp\<close> package
  on patterns from the configuration, and the texts of \<open>encoding/json\<close> errors and \<open>%q\<close>
  quoting, which the jobs only pass on, and the step from the text a program printed to a JSON
  document. Then the values of \<open>interface{}\<close> that JSON decodes to and
  how \<open>fmt\<close> prints them.
\<close>

section \<open>The machine\<close>

text \<open>\<open>CombinedOutput\<close> gives the error, if the program did not exit with 0, and everything it
  printed. \<open>Run\<close> tells a program that ran, with its exit code, from one that could not be run.
  Both get the program, its arguments, the variables added to the environment and the timeout in
  seconds. \<open>ho_stat\<close> tells a directory from a file and gives its size; \<open>ho_open\<close> gives the bytes
  of a file, or the error of reading it after it was opened.\<close>

datatype run_result = RunFailed string | Exited int string string

record host =
  ho_look_path :: "string \<Rightarrow> string res"
  ho_exists :: "string \<Rightarrow> bool"
  ho_combined :: "string \<Rightarrow> string list \<Rightarrow> string list \<Rightarrow> int \<Rightarrow> string option \<times> string"
  ho_run :: "string \<Rightarrow> string list \<Rightarrow> string list \<Rightarrow> int \<Rightarrow> run_result \<times> int"
  ho_mkdir_temp :: "string \<Rightarrow> string res"
  ho_uid :: int
  ho_stat :: "string \<Rightarrow> (bool \<times> int) res"
  ho_open :: "string \<Rightarrow> (string res) res"
  ho_regex :: "string \<Rightarrow> (string \<Rightarrow> bool) res"
  ho_parse_json :: "string \<Rightarrow> json option"
  ho_json_error :: "json option \<Rightarrow> string"
  ho_quote :: "string \<Rightarrow> string"
  ho_quote_list :: "string list \<Rightarrow> string"

section \<open>Values of \<open>interface{}\<close>\<close>

text \<open>A number becomes a \<open>float64\<close>; decoding fails when it is out of range.\<close>

fun any_ok :: "json \<Rightarrow> bool" where
  "any_ok (JNum lit) \<longleftrightarrow> snd (parse_float lit)"
| "any_ok (JArr js) \<longleftrightarrow> list_all any_ok js"
| "any_ok (JObj kvs) \<longleftrightarrow> list_all (\<lambda>(k, v). any_ok v) kvs"
| "any_ok _ \<longleftrightarrow> True"

text \<open>Decoding into \<open>map[string]interface{}\<close>: a later key replaces an earlier one, keys are
  compared exactly.\<close>

type_synonym any_map = "(string \<times> json) list"

definition dec_any_map :: "json option \<Rightarrow> any_map option" where
  "dec_any_map msg =
     (case msg of
        Some (JObj kvs) \<Rightarrow> if any_ok (JObj kvs) then Some kvs else None
      | Some JNull \<Rightarrow> Some []
      | _ \<Rightarrow> None)"

definition any_get :: "any_map \<Rightarrow> string \<Rightarrow> json option" where
  "any_get m k = map_of (rev m) k"

text \<open>\<open>fmt\<close>'s \<open>%v\<close>; the entries of a map are printed in the order of their keys.\<close>

fun sep_by :: "string \<Rightarrow> string list \<Rightarrow> string" where
  "sep_by sep [] = []"
| "sep_by sep [w] = w"
| "sep_by sep (w # v # ws) = w @ sep @ sep_by sep (v # ws)"

definition fmt_entries :: "(string \<times> string) list \<Rightarrow> string" where
  "fmt_entries es = ''map['' @ sep_by '' ''
     (map (\<lambda>k. k @ CHR '':'' # (case map_of (rev es) k of Some v \<Rightarrow> v | None \<Rightarrow> []))
       (sort (remdups (map fst es)))) @ '']''"

fun fmt_value :: "json \<Rightarrow> string" where
  "fmt_value JNull = ''<nil>''"
| "fmt_value (JBool b) = (if b then ''true'' else ''false'')"
| "fmt_value (JNum lit) = format_v (float_of lit)"
| "fmt_value (JStr s) = s"
| "fmt_value (JArr js) = ''['' @ sep_by '' '' (map fmt_value js) @ '']''"
| "fmt_value (JObj kvs) = fmt_entries (map (\<lambda>(k, v). (k, fmt_value v)) kvs)"

end
