(* ===== verification/JobOutput.thy ===== *)
theory JobOutput
  imports GoFloat
begin

text \<open>
  Reading what the tools print: \<open>parsePingOutput\<close>, \<open>parseSNMPWalkOutput\<close> and
  \<open>parseTracerouteOutput\<close> of \<open>agent/client.go\<close>, with the result types of
  \<open>common/metrics.go\<close> and their JSON form. A result that holds an infinity cannot be
  marshalled (\<open>None\<close>). \<open>ping_summary\<close>, \<open>ping_rtts\<close>, \<open>print_hop\<close> and \<open>snmp_text\<close> print lines in the
  format of the tools, and stand only in the properties.
\<close>

definition newline :: char where "newline = CHR 0x0A"

definition out_lines :: "string \<Rightarrow> string list" where
  "out_lines s = split_on newline s"

section \<open>Ping\<close>

record ping_result =
  po_host :: string
  po_sent :: int
  po_received :: int
  po_loss :: f64
  po_min :: f64
  po_avg :: f64
  po_max :: f64
  po_raw :: string

definition atoi :: "string \<Rightarrow> int" where
  "atoi s = num_val (parse_int64 s)"

definition ping_totals :: "ping_result \<Rightarrow> string \<Rightarrow> ping_result" where
  "ping_totals r line =
     (let parts = split_on CHR '','' line in
      if 3 \<le> length parts
      then r\<lparr>po_sent := atoi (trim_space (replace_all ''packets transmitted'' [] (parts ! 0))),
             po_received := atoi (trim_space (replace_all ''received'' [] (parts ! 1))),
             po_loss := float_of (replace_all ''%'' [] (trim_space (replace_all ''packet loss'' [] (parts ! 2))))\<rparr>
      else r)"

definition ping_times :: "ping_result \<Rightarrow> string \<Rightarrow> ping_result" where
  "ping_times r line =
     (let parts = split_on CHR ''='' line in
      if length parts = 2
      then (let stats = split_on CHR ''/'' (replace_all '' ms'' [] (trim_space (parts ! 1))) in
        if 3 \<le> length stats
        then r\<lparr>po_min := float_of (stats ! 0), po_avg := float_of (stats ! 1), po_max := float_of (stats ! 2)\<rparr>
        else r)
      else r)"

definition ping_line :: "string \<Rightarrow> ping_result \<Rightarrow> ping_result" where
  "ping_line l r =
     (let line = trim_space l in
      if contains line ''packets transmitted'' then ping_totals r line
      else if has_prefix line ''rtt min/avg/max/mdev'' \<or> has_prefix line ''round-trip min/avg/max/stddev''
        then ping_times r line
      else r)"

definition parse_ping_output :: "string \<Rightarrow> string \<Rightarrow> ping_result res" where
  "parse_ping_output host output =
     (let r = fold ping_line (out_lines output)
        \<lparr>po_host = host, po_sent = 0, po_received = 0, po_loss = Fin 0, po_min = Fin 0, po_avg = Fin 0,
         po_max = Fin 0, po_raw = output\<rparr>
      in if po_sent r = 0 then Inl ''failed to parse ping command output statistics'' else Inr r)"

definition enc_ping_result :: "ping_result \<Rightarrow> json option" where
  "enc_ping_result r =
     (case (enc_float (po_loss r), enc_float (po_min r), enc_float (po_avg r), enc_float (po_max r)) of
        (Some l, Some mn, Some av, Some mx) \<Rightarrow> Some (JObj ([(''host'', JStr (po_host r)),
          (''packets_sent'', jint (po_sent r)), (''packets_received'', jint (po_received r)),
          (''packet_loss_percentage'', l), (''min_rtt_ms'', mn), (''avg_rtt_ms'', av), (''max_rtt_ms'', mx)]
          @ omit_empty ''raw_output'' (po_raw r)))
      | _ \<Rightarrow> None)"

section \<open>SNMP\<close>

record snmp_entry =
  se_oid :: string
  se_type :: string
  se_value :: string

record snmp_result =
  so_target :: string
  so_oid :: string
  so_entries :: "snmp_entry list"
  so_raw :: string

definition snmp_entry_of :: "string \<Rightarrow> snmp_entry option" where
  "snmp_entry_of l =
     (let line = trim_space l in
      if line = [] then None
      else (case split2 CHR ''='' line of
          [o', v] \<Rightarrow>
            (let val = trim_space v in
             (case split2 CHR '':'' val of
                [t, x] \<Rightarrow> Some \<lparr>se_oid = trim_space o', se_type = trim_space t, se_value = trim_space x\<rparr>
              | _ \<Rightarrow> Some \<lparr>se_oid = trim_space o', se_type = ''UNKNOWN'', se_value = val\<rparr>))
        | _ \<Rightarrow> None))"

definition parse_snmp_output :: "string \<Rightarrow> string \<Rightarrow> string \<Rightarrow> snmp_result" where
  "parse_snmp_output target req_oid output =
     \<lparr>so_target = target, so_oid = req_oid,
      so_entries = List.map_filter snmp_entry_of (out_lines output), so_raw = output\<rparr>"

definition enc_snmp_entry :: "snmp_entry \<Rightarrow> json" where
  "enc_snmp_entry e = JObj [(''oid'', JStr (se_oid e)), (''type'', JStr (se_type e)), (''value'', JStr (se_value e))]"

definition enc_snmp_result :: "snmp_result \<Rightarrow> json" where
  "enc_snmp_result r = JObj ([(''target'', JStr (so_target r)), (''oid'', JStr (so_oid r)),
     (''entries'', JArr (map enc_snmp_entry (so_entries r)))] @ omit_empty ''raw_output'' (so_raw r))"

section \<open>Traceroute\<close>

record trace_hop =
  th_hop :: int
  th_host :: string
  th_ip :: string
  th_rtts :: "f64 list"

record trace_result =
  to_host :: string
  to_hops :: "trace_hop list"
  to_raw :: string

text \<open>The times of a hop: a number followed by the field \<open>ms\<close>.\<close>

fun hop_rtts :: "string list \<Rightarrow> f64 list" where
  "hop_rtts [] = []"
| "hop_rtts [t] = []"
| "hop_rtts (t # u # ts) =
     (if t = ''*'' then hop_rtts (u # ts)
      else (case parse_float t of
          (v, True) \<Rightarrow> if u = ''ms'' then v # hop_rtts ts else hop_rtts (u # ts)
        | (_, False) \<Rightarrow> hop_rtts (u # ts)))"

definition trace_hop_of :: "string \<Rightarrow> trace_hop option" where
  "trace_hop_of l =
     (let line = trim_space l in
      if line = [] \<or> has_prefix line ''traceroute to'' then None
      else (case GoStrings.fields line of
          n # h # rest \<Rightarrow>
            (case parse_int64 n of
               NumOk hop \<Rightarrow>
                 if h = ''*'' then Some \<lparr>th_hop = hop, th_host = ''*'', th_ip = ''*'', th_rtts = []\<rparr>
                 else (case rest of
                     p # ps \<Rightarrow> if has_prefix p ''('' \<and> has_suffix p '')''
                       then Some \<lparr>th_hop = hop, th_host = h, th_ip = trim_chars ''()'' p, th_rtts = hop_rtts ps\<rparr>
                       else Some \<lparr>th_hop = hop, th_host = h, th_ip = h, th_rtts = hop_rtts rest\<rparr>
                   | [] \<Rightarrow> Some \<lparr>th_hop = hop, th_host = h, th_ip = h, th_rtts = []\<rparr>)
             | _ \<Rightarrow> None)
        | _ \<Rightarrow> None))"

definition parse_trace_output :: "string \<Rightarrow> string \<Rightarrow> trace_result" where
  "parse_trace_output host output =
     \<lparr>to_host = host, to_hops = List.map_filter trace_hop_of (out_lines output), to_raw = output\<rparr>"

fun enc_floats :: "f64 list \<Rightarrow> json list option" where
  "enc_floats [] = Some []"
| "enc_floats (x # xs) =
     (case (enc_float x, enc_floats xs) of (Some j, Some js) \<Rightarrow> Some (j # js) | _ \<Rightarrow> None)"

definition enc_hop :: "trace_hop \<Rightarrow> json option" where
  "enc_hop h = map_option (\<lambda>js. JObj [(''hop'', jint (th_hop h)), (''host'', JStr (th_host h)),
     (''ip'', JStr (th_ip h)), (''rtts_ms'', JArr js)]) (enc_floats (th_rtts h))"

fun enc_hops :: "trace_hop list \<Rightarrow> json list option" where
  "enc_hops [] = Some []"
| "enc_hops (h # hs) =
     (case (enc_hop h, enc_hops hs) of (Some j, Some js) \<Rightarrow> Some (j # js) | _ \<Rightarrow> None)"

definition enc_trace_result :: "trace_result \<Rightarrow> json option" where
  "enc_trace_result r = map_option (\<lambda>js. JObj ([(''host'', JStr (to_host r)), (''hops'', JArr js)]
     @ omit_empty ''raw_output'' (to_raw r))) (enc_hops (to_hops r))"

section \<open>Fields of a line\<close>

lemma fields_go_token:
  assumes "list_all graphic t"
  shows "fields_go cur (t @ s) = fields_go (cur @ t) s"
  using assms
proof (induction t arbitrary: cur)
  case (Cons a t)
  then have "strip_space (a # t @ s) = None"
    by (auto simp: strip_space_def graphic_no_space split: list.split)
  with Cons show ?case by (simp add: fields_go.simps [of cur "a # t @ s"])
qed simp

lemma fields_go_blank:
  "fields_go cur (CHR '' '' # s) = (if cur = [] then [] else [cur]) @ fields_go [] s"
  by (simp add: fields_go.simps [of cur "CHR '' '' # s"] strip_space_def is_space1_def byte_def)

lemma fields_go_end: "fields_go cur [] = (if cur = [] then [] else [cur])"
  by (simp add: fields_go.simps)

definition token :: "string \<Rightarrow> bool" where
  "token t \<longleftrightarrow> t \<noteq> [] \<and> list_all graphic t"

text \<open>Tokens separated by blanks are the fields of a line.\<close>

lemma fields_tokens: "list_all token ts \<Longrightarrow> GoStrings.fields (join_with CHR '' '' ts) = ts"
  unfolding GoStrings.fields_def
proof (induction "CHR '' ''" ts rule: join_with.induct)
  case (2 w)
  then show ?case using fields_go_token [of w "[]" "[]"] by (simp add: token_def fields_go_end)
next
  case (3 w v ws)
  then show ?case using fields_go_token [of w "[]"] by (simp add: token_def fields_go_blank)
qed (simp add: fields_go_end)

lemma token_ends: "token t \<Longrightarrow> graphic (hd t) \<and> graphic (last t)"
  by (auto simp: token_def list_all_iff)

lemma join_tokens_ends:
  "list_all token ts \<Longrightarrow> ts \<noteq> [] \<Longrightarrow> join_with CHR '' '' ts \<noteq> [] \<and>
     hd (join_with CHR '' '' ts) = hd (hd ts) \<and> last (join_with CHR '' '' ts) = last (last ts)"
  by (induction "CHR '' ''" ts rule: join_with.induct) (auto simp: token_def)

lemma trim_tokens: "list_all token ts \<Longrightarrow> ts \<noteq> [] \<Longrightarrow> trim_space (join_with CHR '' '' ts) = join_with CHR '' '' ts"
  using join_tokens_ends [of ts] token_ends [of "hd ts"] token_ends [of "last ts"]
  by (intro trim_space_graphic) (auto simp: list_all_iff)

section \<open>What ping prints\<close>

lemma replace_all_Nil [simp]: "replace_all old new [] = []"
  by (simp add: replace_all.simps)

lemma replace_all_skip:
  "old \<noteq> [] \<Longrightarrow> hd old \<notin> set p \<Longrightarrow> replace_all old new (p @ s) = p @ replace_all old new s"
proof (induction p)
  case (Cons x p)
  have "\<not> prefix old (x # p @ s)" using Cons.prems by (cases old) auto
  then show ?case using Cons by (simp add: replace_all.simps [of old new "x # p @ s"])
qed simp

lemma replace_all_hit:
  "old \<noteq> [] \<Longrightarrow> replace_all old new (old @ s) = new @ replace_all old new s"
proof (cases old)
  case (Cons a l)
  then show ?thesis using replace_all.simps [of "a # l" new "a # l @ s"] by simp
qed simp

lemma trim_space_blank: "trim_space (CHR '' '' # s) = trim_space s"
  by (simp add: trim_space_def trim_left.simps [of "CHR '' '' # s"] strip_space_def is_space1_def byte_def)

lemma trim_space_blank_end:
  assumes "s \<noteq> []" "graphic (hd s)" "graphic (last s)"
  shows "trim_space (s @ '' '') = s"
proof -
  have "strip_space (s @ '' '') = None"
    using assms(1,2) by (cases s) (auto simp: strip_space_def graphic_no_space split: list.split)
  moreover have "rstrip_space (rev s) = None"
    using assms(1,3) by (cases s rule: rev_cases) (auto simp: rstrip_space_def graphic_no_space split: list.split)
  ultimately show ?thesis
    by (simp add: trim_space_def trim_left_done trim_rev.simps [of "CHR '' '' # rev s"] rstrip_space_def
        is_space1_def byte_def trim_rev_done)
qed

lemma digits_graphic: "list_all graphic (nat_digits n)"
  using nat_digits_digit by (fastforce simp: list_all_iff graphic_def is_digit_def in_range_def)

lemma digits_ends: "graphic (hd (nat_digits n))" "graphic (last (nat_digits n))"
  using digits_graphic [of n] by (auto simp: list_all_iff)

lemma digits_without: "\<not> is_digit c \<Longrightarrow> c \<notin> set (nat_digits n)"
  using nat_digits_digit by blast

lemma not_digits [simp]:
  "\<not> is_digit CHR '',''" "\<not> is_digit CHR ''p''" "\<not> is_digit CHR ''r''" "\<not> is_digit CHR ''%''"
  "\<not> is_digit CHR ''/''" "\<not> is_digit CHR ''=''" "\<not> is_digit CHR '' ''" "\<not> is_digit newline"
  by (simp_all add: is_digit_def in_range_def byte_def newline_def)

lemma atoi_digits: "n < 2 ^ 63 \<Longrightarrow> atoi (nat_digits n) = int n"
  using parse_int64_itoa [of "int n"] by (simp add: atoi_def itoa_def)

text \<open>The totals line of iputils ping. \<open>extras\<close> are the counts it adds before the loss when there
  were duplicate or corrupted packets or ICMP errors; the loss \<open>l\<close> is a number as \<open>%g\<close> prints it.\<close>

fun ping_extra :: "nat \<times> string \<Rightarrow> string" where
  "ping_extra (k, word) = ''+'' @ nat_digits k @ '' '' @ word @ '', ''"

definition ping_summary :: "nat \<Rightarrow> nat \<Rightarrow> (nat \<times> string) list \<Rightarrow> string \<Rightarrow> nat \<Rightarrow> string" where
  "ping_summary n m extras l t =
     nat_digits n @ '' packets transmitted, '' @ nat_digits m @ '' received, '' @ concat (map ping_extra extras) @
     l @ ''% packet loss, time '' @ nat_digits t @ ''ms''"

definition extra_words :: "string list" where
  "extra_words = [''duplicates'', ''corrupted'', ''errors'']"

definition number_text :: "string \<Rightarrow> bool" where
  "number_text s \<longleftrightarrow> s \<noteq> [] \<and> list_all (\<lambda>c. is_digit c \<or> c \<in> set ''.e+-'') s"

lemma number_text_without: "number_text s \<Longrightarrow> \<not> is_digit c \<Longrightarrow> c \<notin> set ''.e+-'' \<Longrightarrow> c \<notin> set s"
  by (auto simp: number_text_def list_all_iff)

lemma number_text_graphic:
  assumes "number_text s"
  shows "s \<noteq> []" "graphic (hd s)" "graphic (last s)"
proof -
  have "\<forall>c\<in>set s. graphic c"
    using assms by (auto simp: number_text_def list_all_iff graphic_def is_digit_def in_range_def byte_def)
  then show "s \<noteq> []" "graphic (hd s)" "graphic (last s)"
    using assms by (auto simp: number_text_def)
qed

lemma summary_trimmed: "trim_space (ping_summary n m extras l t) = ping_summary n m extras l t"
  using digits_ends(1) [of n]
  by (intro trim_space_graphic) (auto simp: ping_summary_def graphic_def in_range_def byte_def)

lemma summary_contains: "contains (ping_summary n m extras l t) ''packets transmitted''"
proof -
  have "ping_summary n m extras l t = (nat_digits n @ '' '') @ ''packets transmitted'' @ ('', '' @ nat_digits m @
      '' received, '' @ concat (map ping_extra extras) @ l @ ''% packet loss, time '' @ nat_digits t @ ''ms'')"
    by (simp add: ping_summary_def)
  then show ?thesis by (metis contains_infix)
qed

lemma split_on_two: "c \<notin> set a \<Longrightarrow> c \<notin> set b \<Longrightarrow> split_on c (a @ c # b @ c # r) = a # b # split_on c r"
  by (simp add: split_on_append)

lemma split_summary:
  "split_on CHR '','' (ping_summary n m extras l t) =
     (nat_digits n @ '' packets transmitted'') # (CHR '' '' # nat_digits m @ '' received'') #
     split_on CHR '','' (CHR '' '' # concat (map ping_extra extras) @ l @ ''% packet loss, time '' @ nat_digits t @ ''ms'')"
proof -
  have e: "ping_summary n m extras l t = (nat_digits n @ '' packets transmitted'') @ CHR '','' #
      (CHR '' '' # nat_digits m @ '' received'') @ CHR '','' #
      CHR '' '' # concat (map ping_extra extras) @ l @ ''% packet loss, time '' @ nat_digits t @ ''ms''"
    by (simp add: ping_summary_def)
  show ?thesis unfolding e by (rule split_on_two) (simp_all add: digits_without)
qed

lemma sent_part: "trim_space (replace_all ''packets transmitted'' [] (nat_digits n @ '' packets transmitted'')) = nat_digits n"
proof -
  have "replace_all ''packets transmitted'' [] ((nat_digits n @ '' '') @ ''packets transmitted'' @ []) = nat_digits n @ '' ''"
    using replace_all_hit [of "''packets transmitted''" "[]" "[]"]
    by (subst replace_all_skip) (simp_all add: digits_without)
  then show ?thesis using trim_space_blank_end [OF _ digits_ends [of n]] by simp
qed

lemma received_part: "trim_space (replace_all ''received'' [] (CHR '' '' # nat_digits n @ '' received'')) = nat_digits n"
proof -
  have "replace_all ''received'' [] ((CHR '' '' # nat_digits n @ '' '') @ ''received'' @ []) = CHR '' '' # nat_digits n @ '' ''"
    using replace_all_hit [of "''received''" "[]" "[]"]
    by (subst replace_all_skip) (simp_all add: digits_without)
  then show ?thesis using trim_space_blank_end [OF _ digits_ends [of n]] by (simp add: trim_space_blank)
qed

text \<open>The third field is the loss only when there are no extra counts; one of these reads as 0.\<close>

lemma loss_part:
  assumes "number_text l"
  shows "replace_all ''%'' [] (trim_space (replace_all ''packet loss'' [] (CHR '' '' # l @ ''% packet loss''))) = l"
proof -
  have no: "CHR ''p'' \<notin> set l" "CHR ''%'' \<notin> set l" using assms by (simp_all add: number_text_without)
  have "replace_all ''packet loss'' [] ((CHR '' '' # l @ ''% '') @ ''packet loss'' @ []) = CHR '' '' # l @ ''% ''"
    using replace_all_hit [of "''packet loss''" "[]" "[]"] no
    by (subst replace_all_skip) simp_all
  moreover have "trim_space ((l @ ''%'') @ '' '') = l @ ''%''"
    using number_text_graphic [OF assms] by (intro trim_space_blank_end) (auto simp: graphic_def in_range_def byte_def)
  moreover have "replace_all ''%'' [] (l @ ''%'' @ []) = l"
    using replace_all_hit [of "''%''" "[]" "[]"] no by (subst replace_all_skip) simp_all
  ultimately show ?thesis by (simp add: trim_space_blank)
qed

lemma float_of_extra:
  assumes "list_all (in_range 97 122) w"
  shows "parse_float (''+'' @ nat_digits k @ '' '' @ w) = (Fin 0, False)"
proof -
  define b where "b = nat_digits k @ '' '' @ w"
  obtain c cs where ds: "nat_digits k = c # cs" by (cases "nat_digits k") auto
  have d: "list_all is_digit (c # cs)" using nat_digits_all [of k] ds by simp
  have sign: "float_sign (''+'' @ b) = (True, False, b)" by (simp add: float_sign_def)
  have "fold_case b = b" unfolding b_def
    using nat_digits_all [of k] assms
    by (intro fold_case_lower) (auto simp: list_all_iff is_digit_def in_range_def byte_def)
  then have words: "\<not> equal_fold b ''inf''" "\<not> equal_fold b ''infinity''"
    using digit_hd_not [of c] d ds
    by (auto simp: b_def equal_fold_def fold_case_ident lower_ident_def in_range_def byte_def)
  have hex: "(2 < length b \<and> hd b = CHR ''0'' \<and> low_bit (hd (tl b)) = 120) = False"
    using d ds by (cases cs) (auto simp: b_def low_bit_def is_digit_def in_range_def byte_def)
  have m: "scan_mantissa False \<lparr>mt_value = 0, mt_frac = 0, mt_dot = False, mt_digits = False\<rparr> b =
      (\<lparr>mt_value = k, mt_frac = 0, mt_dot = False, mt_digits = True\<rparr>, '' '' @ w)"
    using scan_mantissa_digits [OF nat_digits_all [of k], of _ "'' '' @ w"] nat_digits_value [of k]
    by (simp add: b_def digit_val_def)
  have "parse_float (''+'' @ b) = (Fin 0, False)"
    unfolding parse_float_def sign Let_def prod.case hex if_False m words by (simp add: words read_exponent_def low_bit_def in_range_def byte_def)
  then show ?thesis by (simp add: b_def)
qed

lemma extra_part:
  assumes "w \<in> set extra_words"
  shows "float_of (replace_all ''%'' [] (trim_space (replace_all ''packet loss'' [] (CHR '' '' # ''+'' @ nat_digits k @ '' '' @ w)))) = Fin 0"
proof -
  let ?e = "''+'' @ nat_digits k @ '' '' @ w"
  have letters: "list_all (in_range 97 122) w" using assms by (auto simp: extra_words_def in_range_def byte_def)
  have ends: "w \<noteq> []" "graphic (last w)" "CHR ''%'' \<notin> set w"
    using assms by (auto simp: extra_words_def graphic_def in_range_def byte_def)
  have "replace_all ''packet loss'' [] (CHR '' '' # ?e) = CHR '' '' # ?e"
  proof -
    have head: "replace_all ''packet loss'' [] ((CHR '' '' # ''+'' @ nat_digits k @ '' '') @ w) =
        (CHR '' '' # ''+'' @ nat_digits k @ '' '') @ replace_all ''packet loss'' [] w"
      by (rule replace_all_skip) (simp_all add: digits_without)
    have "\<forall>w\<in>set extra_words. replace_all ''packet loss'' [] w = w" by code_simp
    with assms have "replace_all ''packet loss'' [] w = w" by blast
    then show ?thesis using head by simp
  qed
  moreover have "trim_space ?e = ?e"
    using ends by (intro trim_space_graphic) (auto simp: graphic_def in_range_def byte_def)
  moreover have "replace_all ''%'' [] (?e @ []) = ?e"
    using ends by (subst replace_all_skip) (simp_all add: digits_without)
  ultimately show ?thesis using float_of_extra [OF letters, of k] by (simp add: trim_space_blank float_of_def)
qed

lemma totals_summary:
  assumes "n < 2 ^ 63" "m < 2 ^ 63" "number_text l" "\<forall>(k, w)\<in>set extras. w \<in> set extra_words"
  shows "ping_totals r (ping_summary n m extras l t) =
     r\<lparr>po_sent := int n, po_received := int m, po_loss := if extras = [] then float_of l else Fin 0\<rparr>"
proof -
  let ?f = "case extras of [] \<Rightarrow> l @ ''% packet loss'' | (k, w) # es \<Rightarrow> ''+'' @ nat_digits k @ '' '' @ w"
  have no: "CHR '','' \<notin> set l" using assms(3) by (simp add: number_text_without)
  have words: "CHR '','' \<notin> set w" if "w \<in> set extra_words" for w using that by (auto simp: extra_words_def)
  have "\<exists>ws. split_on CHR '','' (CHR '' '' # concat (map ping_extra extras) @ l @ ''% packet loss, time '' @ nat_digits t @ ''ms'') =
      (CHR '' '' # ?f) # ws"
  proof (cases extras)
    case Nil
    have "split_on CHR '','' ((CHR '' '' # l @ ''% packet loss'') @ CHR '','' # '' time '' @ nat_digits t @ ''ms'') =
        (CHR '' '' # l @ ''% packet loss'') # split_on CHR '','' ('' time '' @ nat_digits t @ ''ms'')"
      by (rule split_on_append) (simp add: no)
    then show ?thesis by (simp add: Nil)
  next
    case (Cons e es)
    obtain k w where e: "e = (k, w)" by (cases e)
    define rest where "rest = CHR '' '' # concat (map ping_extra es) @ l @ ''% packet loss, time '' @ nat_digits t @ ''ms''"
    have "split_on CHR '','' ((CHR '' '' # ''+'' @ nat_digits k @ '' '' @ w) @ CHR '','' # rest) =
        (CHR '' '' # ''+'' @ nat_digits k @ '' '' @ w) # split_on CHR '','' rest"
      by (rule split_on_append) (use assms(4) words [of w] in \<open>simp add: Cons e digits_without\<close>)
    then show ?thesis by (simp add: Cons e rest_def)
  qed
  then obtain ws where p: "split_on CHR '','' (ping_summary n m extras l t) = (nat_digits n @ '' packets transmitted'') #
      (CHR '' '' # nat_digits m @ '' received'') # (CHR '' '' # ?f) # ws"
    unfolding split_summary by blast
  have "float_of (replace_all ''%'' [] (trim_space (replace_all ''packet loss'' [] (CHR '' '' # ?f)))) =
      (if extras = [] then float_of l else Fin 0)"
    using loss_part [OF assms(3)] extra_part assms(4) by (cases extras) auto
  then show ?thesis
    by (simp add: ping_totals_def p sent_part received_part atoi_digits [OF assms(1)] atoi_digits [OF assms(2)])
qed

text \<open>The line with the times, which ping prints when there was an answer; it ends with the number of
  packets that were under way at once when that is more than one.\<close>

record rtt_line =
  rl_min :: string
  rl_avg :: string
  rl_max :: string
  rl_mdev :: string
  rl_pipe :: "nat option"

definition rtt_line_ok :: "rtt_line \<Rightarrow> bool" where
  "rtt_line_ok x \<longleftrightarrow> number_text (rl_min x) \<and> number_text (rl_avg x) \<and> number_text (rl_max x) \<and> number_text (rl_mdev x)"

definition pipe_text :: "nat option \<Rightarrow> string" where
  "pipe_text p = (case p of None \<Rightarrow> [] | Some k \<Rightarrow> '', pipe '' @ nat_digits k)"

definition ping_rtts :: "rtt_line \<Rightarrow> string" where
  "ping_rtts x = ''rtt min/avg/max/mdev = '' @ rl_min x @ CHR ''/'' # rl_avg x @ CHR ''/'' # rl_max x @
     CHR ''/'' # rl_mdev x @ '' ms'' @ pipe_text (rl_pipe x)"

lemma not_digit_k [simp]: "\<not> is_digit CHR ''k''"
  by (simp add: is_digit_def in_range_def byte_def)

lemma rtt_line_without:
  "rtt_line_ok x \<Longrightarrow> \<not> is_digit c \<Longrightarrow> c \<notin> set ''.e+-'' \<Longrightarrow>
   c \<notin> set (rl_min x) \<and> c \<notin> set (rl_avg x) \<and> c \<notin> set (rl_max x) \<and> c \<notin> set (rl_mdev x)"
  unfolding rtt_line_ok_def using number_text_without by blast

lemma pipe_text_without: "\<not> is_digit c \<Longrightarrow> c \<notin> set '', pipe '' \<Longrightarrow> c \<notin> set (pipe_text p)"
  by (cases p) (simp_all add: pipe_text_def digits_without)

lemma pipe_text_end: "graphic (last (s @ '' ms'' @ pipe_text p))"
  using digits_ends(2) by (cases p) (auto simp: pipe_text_def graphic_def in_range_def byte_def)

lemma times_rtts:
  assumes "rtt_line_ok x"
  shows "ping_times r (ping_rtts x) =
     r\<lparr>po_min := float_of (rl_min x), po_avg := float_of (rl_avg x), po_max := float_of (rl_max x)\<rparr>"
proof -
  note no = rtt_line_without [OF assms]
  define body where "body = rl_min x @ CHR ''/'' # rl_avg x @ CHR ''/'' # rl_max x @ CHR ''/'' # rl_mdev x"
  define tail where "tail = '' ms'' @ pipe_text (rl_pipe x)"
  have e: "ping_rtts x = ''rtt min/avg/max/mdev '' @ CHR ''='' # CHR '' '' # body @ tail"
    by (simp add: ping_rtts_def body_def tail_def)
  have "split_on CHR ''='' (ping_rtts x) = [''rtt min/avg/max/mdev '', CHR '' '' # body @ tail]"
    unfolding e by (subst split_on_append) (simp_all add: split_on_absent body_def tail_def no pipe_text_without)
  moreover have "graphic (hd (body @ tail))"
    using number_text_graphic [of "rl_min x"] assms by (simp add: rtt_line_ok_def body_def hd_append)
  then have "trim_space (CHR '' '' # body @ tail) = body @ tail"
    using pipe_text_end [of body] by (simp add: trim_space_blank trim_space_graphic tail_def)
  moreover have "replace_all '' ms'' [] (body @ tail) = body @ replace_all '' ms'' [] tail"
    by (rule replace_all_skip) (simp_all add: body_def no)
  moreover have "split_on CHR ''/'' (body @ rest) =
      rl_min x # rl_avg x # rl_max x # split_on CHR ''/'' (rl_mdev x @ rest)" for rest
    by (simp add: body_def split_on_append no)
  ultimately show ?thesis by (simp add: ping_times_def)
qed

lemma line_rtts:
  assumes "rtt_line_ok x"
  shows "ping_line (ping_rtts x) r =
     r\<lparr>po_min := float_of (rl_min x), po_avg := float_of (rl_avg x), po_max := float_of (rl_max x)\<rparr>"
proof -
  have "graphic (last (ping_rtts x))"
    using pipe_text_end [of "''rtt min/avg/max/mdev = '' @ rl_min x @ CHR ''/'' # rl_avg x @ CHR ''/'' # rl_max x @
     CHR ''/'' # rl_mdev x" "rl_pipe x"] by (simp add: ping_rtts_def)
  then have t: "trim_space (ping_rtts x) = ping_rtts x"
    by (intro trim_space_graphic) (auto simp: ping_rtts_def graphic_def in_range_def byte_def)
  have "CHR ''k'' \<notin> set (ping_rtts x)"
    using rtt_line_without [OF assms, of "CHR ''k''"] by (simp add: ping_rtts_def pipe_text_without)
  then have "\<not> contains (ping_rtts x) ''packets transmitted''" by (auto simp: contains_iff)
  moreover have "has_prefix (ping_rtts x) ''rtt min/avg/max/mdev''"
    by (simp add: ping_rtts_def has_prefix_def)
  ultimately show ?thesis using times_rtts [OF assms] by (simp add: ping_line_def t)
qed

lemma line_summary: "ping_line (ping_summary n m extras l t) r = ping_totals r (ping_summary n m extras l t)"
  by (simp add: ping_line_def summary_trimmed summary_contains)

text \<open>A line that is neither.\<close>

definition other_line :: "string \<Rightarrow> bool" where
  "other_line l \<longleftrightarrow> newline \<notin> set l \<and> \<not> contains (trim_space l) ''packets transmitted'' \<and>
     \<not> has_prefix (trim_space l) ''rtt min/avg/max/mdev'' \<and>
     \<not> has_prefix (trim_space l) ''round-trip min/avg/max/stddev''"

lemma other_lines: "list_all other_line ls \<Longrightarrow> fold ping_line ls r = r"
  by (induction ls) (simp_all add: ping_line_def other_line_def Let_def)

lemma out_lines_join: "ls \<noteq> [] \<Longrightarrow> list_all (\<lambda>l. newline \<notin> set l) ls \<Longrightarrow> out_lines (join_with newline ls) = ls"
  unfolding out_lines_def by (rule split_join) (simp_all add: list_all_iff)

lemma newline_not: "newline \<notin> set ''.e+-''" "newline \<notin> set '', pipe ''" "newline \<noteq> CHR '' ''" "newline \<noteq> CHR ''/''"
  by (simp_all add: newline_def)

lemma summary_one_line:
  assumes "number_text l" "\<forall>(k, w)\<in>set extras. w \<in> set extra_words"
  shows "newline \<notin> set (ping_summary n m extras l t)"
proof -
  have "newline \<notin> set l" using assms(1) newline_not(1) by (simp add: number_text_without)
  moreover have "newline \<notin> set (ping_extra e)" if "e \<in> set extras" for e
  proof -
    obtain k w where e: "e = (k, w)" by (cases e)
    then have "w \<in> set extra_words" using that assms(2) by auto
    then have "newline \<notin> set w" by (auto simp: extra_words_def newline_def)
    then show ?thesis by (simp add: e digits_without) (simp add: newline_def)
  qed
  ultimately show ?thesis by (simp add: ping_summary_def digits_without) (simp add: newline_def)
qed

lemma rtts_one_line: "rtt_line_ok x \<Longrightarrow> newline \<notin> set (ping_rtts x)"
  using rtt_line_without [of x newline] newline_not
  by (simp add: ping_rtts_def pipe_text_without) (simp add: newline_def)

text \<open>C35: What ping reports is what the satellite answers, but for the loss when ping counted duplicate
  or corrupted packets or ICMP errors. For every output with a totals line of the tool, with or
  without a line of times, and any lines around them that are neither, the parsed result has the
  packets sent and received, the least, mean and greatest time, or 0 without such a line, and the
  loss that was printed; but when the totals line has one of the extra counts, which stand before
  the loss, the reported loss is 0, however much there was.\<close>

theorem ping_output_parsed:
  assumes "0 < n" "n < 2 ^ 63" "m < 2 ^ 63" "number_text l" "\<forall>(k, w)\<in>set extras. w \<in> set extra_words"
    and "\<forall>x\<in>set_option stats. rtt_line_ok x" "list_all other_line (pre @ mid @ post)"
    and "output = join_with newline (pre @ [ping_summary n m extras l t] @ mid @
      (case stats of None \<Rightarrow> [] | Some x \<Rightarrow> [ping_rtts x]) @ post)"
  shows "parse_ping_output host output = Inr \<lparr>po_host = host, po_sent = int n, po_received = int m,
     po_loss = (if extras = [] then float_of l else Fin 0),
     po_min = (case stats of None \<Rightarrow> Fin 0 | Some x \<Rightarrow> float_of (rl_min x)),
     po_avg = (case stats of None \<Rightarrow> Fin 0 | Some x \<Rightarrow> float_of (rl_avg x)),
     po_max = (case stats of None \<Rightarrow> Fin 0 | Some x \<Rightarrow> float_of (rl_max x)), po_raw = output\<rparr>"
proof -
  let ?rtts = "case stats of None \<Rightarrow> [] | Some x \<Rightarrow> [ping_rtts x]"
  have "out_lines output = pre @ [ping_summary n m extras l t] @ mid @ ?rtts @ post"
    using assms(6,7) summary_one_line [OF assms(4,5)] rtts_one_line
    unfolding assms(8) by (intro out_lines_join) (auto simp: list_all_iff other_line_def split: option.split)
  then show ?thesis
    using assms(1,6,7) other_lines
    by (cases stats) (simp_all add: parse_ping_output_def line_summary totals_summary [OF assms(2-5)] line_rtts)
qed

theorem ping_output_parsed_witness:
  "\<exists>raw. parse_ping_output ''h'' (join_with newline [''PING h'', ping_summary 3 2 [] ''33.3333'' 2003,
      ping_rtts \<lparr>rl_min = ''0.031'', rl_avg = ''0.045'', rl_max = ''0.061'', rl_mdev = ''0.012'', rl_pipe = Some 2\<rparr>, []]) =
     Inr \<lparr>po_host = ''h'', po_sent = 3, po_received = 2, po_loss = float_of ''33.3333'', po_min = float_of ''0.031'',
       po_avg = float_of ''0.045'', po_max = float_of ''0.061'', po_raw = raw\<rparr> \<and>
   (\<exists>raw. parse_ping_output ''h'' (join_with newline [ping_summary 5 0 [(3, ''errors'')] ''100'' 4080]) =
     Inr \<lparr>po_host = ''h'', po_sent = 5, po_received = 0, po_loss = Fin 0, po_min = Fin 0,
       po_avg = Fin 0, po_max = Fin 0, po_raw = raw\<rparr>)"
proof -
  define x where "x = \<lparr>rl_min = ''0.031'', rl_avg = ''0.045'', rl_max = ''0.061'', rl_mdev = ''0.012'', rl_pipe = Some 2\<rparr>"
  have x: "\<forall>y\<in>set_option (Some x). rtt_line_ok y" unfolding x_def by code_simp
  have n: "number_text ''33.3333''" "number_text ''100''" by code_simp+
  have o: "list_all other_line ([''PING h''] @ [] @ [[]])" "list_all other_line ([] @ [] @ [])" by code_simp+
  have w: "\<forall>(k, w)\<in>set ([] :: (nat \<times> string) list). w \<in> set extra_words" "\<forall>(k, w)\<in>set [(3::nat, ''errors'')]. w \<in> set extra_words"
    by (simp_all add: extra_words_def)
  have none: "\<forall>y\<in>set_option None. rtt_line_ok y" by simp
  have out: "join_with newline [''PING h'', ping_summary 3 2 [] ''33.3333'' 2003, ping_rtts x, []] =
      join_with newline ([''PING h''] @ [ping_summary 3 2 [] ''33.3333'' 2003] @ [] @
        (case Some x of None \<Rightarrow> [] | Some x \<Rightarrow> [ping_rtts x]) @ [[]])"
    "join_with newline [ping_summary 5 0 [(3, ''errors'')] ''100'' 4080] =
      join_with newline ([] @ [ping_summary 5 0 [(3, ''errors'')] ''100'' 4080] @ [] @
        (case None of None \<Rightarrow> [] | Some x \<Rightarrow> [ping_rtts x]) @ [])"
    by simp_all
  have "rl_min x = ''0.031''" "rl_avg x = ''0.045''" "rl_max x = ''0.061''" by (simp_all add: x_def)
  then show ?thesis
    using ping_output_parsed [OF _ _ _ n(1) w(1) x o(1) out(1), of "''h''"]
      ping_output_parsed [OF _ _ _ n(2) w(2) none o(2) out(2), of "''h''"]
    unfolding x_def [symmetric] by force
qed

section \<open>What snmpwalk prints\<close>

definition snmp_text :: "snmp_entry \<Rightarrow> string" where
  "snmp_text e = se_oid e @ '' = '' @ se_type e @ '': '' @ se_value e"

definition snmp_printable :: "snmp_entry \<Rightarrow> bool" where
  "snmp_printable e \<longleftrightarrow> token (se_oid e) \<and> CHR ''='' \<notin> set (se_oid e) \<and>
     token (se_type e) \<and> CHR '':'' \<notin> set (se_type e) \<and>
     se_value e \<noteq> [] \<and> graphic (hd (se_value e)) \<and> graphic (last (se_value e)) \<and> newline \<notin> set (se_value e)"

lemma token_trim: "token t \<Longrightarrow> trim_space t = t"
  using token_ends [of t] by (intro trim_space_graphic) (auto simp: token_def)

lemma token_trim_end: "token t \<Longrightarrow> trim_space (t @ '' '') = t"
  using token_ends [of t] by (intro trim_space_blank_end) (auto simp: token_def)

lemma token_newline: "token t \<Longrightarrow> newline \<notin> set t"
  by (auto simp: token_def list_all_iff graphic_def in_range_def byte_def newline_def)

lemma split2_at: "c \<notin> set a \<Longrightarrow> split2 c (a @ c # b) = [a, b]"
  by (induction a) (auto simp: split2_def)

lemma snmp_entry_text:
  assumes "snmp_printable e"
  shows "snmp_entry_of (snmp_text e) = Some e" "newline \<notin> set (snmp_text e)"
proof -
  let ?v = "se_type e @ CHR '':'' # CHR '' '' # se_value e"
  note h = assms [unfolded snmp_printable_def]
  have t: "trim_space (snmp_text e) = snmp_text e"
    using h token_ends [of "se_oid e"]
    by (intro trim_space_graphic) (auto simp: snmp_text_def token_def)
  have e: "snmp_text e = (se_oid e @ '' '') @ CHR ''='' # CHR '' '' # ?v" by (simp add: snmp_text_def)
  have "split2 CHR ''='' (snmp_text e) = [se_oid e @ '' '', CHR '' '' # ?v]"
    unfolding e by (rule split2_at) (use h in simp)
  moreover have "trim_space (CHR '' '' # ?v) = ?v"
    using h token_ends [of "se_type e"]
    by (simp add: trim_space_blank) (intro trim_space_graphic, auto simp: token_def)
  moreover have "split2 CHR '':'' ?v = [se_type e, CHR '' '' # se_value e]"
    by (rule split2_at) (use h in simp)
  moreover have "trim_space (CHR '' '' # se_value e) = se_value e"
    using h by (simp add: trim_space_blank trim_space_graphic)
  moreover have "snmp_text e \<noteq> []" by (simp add: snmp_text_def)
  ultimately show "snmp_entry_of (snmp_text e) = Some e"
    using h by (simp add: snmp_entry_of_def t token_trim token_trim_end)
  show "newline \<notin> set (snmp_text e)"
    using h token_newline [of "se_oid e"] token_newline [of "se_type e"]
    by (simp add: snmp_text_def) (simp add: newline_def)
qed

lemma map_filter_all:
  "(\<And>x. x \<in> set xs \<Longrightarrow> f (g x) = Some (h x)) \<Longrightarrow> List.map_filter f (map g xs) = map h xs"
  by (induction xs) (simp_all add: List.map_filter_simps)

text \<open>C37: The entries snmpwalk prints are the entries the satellite answers: printing any entries in
  the tool's format, one a line, and parsing the output gives back the same identifiers, types
  and values in order, also for values that contain equals signs and colons.\<close>

theorem snmp_output_roundtrip:
  assumes "list_all snmp_printable es" "es \<noteq> []"
  shows "so_entries (parse_snmp_output target req_oid (join_with newline (map snmp_text es))) = es"
proof -
  have "out_lines (join_with newline (map snmp_text es)) = map snmp_text es"
    using assms snmp_entry_text(2) by (intro out_lines_join) (auto simp: list_all_iff)
  moreover have "List.map_filter snmp_entry_of (map snmp_text es) = map (\<lambda>e. e) es"
    using assms(1) snmp_entry_text(1) by (intro map_filter_all) (auto simp: list_all_iff)
  ultimately show ?thesis by (simp add: parse_snmp_output_def)
qed

theorem snmp_output_roundtrip_witness:
  "so_entries (parse_snmp_output ''r'' ''.1'' (join_with newline (map snmp_text
     [\<lparr>se_oid = ''.1.3.6'', se_type = ''STRING'', se_value = ''a = b: c''\<rparr>]))) =
     [\<lparr>se_oid = ''.1.3.6'', se_type = ''STRING'', se_value = ''a = b: c''\<rparr>]"
  by (rule snmp_output_roundtrip)
    (auto simp: snmp_printable_def token_def graphic_def in_range_def byte_def newline_def)

section \<open>What traceroute prints\<close>

text \<open>A hop of the tool's output: its number and its probes. A lost probe is a star. An answered one has
  its time, before it the name and address of the router when they differ from those of the probe
  before, and after it a mark such as \<open>!H\<close> when the router reported an error.\<close>

datatype probe = Lost | Answered "(string \<times> string) option" string "string option"

datatype hop = Hop nat "probe list"

fun print_probe :: "probe \<Rightarrow> string" where
  "print_probe Lost = '' *''"
| "print_probe (Answered router time mark) =
     (case router of None \<Rightarrow> [] | Some (name, ip) \<Rightarrow> '' '' @ name @ '' ('' @ ip @ '')'') @
     ''  '' @ time @ '' ms'' @ (case mark of None \<Rightarrow> [] | Some e \<Rightarrow> '' '' @ e)"

fun print_hop :: "hop \<Rightarrow> string" where
  "print_hop (Hop n probes) =
     (if n < 10 then '' '' else []) @ nat_digits n @ '' '' @ concat (map print_probe probes)"

text \<open>What the satellite makes of it. The first probe decides: when it was lost the hop counts as
  silent, whatever the others did, and otherwise its router gets all times of the hop.\<close>

fun probe_times :: "probe \<Rightarrow> string list" where
  "probe_times Lost = []"
| "probe_times (Answered router time mark) = [time]"

fun read_hop :: "hop \<Rightarrow> trace_hop" where
  "read_hop (Hop n probes) =
     (case probes of
        Answered (Some (name, ip)) time mark # _ \<Rightarrow> \<lparr>th_hop = int n, th_host = name, th_ip = ip,
          th_rtts = map float_of (concat (map probe_times probes))\<rparr>
      | _ \<Rightarrow> \<lparr>th_hop = int n, th_host = ''*'', th_ip = ''*'', th_rtts = []\<rparr>)"

text \<open>Printable hops: names, addresses and marks are words, a time is a number. The first answer of a
  hop names its router, and a mark is not a number.\<close>

fun probe_ok :: "probe \<Rightarrow> bool" where
  "probe_ok Lost \<longleftrightarrow> True"
| "probe_ok (Answered router time mark) \<longleftrightarrow> token time \<and> time \<noteq> ''*'' \<and> snd (parse_float time) \<and>
     (case router of None \<Rightarrow> True | Some (name, ip) \<Rightarrow> token name \<and> name \<noteq> ''*'' \<and> token ip \<and>
        CHR ''('' \<notin> set ip \<and> CHR '')'' \<notin> set ip) \<and>
     (case mark of None \<Rightarrow> True | Some e \<Rightarrow> token e \<and> \<not> snd (parse_float e))"

fun hop_ok :: "hop \<Rightarrow> bool" where
  "hop_ok (Hop n probes) \<longleftrightarrow> n < 2 ^ 63 \<and> probes \<noteq> [] \<and> list_all probe_ok probes \<and>
     (case hd probes of Lost \<Rightarrow> True | Answered router time mark \<Rightarrow> router \<noteq> None)"

subsection \<open>Words with blanks before them\<close>

fun spaced :: "(nat \<times> string) list \<Rightarrow> string" where
  "spaced [] = []"
| "spaced ((k, t) # ps) = replicate (Suc k) CHR '' '' @ t @ spaced ps"

lemma spaced_append: "spaced (ps @ qs) = spaced ps @ spaced qs"
  by (induction ps rule: spaced.induct) simp_all

lemma spaced_concat: "spaced (concat (map f xs)) = concat (map (\<lambda>x. spaced (f x)) xs)"
  by (induction xs) (simp_all add: spaced_append)

lemma fields_go_blanks: "fields_go [] (replicate k CHR '' '' @ s) = fields_go [] s"
  by (induction k) (simp_all add: fields_go_blank)

lemma fields_go_word:
  assumes "token t"
  shows "fields_go [] (t @ spaced ps) = t # fields_go [] (spaced ps)"
proof (cases ps)
  case Nil
  then show ?thesis using assms fields_go_token [of t "[]" "[]"] by (simp add: token_def fields_go_end)
next
  case (Cons p qs)
  obtain k u where p: "p = (k, u)" by (cases p)
  then show ?thesis
    using assms fields_go_token [of t "[]" "spaced ps"] Cons by (simp add: token_def fields_go_blank)
qed

lemma fields_spaced: "list_all (token \<circ> snd) ps \<Longrightarrow> fields_go [] (spaced ps) = map snd ps"
proof (induction ps rule: spaced.induct)
  case (2 k t ps)
  then show ?case
    using fields_go_blanks [of "Suc k" "t @ spaced ps"] by (simp add: fields_go_word del: replicate_Suc)
qed (simp add: fields_go_end)

lemma last_spaced: "list_all (token \<circ> snd) ps \<Longrightarrow> ps \<noteq> [] \<Longrightarrow> spaced ps \<noteq> [] \<and> graphic (last (spaced ps))"
proof (induction ps rule: spaced.induct)
  case (2 k t ps)
  then show ?case using token_ends [of t] by (cases "ps = []") (auto simp: token_def)
qed simp

lemma spaced_newline: "list_all (token \<circ> snd) ps \<Longrightarrow> newline \<notin> set (spaced ps)"
  by (induction ps rule: spaced.induct) (auto simp: token_newline, auto simp: newline_def)

lemma trim_space_blanks: "trim_space (replicate k CHR '' '' @ s) = trim_space s"
  by (induction k) (simp_all add: trim_space_blank)

subsection \<open>The words of a hop\<close>

fun probe_words :: "probe \<Rightarrow> (nat \<times> string) list" where
  "probe_words Lost = [(0, ''*'')]"
| "probe_words (Answered router time mark) =
     (case router of None \<Rightarrow> [] | Some (name, ip) \<Rightarrow> [(0, name), (0, ''('' @ ip @ '')'')]) @
     [(1, time), (0, ''ms'')] @ (case mark of None \<Rightarrow> [] | Some e \<Rightarrow> [(0, e)])"

lemma print_probe_words: "print_probe p = spaced (probe_words p)"
  by (cases p) (auto split: option.split)

lemma probe_words_ok: "probe_ok p \<Longrightarrow> list_all (token \<circ> snd) (probe_words p)"
  by (cases p) (auto simp: token_def graphic_def in_range_def byte_def split: option.splits)

lemma digits_token: "token (nat_digits n)"
  by (simp add: token_def digits_graphic)

lemma parse_digits: "n < 2 ^ 63 \<Longrightarrow> parse_int64 (nat_digits n) = NumOk (int n)"
  using parse_int64_itoa [of "int n"] by (simp add: itoa_def)

lemma trim_parens: "CHR ''('' \<notin> set ip \<Longrightarrow> CHR '')'' \<notin> set ip \<Longrightarrow> trim_chars ''()'' (''('' @ ip @ '')'') = ip"
proof -
  assume h: "CHR ''('' \<notin> set ip" "CHR '')'' \<notin> set ip"
  have d: "dropWhile (\<lambda>c. c = CHR ''('' \<or> c = CHR '')'') xs = xs" if "set xs \<subseteq> set ip" for xs
    using that h by (cases xs) auto
  have "dropWhile (\<lambda>c. c = CHR ''('' \<or> c = CHR '')'') (ip @ '')'') = (if ip = [] then [] else ip @ '')'')"
    using h by (cases ip) auto
  then show ?thesis using d [of "rev ip"] by (auto simp: trim_chars_def)
qed


lemma hop_rtts_skip:
  "t = ''*'' \<or> \<not> snd (parse_float t) \<or> ws = [] \<or> hd ws \<noteq> ''ms'' \<Longrightarrow> hop_rtts (t # ws) = hop_rtts ws"
  by (cases ws; cases "parse_float t"; cases "snd (parse_float t)") auto

lemma hop_rtts_take:
  "t \<noteq> ''*'' \<Longrightarrow> snd (parse_float t) \<Longrightarrow> hop_rtts (t # ''ms'' # ws) = float_of t # hop_rtts ws"
  by (cases "parse_float t") (auto simp: float_of_def)

lemma time_not_ms: "snd (parse_float t) \<Longrightarrow> t \<noteq> ''ms''"
proof -
  have "\<not> snd (parse_float ''ms'')" by code_simp
  then show "snd (parse_float t) \<Longrightarrow> t \<noteq> ''ms''" by blast
qed

lemma hop_rtts_probe:
  assumes "probe_ok p"
  shows "hop_rtts (map snd (probe_words p) @ ws) = map float_of (probe_times p) @ hop_rtts ws"
proof (cases p)
  case Lost
  then show ?thesis by (simp add: hop_rtts_skip del: hop_rtts.simps)
next
  case (Answered router time mark)
  have t: "time \<noteq> ''*''" "snd (parse_float time)" "time \<noteq> ''ms''"
    using assms time_not_ms by (auto simp: Answered)
  have "hop_rtts ((case mark of None \<Rightarrow> [] | Some e \<Rightarrow> [e]) @ ws) = hop_rtts ws"
    using assms by (auto simp: Answered hop_rtts_skip simp del: hop_rtts.simps split: option.split)
  then show ?thesis
    using t by (cases router; cases mark)
      (auto simp: Answered hop_rtts_skip hop_rtts_take simp del: hop_rtts.simps)
qed

lemma hop_rtts_probes:
  "list_all probe_ok ps \<Longrightarrow> hop_rtts (concat (map (map snd \<circ> probe_words) ps)) = map float_of (concat (map probe_times ps))"
  by (induction ps) (simp_all add: hop_rtts_probe)

text \<open>A printed hop is its number and its words, each with blanks before it.\<close>

lemma hop_line_words:
  assumes "hop_ok (Hop n probes)"
  obtains ws where "print_hop (Hop n probes) = (if n < 10 then '' '' else []) @ nat_digits n @ spaced ws"
    "map snd ws = concat (map (map snd \<circ> probe_words) probes)" "list_all (token \<circ> snd) ws" "ws \<noteq> []"
proof -
  let ?ws = "concat (map probe_words probes)"
  have ok: "list_all probe_ok probes" "probes \<noteq> []" using assms by simp_all
  have "list_all (token \<circ> snd) ?ws"
    using ok(1) by (induction probes) (simp_all add: probe_words_ok)
  moreover have "?ws \<noteq> []" using ok(2) by (cases probes; cases "hd probes") auto
  then obtain k t ws where ws: "?ws = (k, t) # ws" by (cases ?ws) auto
  moreover have "map print_probe probes = map (\<lambda>p. spaced (probe_words p)) probes"
    by (intro map_cong refl print_probe_words)
  then have "concat (map print_probe probes) = spaced ?ws" by (simp only: spaced_concat)
  moreover have "map snd ?ws = concat (map (map snd \<circ> probe_words) probes)"
    by (simp add: map_concat)
  ultimately show ?thesis using that [of "(Suc k, t) # ws"] by simp
qed

lemma trace_hop_text:
  assumes "hop_ok h"
  shows "trace_hop_of (print_hop h) = Some (read_hop h)" "newline \<notin> set (print_hop h)"
proof -
  obtain n probes where h: "h = Hop n probes" by (cases h)
  obtain ws where ws: "print_hop h = (if n < 10 then '' '' else []) @ nat_digits n @ spaced ws"
    "map snd ws = concat (map (map snd \<circ> probe_words) probes)" "list_all (token \<circ> snd) ws" "ws \<noteq> []"
    using hop_line_words assms unfolding h by blast
  define l where "l = nat_digits n @ spaced ws"
  have tl: "trim_space l = l"
    using digits_ends(1) [of n] last_spaced [OF ws(3,4)] by (intro trim_space_graphic) (simp_all add: l_def)
  then have t: "trim_space (print_hop h) = l"
    using trim_space_blanks [of 1 l] ws(1) tl by (simp add: l_def)
  have hl: "trace_hop_of (print_hop h) = trace_hop_of l" unfolding trace_hop_of_def t tl ..
  have "is_digit (hd l)" using nat_digits_digit [of _ n] by (simp add: l_def)
  moreover have "hd l = CHR ''t''" if "has_prefix l ''traceroute to''" using that by (auto simp: has_prefix_iff)
  moreover have "\<not> is_digit CHR ''t''" by (simp add: is_digit_def in_range_def byte_def)
  ultimately have p: "\<not> has_prefix l ''traceroute to''" "l \<noteq> []" by (auto simp: l_def)
  have f: "GoStrings.fields l = nat_digits n # concat (map (map snd \<circ> probe_words) probes)"
    unfolding GoStrings.fields_def l_def using fields_go_word [OF digits_token] fields_spaced [OF ws(3)] ws(2) by simp
  have ok: "n < 2 ^ 63" "list_all probe_ok probes" "probes \<noteq> []"
    "\<And>router time mark. hd probes = Answered router time mark \<Longrightarrow> router \<noteq> None"
    using assms by (auto simp: h)
  have par: "has_prefix (''('' @ ip @ '')'') ''(''" "has_suffix (''('' @ ip @ '')'') '')''" for ip
    by (simp_all add: has_prefix_def has_suffix_def)
  obtain q qs where qs: "probes = q # qs" using ok(3) by (cases probes) auto
  show "trace_hop_of (print_hop h) = Some (read_hop h)"
  proof (cases q)
    case Lost
    then show ?thesis using ok(1) unfolding hl by (simp add: trace_hop_of_def tl p f parse_digits h qs)
  next
    case (Answered router time mark)
    then obtain name ip where r: "router = Some (name, ip)" using ok(4) [of router time mark] qs by auto
    have i: "name \<noteq> ''*''" "trim_chars ''()'' (''('' @ ip @ '')'') = ip"
      using ok(2) trim_parens [of ip] by (auto simp: qs Answered r)
    have "hop_rtts (time # ''ms'' # (case mark of None \<Rightarrow> [] | Some e \<Rightarrow> [e]) @ concat (map (map snd \<circ> probe_words) qs)) =
        map float_of (concat (map probe_times probes))"
      using hop_rtts_probes [of "Answered None time mark # qs"] ok(2)
      by (cases mark) (simp_all add: qs Answered del: hop_rtts.simps)
    then show ?thesis
      unfolding hl using ok(1) i par [of ip]
      by (cases mark) (simp_all add: trace_hop_of_def tl p f parse_digits h qs Answered r del: hop_rtts.simps)
  qed
  show "newline \<notin> set (print_hop h)"
    using spaced_newline [OF ws(3)] unfolding ws(1) by (simp add: digits_without) (simp add: newline_def)
qed


text \<open>C36: The route that traceroute prints is read back, up to the first probe of each hop. For any
  header line and any sequence of hops in the tool's format (numbers padded to two columns, lost
  probes as stars in any place, several routers on one hop, error marks), with or without a final
  newline, parsing the output gives the hops in order with their numbers. A hop whose first probe
  was answered has that router's name and address and the times of all answered probes of the hop,
  also those of other routers; a hop whose first probe was lost is silent, even if later probes
  were answered.\<close>

theorem trace_output_parsed:
  assumes "list_all hop_ok hs" "rest \<noteq> []" "graphic (last rest)" "newline \<notin> set rest"
    and "output = join_with newline ((''traceroute to '' @ rest) # map print_hop hs) @ (if ended then [newline] else [])"
  shows "to_hops (parse_trace_output host output) = map read_hop hs"
proof -
  let ?lines = "(''traceroute to '' @ rest) # map print_hop hs" and ?closing = "if ended then [[]] else []"
  have "join_with newline ls @ [newline] = join_with newline (ls @ [[]])" if "ls \<noteq> []" for ls
    using that by (induction newline ls rule: join_with.induct) simp_all
  then have "output = join_with newline (?lines @ ?closing)" using assms(5) by (cases ended) simp_all
  moreover have "newline \<notin> set (''traceroute to '' @ rest)" using assms(4) by simp (simp add: newline_def)
  ultimately have "out_lines output = ?lines @ ?closing"
    using assms(1) trace_hop_text(2) by (simp only:) (intro out_lines_join, auto simp: list_all_iff)
  moreover have "trim_space (''traceroute to '' @ rest) = ''traceroute to '' @ rest"
    using assms(2,3) by (intro trim_space_graphic) (auto simp: graphic_def in_range_def byte_def)
  then have "trace_hop_of (''traceroute to '' @ rest) = None"
    by (simp add: trace_hop_of_def has_prefix_def)
  moreover have "trace_hop_of [] = None" by (simp add: trace_hop_of_def)
  moreover have "List.map_filter trace_hop_of (map print_hop hs) = map read_hop hs"
    using assms(1) trace_hop_text(1) by (intro map_filter_all) (auto simp: list_all_iff)
  ultimately show ?thesis
    by (cases ended) (simp_all add: parse_trace_output_def List.map_filter_def)
qed

text \<open>The output of the program's own test, with one more hop: its first probe was lost.\<close>

definition sample_route :: string where
  "sample_route = join_with newline [''traceroute to google.com (142.250.74.46), 30 hops max, 60 byte packets'',
     '' 1  gateway (192.168.1.1)  0.254 ms  0.210 ms  0.198 ms'', '' 2  10.0.0.1 (10.0.0.1)  1.120 ms  0.985 ms'',
     '' 3  * * *'', '' 4  google.com (142.250.74.46)  12.450 ms'', '' 5  * gw2 (10.0.0.2)  3.100 ms !H *'']"

definition sample_hops :: "hop list" where
  "sample_hops = [Hop 1 [Answered (Some (''gateway'', ''192.168.1.1'')) ''0.254'' None, Answered None ''0.210'' None, Answered None ''0.198'' None],
     Hop 2 [Answered (Some (''10.0.0.1'', ''10.0.0.1'')) ''1.120'' None, Answered None ''0.985'' None], Hop 3 [Lost, Lost, Lost],
     Hop 4 [Answered (Some (''google.com'', ''142.250.74.46'')) ''12.450'' None],
     Hop 5 [Lost, Answered (Some (''gw2'', ''10.0.0.2'')) ''3.100'' (Some ''!H''), Lost]]"

theorem trace_output_parsed_witness:
  "to_hops (parse_trace_output ''google.com'' sample_route) =
   [\<lparr>th_hop = 1, th_host = ''gateway'', th_ip = ''192.168.1.1'', th_rtts = [float_of ''0.254'', float_of ''0.210'', float_of ''0.198'']\<rparr>,
    \<lparr>th_hop = 2, th_host = ''10.0.0.1'', th_ip = ''10.0.0.1'', th_rtts = [float_of ''1.120'', float_of ''0.985'']\<rparr>,
    \<lparr>th_hop = 3, th_host = ''*'', th_ip = ''*'', th_rtts = []\<rparr>,
    \<lparr>th_hop = 4, th_host = ''google.com'', th_ip = ''142.250.74.46'', th_rtts = [float_of ''12.450'']\<rparr>,
    \<lparr>th_hop = 5, th_host = ''*'', th_ip = ''*'', th_rtts = []\<rparr>]"
proof -
  have "snd (parse_float (''0'' @ CHR ''.'' # ''254''))" "snd (parse_float (''0'' @ CHR ''.'' # ''210''))"
    "snd (parse_float (''0'' @ CHR ''.'' # ''198''))" "snd (parse_float (''1'' @ CHR ''.'' # ''120''))"
    "snd (parse_float (''0'' @ CHR ''.'' # ''985''))" "snd (parse_float (''12'' @ CHR ''.'' # ''450''))"
    "snd (parse_float (''3'' @ CHR ''.'' # ''100''))"
    by (rule parse_float_decimal; simp add: is_digit_def in_range_def byte_def)+
  moreover have "list_all token [''gateway'', ''192.168.1.1'', ''0.254'', ''0.210'', ''0.198'', ''10.0.0.1'', ''1.120'', ''0.985'',
      ''google.com'', ''142.250.74.46'', ''12.450'', ''gw2'', ''10.0.0.2'', ''3.100'', ''!H'']" by code_simp
  ultimately have ok: "list_all hop_ok sample_hops" by (simp add: sample_hops_def parse_float_mark)
  have printed: "sample_route = join_with newline ((''traceroute to '' @ ''google.com (142.250.74.46), 30 hops max, 60 byte packets'') #
      map print_hop sample_hops) @ (if False then [newline] else [])" by code_simp
  have rest: "''google.com (142.250.74.46), 30 hops max, 60 byte packets'' \<noteq> []"
    "graphic (last ''google.com (142.250.74.46), 30 hops max, 60 byte packets'')"
    "newline \<notin> set ''google.com (142.250.74.46), 30 hops max, 60 byte packets''" by code_simp+
  show ?thesis unfolding trace_output_parsed [OF ok rest printed] by (simp add: sample_hops_def)
qed

end
