(* ===== verification/CustomCommands.thy ===== *)
theory CustomCommands
  imports GoGlob Host
begin

text \<open>
  The custom commands of a satellite, from \<open>agent/config.go\<close> and \<open>agent/client.go\<close>: reading an
  allowed file, and running a configured program with checked parameters. The rules of a command
  are a Go map, here a list in the order one iteration visits them. A path is checked as text;
  what \<open>ho_stat\<close> and \<open>ho_open\<close> find under it, symbolic links included, is the machine's.
\<close>

section \<open>Configuration\<close>

record param_rule =
  pu_regex :: string
  pu_allowed :: "string list"
  pu_required :: bool

record custom_command =
  cc_type :: string
  cc_executable :: string
  cc_args :: "string list"
  cc_rules :: "(string \<times> param_rule) list"
  cc_paths :: "string list"
  cc_max_bytes :: int
  cc_timeout :: int
  cc_env :: "string list"

section \<open>Reading a file\<close>

definition text_param :: "any_map \<Rightarrow> string \<Rightarrow> string" where
  "text_param m k = (case any_get m k of Some (JStr s) \<Rightarrow> s | _ \<Rightarrow> [])"

definition requested_path :: "any_map \<Rightarrow> string" where
  "requested_path m = (if text_param m ''path'' \<noteq> [] then text_param m ''path'' else text_param m ''file'')"

definition path_allowed :: "string list \<Rightarrow> string \<Rightarrow> bool" where
  "path_allowed patterns path \<longleftrightarrow>
     list_ex (\<lambda>p. glob_match (clean_path p) path = Some True \<or> has_prefix path (clean_path p)) patterns"

text \<open>The result is a map, whose keys are marshalled in order.\<close>

definition file_result :: "string \<Rightarrow> int \<Rightarrow> string \<Rightarrow> json" where
  "file_result path bytes_n content = JObj [(''content'', JStr content), (''path'', JStr path),
     (''read_bytes'', jint (int (length content))), (''size_bytes'', jint bytes_n),
     (''truncated'', JBool (int (length content) < bytes_n))]"

definition execute_file_read :: "host \<Rightarrow> custom_command \<Rightarrow> any_map \<Rightarrow> json res" where
  "execute_file_read ho cmd params =
     (let path = clean_path (requested_path params) in
      if requested_path params = [] then Inl (''missing required parameter '' @ [CHR 0x27] @ ''path'' @ [CHR 0x27] @ '' or '' @ [CHR 0x27] @ ''file'' @ [CHR 0x27])
      else if cc_paths cmd = [] then Inl ''no allowed_paths configured for this file_read command''
      else if \<not> path_allowed (cc_paths cmd) path
        then Inl (''access to file '' @ ho_quote ho path @ '' is forbidden by configuration'')
      else (case ho_stat ho path of
          Inl e \<Rightarrow> Inl (''failed to access file '' @ ho_quote ho path @ '': '' @ e)
        | Inr (is_dir, bytes_n) \<Rightarrow>
            if is_dir then Inl (''path '' @ ho_quote ho path @ '' is a directory, not a file'')
            else (case ho_open ho path of
                Inl e \<Rightarrow> Inl (''failed to open file '' @ ho_quote ho path @ '': '' @ e)
              | Inr (Inl e) \<Rightarrow> Inl (''failed to read file '' @ ho_quote ho path @ '': '' @ e)
              | Inr (Inr bytes) \<Rightarrow>
                  Inr (file_result path bytes_n
                    (take (nat (if cc_max_bytes cmd \<le> 0 then 1024 * 1024 else cc_max_bytes cmd)) bytes)))))"

section \<open>Running a program\<close>

text \<open>One parameter against its rule: \<open>None\<close> when it passes.\<close>

definition check_value :: "host \<Rightarrow> string \<Rightarrow> param_rule \<Rightarrow> string \<Rightarrow> string option" where
  "check_value ho name rule v =
     (if pu_allowed rule \<noteq> [] \<and> v \<notin> set (pu_allowed rule)
      then Some (''invalid value '' @ ho_quote ho v @ '' for parameter '' @ ho_quote ho name @
        '' (allowed values: '' @ ho_quote_list ho (pu_allowed rule) @ '')'')
      else if pu_regex rule = [] then None
      else (case ho_regex ho (pu_regex rule) of
          Inl e \<Rightarrow> Some (''invalid regex rule in config for parameter '' @ ho_quote ho name @ '': '' @ e)
        | Inr matches \<Rightarrow> if matches v then None
            else Some (''parameter '' @ ho_quote ho name @ '' value '' @ ho_quote ho v @
              '' fails security validation regex '' @ ho_quote ho (pu_regex rule))))"

text \<open>A parameter that is absent or \<open>null\<close>.\<close>

definition given :: "any_map \<Rightarrow> string \<Rightarrow> json option" where
  "given m k = (case any_get m k of Some JNull \<Rightarrow> None | r \<Rightarrow> r)"

fun check_rules :: "host \<Rightarrow> string \<Rightarrow> any_map \<Rightarrow> (string \<times> param_rule) list \<Rightarrow> string option" where
  "check_rules ho meth m [] = None"
| "check_rules ho meth m ((name, rule) # rules) =
     (case given m name of
        None \<Rightarrow> if pu_required rule
          then Some (''missing required parameter '' @ ho_quote ho name @ '' for command '' @ ho_quote ho meth)
          else check_rules ho meth m rules
      | Some v \<Rightarrow> (case check_value ho name rule (fmt_value v) of
            Some e \<Rightarrow> Some e
          | None \<Rightarrow> check_rules ho meth m rules))"

definition final_args :: "any_map \<Rightarrow> string list \<Rightarrow> string list" where
  "final_args m args = List.map_filter (\<lambda>arg.
     if has_prefix arg ''$'' then map_option fmt_value (given m (trim_prefix arg ''$'')) else Some arg) args"

definition truncate_output :: "int \<Rightarrow> string \<Rightarrow> string" where
  "truncate_output limit s =
     (if limit < int (length s) then take (nat limit) s @ [CHR 0x0A] @ ''...[truncated]'' else s)"

definition binary_result :: "string \<Rightarrow> string list \<Rightarrow> int \<Rightarrow> int \<Rightarrow> string \<Rightarrow> string \<Rightarrow> json" where
  "binary_result exe args code ms out err = JObj [(''args'', JArr (map JStr args)),
     (''duration_ms'', jint ms), (''executable'', JStr exe), (''exit_code'', jint code),
     (''stderr'', JStr err), (''stdout'', JStr out)]"

definition execute_custom_binary :: "host \<Rightarrow> string \<Rightarrow> custom_command \<Rightarrow> any_map \<Rightarrow> json res" where
  "execute_custom_binary ho meth cmd params =
     (if cc_executable cmd = [] then Inl (''no executable path configured for custom command '' @ ho_quote ho meth)
      else (case check_rules ho meth params (cc_rules cmd) of
          Some e \<Rightarrow> Inl e
        | None \<Rightarrow>
            (let args = final_args params (cc_args cmd);
                 limit = (if cc_max_bytes cmd \<le> 0 then 512 * 1024 else cc_max_bytes cmd);
                 (outcome, ms) = ho_run ho (cc_executable cmd) args (cc_env cmd)
                   (if cc_timeout cmd \<le> 0 then 60 else cc_timeout cmd)
             in (case outcome of
                   RunFailed e \<Rightarrow> Inl (''failed to execute command '' @ ho_quote ho meth @ '' ('' @
                     cc_executable cmd @ ''): '' @ e)
                 | Exited code out err \<Rightarrow> Inr (binary_result (cc_executable cmd) args code ms
                     (truncate_output limit out) (truncate_output limit err))))))"

definition execute_custom_command :: "host \<Rightarrow> string \<Rightarrow> custom_command \<Rightarrow> json option \<Rightarrow> json res" where
  "execute_custom_command ho meth cmd raw =
     (case (if raw = None \<or> raw = Some JNull then Some [] else dec_any_map raw) of
        None \<Rightarrow> Inl (''invalid parameters JSON for custom command '' @ ho_quote ho meth @ '': '' @ ho_json_error ho raw)
      | Some params \<Rightarrow>
          if cc_type cmd = ''file_read'' then execute_file_read ho cmd params
          else execute_custom_binary ho meth cmd params)"

section \<open>What the rules guarantee\<close>

lemma check_rules_passes:
  "check_rules ho meth m rules = None \<Longrightarrow> (name, rule) \<in> set rules \<Longrightarrow>
     (case given m name of None \<Rightarrow> \<not> pu_required rule | Some v \<Rightarrow> check_value ho name rule (fmt_value v) = None)"
  by (induction rules) (auto split: option.splits if_splits)

lemma check_value_passes:
  "check_value ho name rule v = None \<Longrightarrow>
     (pu_allowed rule = [] \<or> v \<in> set (pu_allowed rule)) \<and>
     (pu_regex rule = [] \<or> (\<exists>matches. ho_regex ho (pu_regex rule) = Inr matches \<and> matches v))"
  by (auto simp: check_value_def split: if_splits sum.splits)

definition rule_violated :: "host \<Rightarrow> any_map \<Rightarrow> string \<Rightarrow> param_rule \<Rightarrow> bool" where
  "rule_violated ho m name rule \<longleftrightarrow>
     (case given m name of
        None \<Rightarrow> pu_required rule
      | Some v \<Rightarrow> pu_allowed rule \<noteq> [] \<and> fmt_value v \<notin> set (pu_allowed rule) \<or>
          pu_regex rule \<noteq> [] \<and> (case ho_regex ho (pu_regex rule) of Inl _ \<Rightarrow> True | Inr matches \<Rightarrow> \<not> matches (fmt_value v)))"

lemma check_value_None: "check_value ho name rule v = None \<longleftrightarrow>
    (pu_allowed rule = [] \<or> v \<in> set (pu_allowed rule)) \<and>
    (pu_regex rule = [] \<or> (case ho_regex ho (pu_regex rule) of Inl _ \<Rightarrow> False | Inr matches \<Rightarrow> matches v))"
  by (auto simp: check_value_def split: sum.splits)

lemma check_rules_Cons: "check_rules ho meth m ((name, rule) # rules) = None \<longleftrightarrow>
    \<not> rule_violated ho m name rule \<and> check_rules ho meth m rules = None"
proof (cases "given m name")
  case (Some v)
  have "rule_violated ho m name rule \<longleftrightarrow> check_value ho name rule (fmt_value v) \<noteq> None"
    unfolding check_value_None by (simp add: rule_violated_def Some) (auto split: sum.splits)
  then show ?thesis using Some by (cases "check_value ho name rule (fmt_value v)") simp_all
qed (simp add: rule_violated_def)

lemma check_rules_None:
  "check_rules ho meth m rules = None \<longleftrightarrow> \<not> (\<exists>(name, rule)\<in>set rules. rule_violated ho m name rule)"
proof (induction rules)
  case (Cons r rules)
  then show ?case by (cases r) (simp only: check_rules_Cons, simp)
qed simp

lemma check_rules_run [simp]: "check_rules (ho\<lparr>ho_run := run\<rparr>) meth m rules = check_rules ho meth m rules"
  by (induction rules) (auto simp: check_value_def split: option.splits sum.splits)

text \<open>C18: A custom command runs only with parameters that satisfy its rules. When any parameter breaks
  its rule (missing though required, outside the allowed values, not matching the pattern) the
  answer is an error that does not depend on the program, so it is not run; otherwise it is run
  once, with the static arguments and the values of the parameters they name, in order.\<close>

theorem custom_rules_enforced:
  assumes "cc_executable cmd \<noteq> []"
  shows "((\<exists>(name, rule)\<in>set (cc_rules cmd). rule_violated ho m name rule) \<longrightarrow>
      (\<exists>e. \<forall>run. execute_custom_binary (ho\<lparr>ho_run := run\<rparr>) meth cmd m = Inl e)) \<and>
    (\<not> (\<exists>(name, rule)\<in>set (cc_rules cmd). rule_violated ho m name rule) \<longrightarrow>
      (\<forall>code out err ms. ho_run ho (cc_executable cmd) (final_args m (cc_args cmd)) (cc_env cmd)
          (if cc_timeout cmd \<le> 0 then 60 else cc_timeout cmd) = (Exited code out err, ms) \<longrightarrow>
        (\<exists>out' err'. execute_custom_binary ho meth cmd m =
          Inr (binary_result (cc_executable cmd) (final_args m (cc_args cmd)) code ms out' err'))))"
proof (intro conjI impI allI)
  assume "\<exists>(name, rule)\<in>set (cc_rules cmd). rule_violated ho m name rule"
  then obtain e where "check_rules ho meth m (cc_rules cmd) = Some e"
    using check_rules_None [of ho meth m "cc_rules cmd"] by (cases "check_rules ho meth m (cc_rules cmd)") auto
  then show "\<exists>e. \<forall>run. execute_custom_binary (ho\<lparr>ho_run := run\<rparr>) meth cmd m = Inl e"
    using assms by (simp add: execute_custom_binary_def)
next
  fix code out err ms
  assume "\<not> (\<exists>(name, rule)\<in>set (cc_rules cmd). rule_violated ho m name rule)"
    and run: "ho_run ho (cc_executable cmd) (final_args m (cc_args cmd)) (cc_env cmd)
      (if cc_timeout cmd \<le> 0 then 60 else cc_timeout cmd) = (Exited code out err, ms)"
  then have "check_rules ho meth m (cc_rules cmd) = None" using check_rules_None by blast
  then show "\<exists>out' err'. execute_custom_binary ho meth cmd m =
      Inr (binary_result (cc_executable cmd) (final_args m (cc_args cmd)) code ms out' err')"
    using assms run by (auto simp: execute_custom_binary_def Let_def)
qed

definition sample_host :: host where
  "sample_host = \<lparr>ho_look_path = (\<lambda>p. Inr (''/bin/'' @ p)), ho_exists = (\<lambda>_. True),
     ho_combined = (\<lambda>_ _ _ _. (None, [])), ho_run = (\<lambda>_ args _ _. (Exited 0 (concat args) [], 5)),
     ho_mkdir_temp = (\<lambda>_. Inr ''/tmp/x''), ho_uid = 0, ho_stat = (\<lambda>_. Inr (False, 3)),
     ho_open = (\<lambda>_. Inr (Inr ''abc'')), ho_regex = (\<lambda>p. Inr (\<lambda>s. s = p)), ho_parse_json = (\<lambda>_. None), ho_json_error = (\<lambda>_. ''bad JSON''),
     ho_quote = (\<lambda>s. s), ho_quote_list = concat\<rparr>"

definition sample_command :: custom_command where
  "sample_command = \<lparr>cc_type = [], cc_executable = ''/bin/df'', cc_args = [''-h'', ''$mount''],
     cc_rules = [(''mount'', \<lparr>pu_regex = [], pu_allowed = [''/'', ''/boot''], pu_required = True\<rparr>)],
     cc_paths = [], cc_max_bytes = 0, cc_timeout = 0, cc_env = []\<rparr>"

theorem custom_rules_enforced_witness:
  "(\<exists>e. \<forall>run. execute_custom_binary (sample_host\<lparr>ho_run := run\<rparr>) ''df'' sample_command [(''mount'', JStr ''/; rm'')] = Inl e) \<and>
   (\<exists>out err. execute_custom_binary sample_host ''df'' sample_command [(''mount'', JStr ''/boot'')] =
      Inr (binary_result ''/bin/df'' [''-h'', ''/boot''] 0 5 out err))"
proof -
  have c: "cc_executable sample_command \<noteq> []" by (simp add: sample_command_def)
  have "\<exists>(name, rule)\<in>set (cc_rules sample_command). rule_violated sample_host [(''mount'', JStr ''/; rm'')] name rule"
    by (simp add: sample_command_def rule_violated_def given_def any_get_def)
  moreover have "\<not> (\<exists>(name, rule)\<in>set (cc_rules sample_command). rule_violated sample_host [(''mount'', JStr ''/boot'')] name rule)"
    by (simp add: sample_command_def rule_violated_def given_def any_get_def)
  moreover have "final_args [(''mount'', JStr ''/boot'')] (cc_args sample_command) = [''-h'', ''/boot'']"
    by (simp add: sample_command_def final_args_def List.map_filter_simps given_def any_get_def has_prefix_def trim_prefix_def)
  ultimately show ?thesis
    using custom_rules_enforced [OF c, of sample_host "[(''mount'', JStr ''/; rm'')]" "''df''"]
      custom_rules_enforced [OF c, of sample_host "[(''mount'', JStr ''/boot'')]" "''df''"]
    by (simp add: sample_host_def) (simp add: sample_command_def)
qed

lemma clean_rooted_no_dots:
  assumes "rooted p"
  shows "''..'' \<notin> set (split_on CHR ''/'' (clean_path p))"
proof -
  have "list_all plain_elem (path_elems p)"
    using path_elems_clean [of p] assms by (auto simp: clean_elems_def)
  moreover have "split_on CHR ''/'' (clean_path p) = [] # split_on CHR ''/'' (join_with CHR ''/'' (path_elems p))"
    using assms by (simp add: clean_path_def render_path_def)
  moreover have "split_on CHR ''/'' (join_with CHR ''/'' es) = (if es = [] then [[]] else es)"
    if "\<forall>e\<in>set es. CHR ''/'' \<notin> set e" for es
    using that by (simp add: split_join)
  ultimately show ?thesis using path_elems_no_slash [of _ p]
    by (auto simp: list_all_iff plain_elem_def split: if_splits)
qed

text \<open>C19: A file command reads only the file under the cleaned request, and only when its configuration
  allows it. An answer holds the leading bytes of the file opened under that path, no more than the
  limit of the command, the path is one that an allowed pattern matches or begins, and an absolute
  request keeps no double dot; the answer is the same whatever any other path holds. When no
  pattern admits the path the answer is an error that depends on no file at all.\<close>

theorem file_read_confined:
  assumes "path = clean_path (requested_path m)"
    and "limit = nat (if cc_max_bytes cmd \<le> 0 then 1024 * 1024 else cc_max_bytes cmd)"
    and "admitted \<longleftrightarrow> (\<exists>p\<in>set (cc_paths cmd). glob_match (clean_path p) path = Some True \<or> has_prefix path (clean_path p))"
  shows "(\<forall>r. execute_file_read ho cmd m = Inr r \<longrightarrow> admitted \<and>
      (\<exists>n bytes. ho_stat ho path = Inr (False, n) \<and> ho_open ho path = Inr (Inr bytes) \<and>
         r = file_result path n (take limit bytes)) \<and>
      (rooted (requested_path m) \<longrightarrow> ''..'' \<notin> set (split_on CHR ''/'' path))) \<and>
    (\<forall>st op. st path = ho_stat ho path \<and> op path = ho_open ho path \<longrightarrow>
      execute_file_read (ho\<lparr>ho_stat := st, ho_open := op\<rparr>) cmd m = execute_file_read ho cmd m) \<and>
    (\<not> admitted \<longrightarrow> (\<exists>e. \<forall>st op. execute_file_read (ho\<lparr>ho_stat := st, ho_open := op\<rparr>) cmd m = Inl e))"
proof -
  have adm: "path_allowed (cc_paths cmd) path \<longleftrightarrow> admitted"
    unfolding assms(3) path_allowed_def by (auto simp: list_ex_iff)
  have "admitted \<and> (\<exists>n bytes. ho_stat ho path = Inr (False, n) \<and> ho_open ho path = Inr (Inr bytes) \<and>
      r = file_result path n (take limit bytes)) \<and>
      (rooted (requested_path m) \<longrightarrow> ''..'' \<notin> set (split_on CHR ''/'' path))"
    if "execute_file_read ho cmd m = Inr r" for r
    using that adm clean_rooted_no_dots [of "requested_path m"] assms(1,2)
    by (auto simp: execute_file_read_def Let_def split: if_splits sum.splits)
  moreover have "execute_file_read (ho\<lparr>ho_stat := st, ho_open := op\<rparr>) cmd m = execute_file_read ho cmd m"
    if "st path = ho_stat ho path" "op path = ho_open ho path" for st op
    using that assms(1) by (simp add: execute_file_read_def Let_def split: sum.split prod.split)
  moreover have "\<exists>e. \<forall>st op. execute_file_read (ho\<lparr>ho_stat := st, ho_open := op\<rparr>) cmd m = Inl e"
    if "\<not> admitted"
    using that adm assms(1)
    by (cases "requested_path m = []"; cases "cc_paths cmd = []") (simp_all add: execute_file_read_def Let_def)
  ultimately show ?thesis by blast
qed

theorem file_read_confined_witness:
  "\<exists>n bytes. ho_open sample_host ''/etc/app/a.conf'' = Inr (Inr bytes) \<and>
     execute_file_read sample_host (sample_command\<lparr>cc_paths := [''/etc/app'']\<rparr>)
       [(''path'', JStr ''/etc/app/../app/a.conf'')] = Inr (file_result ''/etc/app/a.conf'' n (take 1048576 bytes))"
proof -
  have g: "clean_path ''/etc/app/../app/a.conf'' = ''/etc/app/a.conf''" "clean_path ''/etc/app'' = ''/etc/app''"
    by code_simp+
  have p: "requested_path [(''path'', JStr ''/etc/app/../app/a.conf'')] = ''/etc/app/../app/a.conf''"
    by (simp add: requested_path_def text_param_def any_get_def)
  have e: "execute_file_read sample_host (sample_command\<lparr>cc_paths := [''/etc/app'']\<rparr>)
      [(''path'', JStr ''/etc/app/../app/a.conf'')] = Inr (file_result ''/etc/app/a.conf'' 3 ''abc'')"
    by (simp add: execute_file_read_def p g path_allowed_def has_prefix_def sample_host_def sample_command_def)
  have l: "1048576 = nat (if cc_max_bytes (sample_command\<lparr>cc_paths := [''/etc/app'']\<rparr>) \<le> 0 then 1024 * 1024
      else cc_max_bytes (sample_command\<lparr>cc_paths := [''/etc/app'']\<rparr>))"
    by (simp add: sample_command_def)
  show ?thesis
    using file_read_confined [OF _ l refl, of "''/etc/app/a.conf''" "[(''path'', JStr ''/etc/app/../app/a.conf'')]" sample_host]
    unfolding p g e by blast
qed

text \<open>An allowed path without a wildcard admits every file whose name continues it: next to
  \<open>/var/log/syslog\<close> also \<open>/var/log/syslog-secret\<close> is read, since the path is compared as a
  prefix of characters.\<close>

theorem allowed_path_admits_siblings:
  assumes "cc_paths cmd = [p]" "requested_path m = clean_path p @ t" "clean_path (clean_path p @ t) = clean_path p @ t"
    and "clean_path p @ t \<noteq> []" "ho_stat ho (clean_path p @ t) = Inr (False, n)"
    and "ho_open ho (clean_path p @ t) = Inr (Inr bytes)" "int (length bytes) \<le> 1024" "cc_max_bytes cmd = 0"
  shows "execute_file_read ho cmd m = Inr (file_result (clean_path p @ t) n bytes)"
proof -
  have "path_allowed (cc_paths cmd) (clean_path p @ t)" using assms(1) by (simp add: path_allowed_def has_prefix_def)
  then show ?thesis using assms unfolding execute_file_read_def Let_def by auto
qed

theorem allowed_path_admits_siblings_witness:
  "execute_file_read sample_host (sample_command\<lparr>cc_paths := [''/var/log/syslog'']\<rparr>)
     [(''path'', JStr ''/var/log/syslog-secret'')] = Inr (file_result ''/var/log/syslog-secret'' 3 ''abc'')"
proof -
  have g: "clean_path ''/var/log/syslog-secret'' = ''/var/log/syslog-secret''" "clean_path ''/var/log/syslog'' = ''/var/log/syslog''"
    by code_simp+
  have "execute_file_read sample_host (sample_command\<lparr>cc_paths := [''/var/log/syslog'']\<rparr>)
     [(''path'', JStr ''/var/log/syslog-secret'')] = Inr (file_result (clean_path ''/var/log/syslog'' @ ''-secret'') 3 ''abc'')"
    by (rule allowed_path_admits_siblings)
      (simp_all add: g requested_path_def text_param_def any_get_def sample_host_def sample_command_def)
  then show ?thesis by (simp add: g)
qed

end
