(* ===== verification/VMwareHardware.thy ===== *)
theory VMwareHardware
  imports Host JobParams
begin

text \<open>
  The hardware inventory of a virtual machine, \<open>agent/vmware_hardware.go\<close>: reading the JSON that
  \<open>govc vm.info\<close> prints, whose key names differ in case between versions, into disks and network
  interfaces. A Go map of the document is a list of entries, \<open>None\<close> for a nil map, and likewise
  for a nil slice. Where Go iterates over a map in random order, the entries are visited in the
  order of the document; it matters only when two keys differ in nothing but case.
\<close>

section \<open>Looking values up\<close>

definition vm_key :: "any_map option \<Rightarrow> string \<Rightarrow> json option" where
  "vm_key m key =
     (case m of
        None \<Rightarrow> None
      | Some kvs \<Rightarrow>
          (let held = (\<lambda>k. case any_get kvs k of Some JNull \<Rightarrow> None | r \<Rightarrow> r) in
           case held key of
             Some v \<Rightarrow> Some v
           | None \<Rightarrow>
               (case List.find (\<lambda>k. equal_fold k key \<and> held k \<noteq> None) (map fst kvs) of
                  None \<Rightarrow> None
                | Some k \<Rightarrow> held k)))"

definition vm_map :: "any_map option \<Rightarrow> string \<Rightarrow> any_map option" where
  "vm_map m key = (case vm_key m key of Some (JObj kvs) \<Rightarrow> Some kvs | _ \<Rightarrow> None)"

definition vm_list :: "any_map option \<Rightarrow> string \<Rightarrow> json list option" where
  "vm_list m key = (case vm_key m key of Some (JArr js) \<Rightarrow> Some js | _ \<Rightarrow> None)"

definition vm_str :: "any_map option \<Rightarrow> string \<Rightarrow> string" where
  "vm_str m key =
     (case vm_key m key of
        Some (JStr s) \<Rightarrow> trim_space s
      | Some (JNum lit) \<Rightarrow> format_f (float_of lit)
      | Some (JBool b) \<Rightarrow> (if b then ''true'' else ''false'')
      | _ \<Rightarrow> [])"

text \<open>The number and whether there is one; a text that does not parse still gives its value.\<close>

definition vm_num :: "any_map option \<Rightarrow> string \<Rightarrow> f64 \<times> bool" where
  "vm_num m key =
     (case vm_key m key of
        Some (JNum lit) \<Rightarrow> (float_of lit, True)
      | Some (JStr s) \<Rightarrow> parse_float (trim_space s)
      | _ \<Rightarrow> (Fin 0, False))"

fun first_non_empty :: "string list \<Rightarrow> string" where
  "first_non_empty [] = []"
| "first_non_empty (v # vs) = (if v \<noteq> [] then v else first_non_empty vs)"

definition as_map :: "json \<Rightarrow> any_map option" where
  "as_map j = (case j of JObj kvs \<Rightarrow> Some kvs | _ \<Rightarrow> None)"

section \<open>Sizes\<close>

text \<open>The patterns match a run of digits and commas, blanks and a unit in any case; \<open>GB\<close> allows a
  fraction. In the folding of \<open>regexp\<close> the Kelvin sign is a K. The first run of the text that is
  followed by the unit is the match.\<close>

definition size_char :: "char \<Rightarrow> bool" where
  "size_char c \<longleftrightarrow> is_digit c \<or> c = CHR '',''"

definition re_space :: "char \<Rightarrow> bool" where
  "re_space c \<longleftrightarrow> byte c \<in> {9, 10, 12, 13, 32}"

definition unit_follows :: "string \<Rightarrow> string \<Rightarrow> bool" where
  "unit_follows u s = (let t = dropWhile re_space s in has_prefix (fold_case (take (length u + 2) t)) u)"

definition size_fraction :: "string \<Rightarrow> string \<times> string" where
  "size_fraction s =
     (case s of
        d # c # t \<Rightarrow> if d = CHR ''.'' \<and> is_digit c
          then (d # takeWhile is_digit (c # t), dropWhile is_digit (c # t)) else ([], s)
      | _ \<Rightarrow> ([], s))"

function find_size :: "string \<Rightarrow> bool \<Rightarrow> string \<Rightarrow> string option" where
  "find_size u decimals s =
     (case s of
        [] \<Rightarrow> None
      | c # t \<Rightarrow>
          if size_char c then
            (let run = takeWhile size_char s; rest = dropWhile size_char s;
                 (f, after) = (if decimals then size_fraction rest else ([], rest))
             in if unit_follows u after then Some (run @ f) else find_size u decimals rest)
          else find_size u decimals t)"
  by pat_completeness auto
termination
  by (relation "measure (\<lambda>(u, f, s). length s)") (auto simp: length_dropWhile_le le_imp_less_Suc)

declare find_size.simps [simp del]

definition no_commas :: "string \<Rightarrow> string" where
  "no_commas s = replace_all '','' [] s"

definition parse_size_mb :: "string \<Rightarrow> int" where
  "parse_size_mb summary =
     (case find_size ''kb'' False summary of
        Some m \<Rightarrow> to_int64 (f64_round (f64_map (\<lambda>q. q / 1024) (float_of (no_commas m))))
      | None \<Rightarrow>
     (case find_size ''mb'' False summary of
        Some m \<Rightarrow> num_val (parse_int64 (no_commas m))
      | None \<Rightarrow>
     (case find_size ''gb'' True summary of
        Some m \<Rightarrow> to_int64 (f64_round (f64_map (\<lambda>q. q * 1024) (float_of (no_commas m))))
      | None \<Rightarrow> 0)))"

section \<open>Names\<close>

text \<open>A name already taken gets the number of devices with the same raw name, plus one.\<close>

definition pick_name :: "(string \<times> string) list \<Rightarrow> string \<Rightarrow> string" where
  "pick_name existing base =
     (if base \<in> set (map fst existing)
      then base @ CHR ''-'' # nat_digits (length (filter (\<lambda>(_, raw). raw = base) existing) + 1)
      else base)"

section \<open>Disks\<close>

record vm_disk =
  vd_name :: string
  vd_raw :: string
  vd_label :: string
  vd_size :: int
  vd_file :: string
  vd_datastore :: string
  vd_vmdk :: string

definition datastore_of :: "string \<Rightarrow> string" where
  "datastore_of f =
     (if f \<noteq> [] \<and> hd f = CHR ''['' \<and> CHR '']'' \<in> set (tl f) \<and>
         CHR 0x0A \<notin> set (takeWhile (\<lambda>c. c \<noteq> CHR '']'') (tl f))
      then takeWhile (\<lambda>c. c \<noteq> CHR '']'') (tl f) else [])"

definition vmdk_base :: "string \<Rightarrow> string" where
  "vmdk_base f =
     (let b = (case index_byte CHR '']'' f of
                 Some i \<Rightarrow> if has_prefix f ''['' then trim_space (drop (i + 1) f) else f
               | None \<Rightarrow> f)
      in case last_index_byte CHR ''/'' b of Some i \<Rightarrow> drop (i + 1) b | None \<Rightarrow> b)"

definition disk_size :: "any_map option \<Rightarrow> string \<Rightarrow> int" where
  "disk_size dev summary =
     (let (kb, has_kb) = vm_num dev ''capacityInKB''; (bytes, has_bytes) = vm_num dev ''capacityInBytes'' in
      if has_kb \<and> f64_positive kb then to_int64 (f64_round (f64_map (\<lambda>q. q / 1024) kb))
      else if has_bytes \<and> f64_positive bytes then to_int64 (f64_round (f64_map (\<lambda>q. q / (1024 * 1024)) bytes))
      else parse_size_mb summary)"

definition device_label :: "any_map option \<Rightarrow> string" where
  "device_label dev = vm_str (vm_map dev ''deviceInfo'') ''label''"

definition device_summary :: "any_map option \<Rightarrow> string" where
  "device_summary dev = vm_str (vm_map dev ''deviceInfo'') ''summary''"

definition is_disk :: "any_map option \<Rightarrow> bool" where
  "is_disk dev \<longleftrightarrow> snd (vm_num dev ''capacityInKB'') \<or> snd (vm_num dev ''capacityInBytes'') \<or>
     contains (to_lower (device_label dev)) ''hard disk''"

definition read_disk :: "vm_disk list \<Rightarrow> any_map option \<Rightarrow> vm_disk" where
  "read_disk disks dev =
     (let file = first_non_empty [vm_str (vm_map dev ''backing'') ''fileName'', vm_str (vm_map dev ''backing'') ''diskPath''];
          vmdk = (if file = [] then [] else vmdk_base file);
          label = first_non_empty [device_label dev, ''Hard disk '' @ nat_digits (length disks + 1)];
          base = first_non_empty [vmdk, label]
      in \<lparr>vd_name = pick_name (map (\<lambda>d. (vd_name d, vd_raw d)) disks) base, vd_raw = base, vd_label = label,
          vd_size = disk_size dev (device_summary dev), vd_file = file,
          vd_datastore = (if file = [] then [] else datastore_of file), vd_vmdk = vmdk\<rparr>)"

section \<open>Network interfaces\<close>

record vm_ip =
  vi_address :: string
  vi_prefix :: "int option"

record vm_nic =
  vn_name :: string
  vn_raw :: string
  vn_label :: string
  vn_mac :: string
  vn_connected :: bool
  vn_network :: string
  vn_guest :: string
  vn_ips :: "vm_ip list"

definition has_ip :: "vm_ip list \<Rightarrow> string \<Rightarrow> bool" where
  "has_ip ips ip \<longleftrightarrow> list_ex (\<lambda>e. vi_address e = ip) ips"

definition is_nic :: "any_map option \<Rightarrow> bool" where
  "is_nic dev \<longleftrightarrow> vm_str dev ''macAddress'' \<noteq> [] \<or>
     contains (to_lower (device_label dev)) ''network adapter'' \<or>
     contains (to_lower (device_label dev)) ''ethernet''"

definition same_nic :: "string \<Rightarrow> string \<Rightarrow> any_map option \<Rightarrow> bool" where
  "same_nic dev_key mac gnic \<longleftrightarrow> gnic \<noteq> None \<and>
     (let k = vm_str gnic ''deviceConfigId''; m = vm_str gnic ''macAddress'' in
      dev_key \<noteq> [] \<and> k \<noteq> [] \<and> k = dev_key \<or> mac \<noteq> [] \<and> m \<noteq> [] \<and> equal_fold m mac)"

definition read_ip :: "json \<Rightarrow> vm_ip option" where
  "read_ip e =
     (case e of
        JObj kvs \<Rightarrow> (let ip = vm_str (Some kvs) ''ipAddress''; (p, ok) = vm_num (Some kvs) ''prefixLength'' in
          if ip \<noteq> [] then Some \<lparr>vi_address = ip, vi_prefix = (if ok then Some (to_int64 p) else None)\<rparr> else None)
      | JStr s \<Rightarrow> if trim_space s \<noteq> [] then Some \<lparr>vi_address = trim_space s, vi_prefix = None\<rparr> else None
      | _ \<Rightarrow> None)"

definition add_raw_ip :: "json \<Rightarrow> vm_ip list \<Rightarrow> vm_ip list" where
  "add_raw_ip raw ips =
     (case raw of
        JStr s \<Rightarrow> (let ip = trim_space s in
          if ip \<noteq> [] \<and> \<not> has_ip ips ip then ips @ [\<lparr>vi_address = ip, vi_prefix = None\<rparr>] else ips)
      | _ \<Rightarrow> ips)"

definition nic_ips :: "any_map option \<Rightarrow> vm_ip list" where
  "nic_ips gnic =
     (let listed = (\<lambda>m k. case vm_list m k of None \<Rightarrow> [] | Some js \<Rightarrow> js) in
      fold add_raw_ip (listed gnic ''ipAddress'')
        (List.map_filter read_ip (listed (vm_map gnic ''ipConfig'') ''ipAddress'')))"

definition read_nic :: "json list \<Rightarrow> vm_nic list \<Rightarrow> any_map option \<Rightarrow> vm_nic" where
  "read_nic guest_nics nics dev =
     (let mac = vm_str dev ''macAddress'';
          connected = (case vm_key (vm_map dev ''connectable'') ''connected'' of Some (JBool b) \<Rightarrow> b | _ \<Rightarrow> True);
          network = first_non_empty [vm_str (vm_map dev ''backing'') ''deviceName'', device_summary dev];
          gnic = (case List.find (\<lambda>g. same_nic (vm_str dev ''key'') mac (as_map g)) guest_nics of
                    Some g \<Rightarrow> as_map g | None \<Rightarrow> None);
          guest_name = first_non_empty [vm_str gnic ''networkPath'', vm_str gnic ''deviceName'', vm_str gnic ''name''];
          label = first_non_empty [device_label dev, ''Network adapter '' @ nat_digits (length nics + 1)];
          base = first_non_empty [guest_name, network, label]
      in \<lparr>vn_name = pick_name (map (\<lambda>n. (vn_name n, vn_raw n)) nics) base, vn_raw = base, vn_label = label,
          vn_mac = (if mac = [] then vm_str gnic ''macAddress'' else mac), vn_connected = connected,
          vn_network = network, vn_guest = guest_name, vn_ips = nic_ips gnic\<rparr>)"

section \<open>The inventory\<close>

record vm_hardware =
  vh_name :: string
  vh_power :: string
  vh_uuid :: string
  vh_guest_os :: string
  vh_ip :: string
  vh_vcpus :: int
  vh_memory :: int
  vh_disks :: "vm_disk list"
  vh_nics :: "vm_nic list"

text \<open>A device may be both a disk and an interface; one that is no object is skipped.\<close>

definition read_device :: "json list \<Rightarrow> json \<Rightarrow> vm_disk list \<times> vm_nic list \<Rightarrow> vm_disk list \<times> vm_nic list" where
  "read_device guest_nics d st =
     (case as_map d of
        None \<Rightarrow> st
      | Some kvs \<Rightarrow>
          (let (disks, nics) = st; dev = Some kvs in
           (if is_disk dev then disks @ [read_disk disks dev] else disks,
            if is_nic dev then nics @ [read_nic guest_nics nics dev] else nics)))"

text \<open>The main address of the guest goes to the first interface when no interface has it.\<close>

definition place_primary :: "string \<Rightarrow> vm_nic list \<Rightarrow> vm_nic list" where
  "place_primary ip nics =
     (case nics of
        [] \<Rightarrow> []
      | n # ns \<Rightarrow>
          if ip \<noteq> [] \<and> \<not> list_ex (\<lambda>n. has_ip (vn_ips n) ip) nics
          then n\<lparr>vn_ips := vn_ips n @ [\<lparr>vi_address = ip, vi_prefix = None\<rparr>]\<rparr> # ns
          else nics)"

definition first_num :: "f64 \<times> bool \<Rightarrow> f64 \<times> bool \<Rightarrow> f64" where
  "first_num a b = (if snd a then fst a else fst b)"

definition read_vm :: "any_map \<Rightarrow> string \<Rightarrow> vm_hardware" where
  "read_vm vm asked =
     (let m = Some vm; runtime = vm_map m ''runtime''; config = vm_map m ''config'';
          summary = vm_map m ''summary''; summary_config = vm_map summary ''config'';
          summary_runtime = vm_map summary ''runtime''; guest = vm_map m ''guest'';
          hardware = (case vm_map config ''hardware'' of None \<Rightarrow> vm_map summary_config ''hardware'' | r \<Rightarrow> r);
          guest_nics = (case vm_list guest ''net'' of None \<Rightarrow> vm_list (vm_map summary ''guest'') ''net'' | r \<Rightarrow> r);
          devices = (case vm_list hardware ''device'' of None \<Rightarrow> [] | Some ds \<Rightarrow> ds);
          (disks, nics) = fold (read_device (case guest_nics of None \<Rightarrow> [] | Some gs \<Rightarrow> gs)) devices ([], []);
          primary = vm_str guest ''ipAddress''
      in \<lparr>vh_name = first_non_empty [vm_str config ''name'', vm_str summary_config ''name'', asked],
          vh_power = first_non_empty [vm_str runtime ''powerState'', vm_str summary_runtime ''powerState''],
          vh_uuid = vm_str config ''uuid'',
          vh_guest_os = first_non_empty [vm_str config ''guestFullName'', vm_str guest ''guestFullName''],
          vh_ip = primary,
          vh_vcpus = to_int64 (first_num (vm_num hardware ''numCPU'') (vm_num summary_config ''numCpu'')),
          vh_memory = to_int64 (first_num (vm_num hardware ''memoryMB'') (vm_num summary_config ''memorySizeMB'')),
          vh_disks = disks, vh_nics = place_primary primary nics\<rparr>)"

text \<open>No machine in the output, or output that is not JSON, is no error.\<close>

definition parse_vmware_hardware :: "json option \<Rightarrow> string \<Rightarrow> vm_hardware option" where
  "parse_vmware_hardware out asked =
     (case dec_any_map out of
        None \<Rightarrow> None
      | Some data \<Rightarrow>
          (case vm_list (Some data) ''virtualMachines'' of
             Some (JObj vm # _) \<Rightarrow> Some (read_vm vm asked)
           | _ \<Rightarrow> None))"

section \<open>Distinct names\<close>

text \<open>Building a list of devices one by one, each named by \<open>pick_name\<close> from its raw name.\<close>

locale named_devices =
  fixes name raw :: "'d \<Rightarrow> string"
    and build :: "'d list \<Rightarrow> 'x \<Rightarrow> 'd"
  assumes name_build: "name (build ds x) = pick_name (map (\<lambda>d. (name d, raw d)) ds) (raw (build ds x))"
begin

definition numbered :: "string \<Rightarrow> nat \<Rightarrow> string" where
  "numbered b c = (if c = 0 then b else b @ CHR ''-'' # nat_digits (c + 1))"

text \<open>No raw name looks like another one with a number.\<close>

definition plain_raws :: "'d list \<Rightarrow> bool" where
  "plain_raws ds \<longleftrightarrow> (\<forall>d\<in>set ds. \<forall>e\<in>set ds. \<forall>n. raw d \<noteq> raw e @ CHR ''-'' # nat_digits n)"

lemma dash_inject: "b @ CHR ''-'' # nat_digits m = b' @ CHR ''-'' # nat_digits n \<longleftrightarrow> b = b' \<and> m = n"
proof
  have nd: "CHR ''-'' \<notin> set (nat_digits k)" for k
    using nat_digits_digit [of "CHR ''-''" k] by (auto simp: is_digit_def in_range_def byte_def)
  assume e: "b @ CHR ''-'' # nat_digits m = b' @ CHR ''-'' # nat_digits n"
  have t: "takeWhile (\<lambda>x. x \<noteq> CHR ''-'') (rev (a @ CHR ''-'' # nat_digits k)) = rev (nat_digits k)" for a k
  proof -
    have "\<forall>x\<in>set (rev (nat_digits k)). x \<noteq> CHR ''-''" using nd [of k] by auto
    then have "takeWhile (\<lambda>x. x \<noteq> CHR ''-'') (rev (nat_digits k) @ CHR ''-'' # rev a) = rev (nat_digits k)"
      by (subst takeWhile_append2) auto
    then show ?thesis by simp
  qed
  have "rev (nat_digits m) = rev (nat_digits n)" using t [of b m] t [of b' n] e by simp
  then have "b = b' \<and> nat_digits m = nat_digits n" using e by simp
  then show "b = b' \<and> m = n" by (simp add: nat_digits_inject)
qed simp

lemma numbered_inject:
  assumes "\<And>n. b \<noteq> b' @ CHR ''-'' # nat_digits n" "\<And>n. b' \<noteq> b @ CHR ''-'' # nat_digits n"
  shows "numbered b c = numbered b' c' \<longleftrightarrow> b = b' \<and> c = c'"
  using assms dash_inject by (auto simp: numbered_def)

definition count_raw :: "'d list \<Rightarrow> string \<Rightarrow> nat" where
  "count_raw ds b = length (filter (\<lambda>d. raw d = b) ds)"

inductive built :: "'d list \<Rightarrow> bool" where
  built_Nil: "built []"
| built_snoc: "built ds \<Longrightarrow> built (ds @ [build ds x])"

lemma built_fold: "built ds \<Longrightarrow> built (fold (\<lambda>x ds. ds @ [build ds x]) xs ds)"
  by (induction xs arbitrary: ds) (auto intro: built_snoc)

text \<open>With plain raw names, the number of a device is how many had its raw name before.\<close>

lemma built_names:
  "built ds \<Longrightarrow> plain_raws ds \<Longrightarrow>
   distinct (map name ds) \<and> (\<forall>d\<in>set ds. \<exists>c<count_raw ds (raw d). name d = numbered (raw d) c) \<and>
   (\<forall>d\<in>set ds. raw d \<in> set (map name ds))"
proof (induction rule: built.induct)
  case (built_snoc ds x)
  let ?n = "build ds x" and ?b = "raw (build ds x)"
  have pr: "plain_raws ds" using built_snoc.prems by (auto simp: plain_raws_def)
  note IH = built_snoc.IH [OF pr]
  have plain: "\<And>n. ?b \<noteq> raw d @ CHR ''-'' # nat_digits n" "\<And>n. raw d \<noteq> ?b @ CHR ''-'' # nat_digits n"
    if "d \<in> set ds" for d using built_snoc.prems that by (auto simp: plain_raws_def)
  have taken: "?b \<in> set (map name ds) \<longleftrightarrow> count_raw ds ?b \<noteq> 0"
  proof
    assume "?b \<in> set (map name ds)"
    then obtain d c where d: "d \<in> set ds" "?b = numbered (raw d) c" using IH by fastforce
    then have "c = 0" using plain(1) [OF d(1)] by (auto simp: numbered_def split: if_splits)
    then show "count_raw ds ?b \<noteq> 0" using d by (auto simp: numbered_def count_raw_def filter_empty_conv)
  next
    assume "count_raw ds ?b \<noteq> 0"
    then obtain d where "d \<in> set ds" "raw d = ?b" by (auto simp: count_raw_def filter_empty_conv)
    then show "?b \<in> set (map name ds)" using IH by force
  qed
  have "map fst (map (\<lambda>d. (name d, raw d)) ds) = map name ds" by (simp add: comp_def)
  moreover have "length (filter (\<lambda>(_, r). r = ?b) (map (\<lambda>d. (name d, raw d)) ds)) = count_raw ds ?b"
    by (simp add: count_raw_def filter_map comp_def)
  ultimately have nm: "name ?n = numbered ?b (count_raw ds ?b)"
    using taken unfolding name_build pick_name_def numbered_def by simp
  have new: "name ?n \<notin> set (map name ds)"
  proof
    assume "name ?n \<in> set (map name ds)"
    then obtain d c where "d \<in> set ds" "c < count_raw ds (raw d)" "numbered ?b (count_raw ds ?b) = numbered (raw d) c"
      using IH nm by fastforce
    then show False using numbered_inject [OF plain] by auto
  qed
  have grow: "count_raw (ds @ [?n]) b = count_raw ds b + (if b = ?b then 1 else 0)" for b
    by (simp add: count_raw_def)
  have "\<exists>c<count_raw (ds @ [?n]) (raw d). name d = numbered (raw d) c" if d: "d \<in> set (ds @ [?n])" for d
  proof (cases "d \<in> set ds")
    case True
    then obtain c where "c < count_raw ds (raw d)" "name d = numbered (raw d) c" using IH by blast
    then show ?thesis by (intro exI [of _ c]) (simp add: grow)
  next
    case False
    then have "d = ?n" using d by simp
    then show ?thesis using nm by (intro exI [of _ "count_raw ds ?b"]) (simp add: grow)
  qed
  moreover have "?b \<in> set (map name (ds @ [?n]))"
    using nm taken by (cases "count_raw ds ?b = 0") (simp_all add: numbered_def)
  then have "\<forall>d\<in>set (ds @ [?n]). raw d \<in> set (map name (ds @ [?n]))" using IH by auto
  ultimately show ?case using IH new by simp
qed simp

lemma names_distinct:
  "plain_raws (fold (\<lambda>x ds. ds @ [build ds x]) xs []) \<Longrightarrow> distinct (map name (fold (\<lambda>x ds. ds @ [build ds x]) xs []))"
  using built_names [OF built_fold [OF built_Nil]] by blast

end

interpretation disk_names: named_devices vd_name vd_raw read_disk
  by unfold_locales (simp add: read_disk_def Let_def)

interpretation nic_names: named_devices vn_name vn_raw "read_nic guest_nics" for guest_nics
  by unfold_locales (simp add: read_nic_def Let_def)

text \<open>The devices of a list are built one by one.\<close>

lemma read_devices_built:
  "disk_names.built (fst st) \<Longrightarrow> nic_names.built gs (snd st) \<Longrightarrow>
   disk_names.built (fst (fold (read_device gs) ds st)) \<and> nic_names.built gs (snd (fold (read_device gs) ds st))"
proof (induction ds arbitrary: st)
  case (Cons d ds)
  have "disk_names.built (fst (read_device gs d st))" "nic_names.built gs (snd (read_device gs d st))"
    using Cons.prems by (auto simp: read_device_def Let_def split: option.split prod.split
        intro: disk_names.built_snoc nic_names.built_snoc)
  then show ?case using Cons.IH by simp
qed simp

lemma place_primary_names [simp]:
  "map vn_name (place_primary ip nics) = map vn_name nics" "map vn_raw (place_primary ip nics) = map vn_raw nics"
  by (cases nics; simp add: place_primary_def)+

lemma read_vm_devices:
  obtains gs ds where "vh_disks (read_vm vm a) = fst (fold (read_device gs) ds ([], []))"
    "vh_nics (read_vm vm a) = place_primary (vh_ip (read_vm vm a)) (snd (fold (read_device gs) ds ([], [])))"
  by (simp add: read_vm_def Let_def split_beta)

definition suffixed :: "string list \<Rightarrow> bool" where
  "suffixed raws \<longleftrightarrow> (\<exists>r\<in>set raws. \<exists>r'\<in>set raws. \<exists>n. r = r' @ CHR ''-'' # nat_digits n)"

text \<open>C34: Devices that share a file or network name are told apart. In every inventory, the disks
  have pairwise different names, and so have the interfaces, unless one device's raw name is
  another's followed by a dash and a number.\<close>

theorem device_names_distinct:
  assumes "parse_vmware_hardware out asked = Some hw"
  shows "(\<not> suffixed (map vd_raw (vh_disks hw)) \<longrightarrow> distinct (map vd_name (vh_disks hw))) \<and>
    (\<not> suffixed (map vn_raw (vh_nics hw)) \<longrightarrow> distinct (map vn_name (vh_nics hw)))"
proof -
  obtain vm where "hw = read_vm vm asked"
    using assms by (auto simp: parse_vmware_hardware_def split: option.splits list.splits json.splits)
  then obtain gs devices disks nics ip where
    st: "fold (read_device gs) devices ([], []) = (disks, nics)" and
    hw: "vh_disks hw = disks" "vh_nics hw = place_primary ip nics"
    using read_vm_devices [of vm asked] by (metis prod.collapse)
  have b: "disk_names.built disks" "nic_names.built gs nics"
    using read_devices_built [of "([], [])" gs devices] st disk_names.built_Nil nic_names.built_Nil by auto
  have "distinct (map vd_name disks)" if "\<not> suffixed (map vd_raw disks)"
    using disk_names.built_names [OF b(1)] that by (auto simp: disk_names.plain_raws_def suffixed_def)
  moreover have "distinct (map vn_name nics)" if "\<not> suffixed (map vn_raw nics)"
    using nic_names.built_names [OF b(2)] that by (auto simp: nic_names.plain_raws_def suffixed_def)
  ultimately show ?thesis using hw by simp
qed

definition sample_disk :: "string \<Rightarrow> json" where
  "sample_disk file = JObj [(''deviceInfo'', JObj [(''label'', JStr ''Hard disk'')]),
     (''backing'', JObj [(''fileName'', JStr file)])]"

definition sample_vm :: "string list \<Rightarrow> json option" where
  "sample_vm files = Some (JObj [(''virtualMachines'', JArr [JObj [(''config'',
     JObj [(''hardware'', JObj [(''device'', JArr (map sample_disk files))])])]])])"

theorem device_names_distinct_witness:
  "\<exists>hw. parse_vmware_hardware (sample_vm [''a'', ''b'', ''a'']) ''v'' = Some hw \<and> distinct (map vd_name (vh_disks hw)) \<and>
     map vd_raw (vh_disks hw) = [''a'', ''b'', ''a'']"
proof -
  have "map_option (map vd_raw \<circ> vh_disks) (parse_vmware_hardware (sample_vm [''a'', ''b'', ''a'']) ''v'') = Some [''a'', ''b'', ''a'']"
    by code_simp
  then obtain hw where hw: "parse_vmware_hardware (sample_vm [''a'', ''b'', ''a'']) ''v'' = Some hw"
    "map vd_raw (vh_disks hw) = [''a'', ''b'', ''a'']" by auto
  have "\<not> suffixed [''a'', ''b'', ''a'']" by (auto simp: suffixed_def)
  then show ?thesis using device_names_distinct [OF hw(1)] hw by auto
qed

text \<open>Without that condition names do collide: disks backed by \<open>a-2\<close>, \<open>a\<close> and again \<open>a\<close>, in this
  order, are reported under two names only, the first and the third both as \<open>a-2\<close>.\<close>

theorem device_names_collide:
  "map_option (map vd_name \<circ> vh_disks) (parse_vmware_hardware (sample_vm [''a-2'', ''a'', ''a'']) ''v'') =
     Some [''a-2'', ''a'', ''a-2'']"
  by code_simp

text \<open>The address a guest reports as its main one is never lost: when the machine has an
  interface at all, some interface of the inventory carries it, no interface loses an address,
  and only the first one gains any.\<close>

theorem primary_ip_placed:
  assumes "parse_vmware_hardware out asked = Some hw" "vh_ip hw \<noteq> []" "vh_nics hw \<noteq> []"
  shows "list_ex (\<lambda>n. has_ip (vn_ips n) (vh_ip hw)) (vh_nics hw) \<and>
    (\<exists>nics. vh_nics hw = place_primary (vh_ip hw) nics \<and> tl (vh_nics hw) = tl nics \<and>
       prefix (vn_ips (hd nics)) (vn_ips (hd (vh_nics hw))))"
proof -
  obtain vm where "hw = read_vm vm asked"
    using assms(1) by (auto simp: parse_vmware_hardware_def split: option.splits list.splits json.splits)
  then obtain nics where n: "vh_nics hw = place_primary (vh_ip hw) nics"
    using read_vm_devices [of vm asked] by metis
  then obtain x xs where "nics = x # xs" using assms(3) by (cases nics) (auto simp: place_primary_def)
  then show ?thesis using assms(2) unfolding n
    by (intro conjI exI [of _ nics]) (auto simp: place_primary_def has_ip_def)
qed

definition sample_guest :: "json option" where
  "sample_guest = Some (JObj [(''virtualMachines'', JArr [JObj [(''guest'', JObj [(''ipAddress'', JStr ''10.0.0.5'')]),
     (''config'', JObj [(''hardware'', JObj [(''device'', JArr [JObj [(''macAddress'', JStr ''aa'')]])])])]])])"

theorem primary_ip_placed_witness:
  "\<exists>hw. parse_vmware_hardware sample_guest [] = Some hw \<and> list_ex (\<lambda>n. has_ip (vn_ips n) ''10.0.0.5'') (vh_nics hw)"
proof -
  have "map_option (\<lambda>hw. (vh_ip hw, length (vh_nics hw))) (parse_vmware_hardware sample_guest []) = Some (''10.0.0.5'', 1)"
    by code_simp
  then obtain hw where "parse_vmware_hardware sample_guest [] = Some hw" "vh_ip hw = ''10.0.0.5''" "length (vh_nics hw) = 1"
    by auto
  then show ?thesis using primary_ip_placed [of sample_guest "[]" hw] by (metis length_0_conv list.distinct(1) zero_neq_one)
qed

end
