(* ===== verification/AgentJobs.thy ===== *)
theory AgentJobs
  imports JobOutput CustomCommands VMwareHardware RpcTypes
begin

text \<open>
  The jobs of a satellite, the \<open>execute...\<close> and \<open>run...Command\<close> functions of \<open>agent/client.go\<close> and
  \<open>agent/vmware_hardware.go\<close>: decoding and validating the parameters, running the tool with its
  argument vector, environment and deadline, and reading what it prints. The machine is the
  argument \<open>ho\<close> (theory Host). A result that cannot be marshalled, because it holds an
  infinity, is \<open>None\<close>. Of the exit status only the text is used; the formatting around it is
  Go's \<open>%v\<close> and \<open>%q\<close>, arguments of the model.
\<close>

section \<open>Decoding parameters\<close>

definition zero_ping :: ping_params where
  "zero_ping = \<lparr>pg_host = [], pg_count = 0, pg_timeout = 0\<rparr>"

definition dec_ping_params :: "ping_params decoder" where
  "dec_ping_params = dec_struct (\<lambda>p kvs.
     case (field ''host'' dec_string (pg_host p) kvs, field ''count'' dec_int (pg_count p) kvs,
           field ''timeout'' dec_int (pg_timeout p) kvs) of
       (Some h, Some c, Some t) \<Rightarrow> Some \<lparr>pg_host = h, pg_count = c, pg_timeout = t\<rparr>
     | _ \<Rightarrow> None)"

definition zero_traceroute :: traceroute_params where
  "zero_traceroute = \<lparr>tr_host = [], tr_max_hops = 0, tr_timeout = 0\<rparr>"

definition dec_traceroute_params :: "traceroute_params decoder" where
  "dec_traceroute_params = dec_struct (\<lambda>p kvs.
     case (field ''host'' dec_string (tr_host p) kvs, field ''max_hops'' dec_int (tr_max_hops p) kvs,
           field ''timeout'' dec_int (tr_timeout p) kvs) of
       (Some h, Some m, Some t) \<Rightarrow> Some \<lparr>tr_host = h, tr_max_hops = m, tr_timeout = t\<rparr>
     | _ \<Rightarrow> None)"

definition zero_snmp :: snmp_params where
  "zero_snmp = \<lparr>sn_version = [], sn_target = [], sn_community = [], sn_oid = [], sn_timeout = 0,
     sn_sec_level = [], sn_sec_name = [], sn_auth_protocol = [], sn_auth_passphrase = [],
     sn_priv_protocol = [], sn_priv_passphrase = [], sn_context_name = [], sn_engine_id = []\<rparr>"

text \<open>A string field set in a record that is decoded field by field.\<close>

definition set_field :: "string \<Rightarrow> 'b decoder \<Rightarrow> ('a \<Rightarrow> 'b) \<Rightarrow> ('b \<Rightarrow> 'a \<Rightarrow> 'a) \<Rightarrow>
    (string \<times> json) list \<Rightarrow> 'a \<Rightarrow> 'a option" where
  "set_field name d get put kvs r = map_option (\<lambda>v. put v r) (field name d (get r) kvs)"

definition dec_snmp_params :: "snmp_params decoder" where
  "dec_snmp_params = dec_struct (\<lambda>p kvs. fold (\<lambda>f r. Option.bind r (f kvs))
     [set_field ''version'' dec_string sn_version (\<lambda>v r. r\<lparr>sn_version := v\<rparr>),
      set_field ''target'' dec_string sn_target (\<lambda>v r. r\<lparr>sn_target := v\<rparr>),
      set_field ''community'' dec_string sn_community (\<lambda>v r. r\<lparr>sn_community := v\<rparr>),
      set_field ''oid'' dec_string sn_oid (\<lambda>v r. r\<lparr>sn_oid := v\<rparr>),
      set_field ''timeout'' dec_int sn_timeout (\<lambda>v r. r\<lparr>sn_timeout := v\<rparr>),
      set_field ''sec_level'' dec_string sn_sec_level (\<lambda>v r. r\<lparr>sn_sec_level := v\<rparr>),
      set_field ''sec_name'' dec_string sn_sec_name (\<lambda>v r. r\<lparr>sn_sec_name := v\<rparr>),
      set_field ''auth_protocol'' dec_string sn_auth_protocol (\<lambda>v r. r\<lparr>sn_auth_protocol := v\<rparr>),
      set_field ''auth_passphrase'' dec_string sn_auth_passphrase (\<lambda>v r. r\<lparr>sn_auth_passphrase := v\<rparr>),
      set_field ''priv_protocol'' dec_string sn_priv_protocol (\<lambda>v r. r\<lparr>sn_priv_protocol := v\<rparr>),
      set_field ''priv_passphrase'' dec_string sn_priv_passphrase (\<lambda>v r. r\<lparr>sn_priv_passphrase := v\<rparr>),
      set_field ''context_name'' dec_string sn_context_name (\<lambda>v r. r\<lparr>sn_context_name := v\<rparr>),
      set_field ''engine_id'' dec_string sn_engine_id (\<lambda>v r. r\<lparr>sn_engine_id := v\<rparr>)] (Some p))"

definition dec_vmware_fields :: "(string \<times> json) list \<Rightarrow> ('a) vmware_params_scheme \<Rightarrow> ('a) vmware_params_scheme option" where
  "dec_vmware_fields kvs p = fold (\<lambda>f r. Option.bind r (f kvs))
     [set_field ''host'' dec_string vm_host (\<lambda>v r. r\<lparr>vm_host := v\<rparr>),
      set_field ''username'' dec_string vm_username (\<lambda>v r. r\<lparr>vm_username := v\<rparr>),
      set_field ''password'' dec_string vm_password (\<lambda>v r. r\<lparr>vm_password := v\<rparr>),
      set_field ''timeout'' dec_int vm_timeout (\<lambda>v r. r\<lparr>vm_timeout := v\<rparr>)] (Some p)"

definition zero_vmware :: vmware_params where
  "zero_vmware = \<lparr>vm_host = [], vm_username = [], vm_password = [], vm_timeout = 0\<rparr>"

definition dec_vmware_params :: "vmware_params decoder" where
  "dec_vmware_params = dec_struct (\<lambda>p kvs. dec_vmware_fields kvs p)"

definition zero_vmware_hw :: vmware_hw_params where
  "zero_vmware_hw = \<lparr>vm_host = [], vm_username = [], vm_password = [], vm_timeout = 0, vm_name = [], vm_uuid = []\<rparr>"

text \<open>The fields of an embedded struct are fields of the outer one.\<close>

definition dec_vmware_hw_params :: "vmware_hw_params decoder" where
  "dec_vmware_hw_params = dec_struct (\<lambda>p kvs. Option.bind (dec_vmware_fields kvs p) (\<lambda>p.
     Option.bind (set_field ''vm_name'' dec_string vm_name (\<lambda>v r. r\<lparr>vm_name := v\<rparr>) kvs p)
       (set_field ''uuid'' dec_string vm_uuid (\<lambda>v r. r\<lparr>vm_uuid := v\<rparr>) kvs)))"

section \<open>The common frame of a job\<close>

text \<open>Decode, validate, run, each with its error prefix.\<close>

definition run_validated ::
  "host \<Rightarrow> 'a decoder \<Rightarrow> 'a \<Rightarrow> ('a \<Rightarrow> 'a res) \<Rightarrow> string \<Rightarrow> ('a \<Rightarrow> json option res) \<Rightarrow> json option \<Rightarrow> json option res" where
  "run_validated ho dec zero validate label run raw =
     (case unmarshal dec zero raw of
        None \<Rightarrow> Inl (''failed to parse params: '' @ ho_json_error ho raw)
      | Some p \<Rightarrow> res_bind (res_map_err (\<lambda>e. ''validation failed: '' @ e) (validate p))
          (\<lambda>q. res_map_err (\<lambda>e. label @ e) (run q)))"

definition failed_with :: "host \<Rightarrow> string \<Rightarrow> string \<Rightarrow> string \<Rightarrow> string" where
  "failed_with ho what e out = what @ '' (exit status '' @ e @ '', output: '' @ ho_quote ho out @ '')''"

section \<open>Ping and traceroute\<close>

definition run_ping :: "host \<Rightarrow> ping_params \<Rightarrow> json option res" where
  "run_ping ho p =
     (case ho_combined ho ''ping'' (ping_argv p) [] (pg_timeout p) of
        (Some e, out) \<Rightarrow> Inl (failed_with ho ''ping command failed'' e out)
      | (None, out) \<Rightarrow> res_bind (parse_ping_output (pg_host p) out) (\<lambda>r. Inr (enc_ping_result r)))"

definition execute_ping :: "host \<Rightarrow> json option \<Rightarrow> json option res" where
  "execute_ping ho raw =
     run_validated ho dec_ping_params zero_ping ping_validate ''ping execution failed: '' (run_ping ho) raw"

definition run_traceroute :: "host \<Rightarrow> traceroute_params \<Rightarrow> json option res" where
  "run_traceroute ho p =
     (case ho_look_path ho ''traceroute'' of
        Inl _ \<Rightarrow> Inl ''traceroute command not found in PATH''
      | Inr _ \<Rightarrow>
     (case ho_combined ho ''traceroute'' (traceroute_argv p) [] (tr_timeout p) of
        (Some e, out) \<Rightarrow> Inl (failed_with ho ''traceroute failed'' e out)
      | (None, out) \<Rightarrow> Inr (enc_trace_result (parse_trace_output (tr_host p) out))))"

definition execute_traceroute :: "host \<Rightarrow> json option \<Rightarrow> json option res" where
  "execute_traceroute ho raw = run_validated ho dec_traceroute_params zero_traceroute traceroute_validate
     ''traceroute execution failed: '' (run_traceroute ho) raw"

section \<open>SNMP\<close>

definition run_snmp :: "host \<Rightarrow> string \<Rightarrow> snmp_params \<Rightarrow> json option res" where
  "run_snmp ho tool p =
     (case ho_look_path ho tool of
        Inl _ \<Rightarrow> Inl (tool @ '' command not found in PATH'')
      | Inr _ \<Rightarrow>
     (case ho_combined ho tool (build_cli_args p) [] (sn_timeout p) of
        (Some e, out) \<Rightarrow> Inl (failed_with ho (tool @ '' failed'') e out)
      | (None, out) \<Rightarrow> Inr (Some (enc_snmp_result (parse_snmp_output (sn_target p) (sn_oid p) out)))))"

definition execute_snmp_walk :: "host \<Rightarrow> json option \<Rightarrow> json option res" where
  "execute_snmp_walk ho raw = run_validated ho dec_snmp_params zero_snmp snmp_validate
     ''snmpwalk execution failed: '' (run_snmp ho ''snmpwalk'') raw"

definition execute_snmp_get :: "host \<Rightarrow> json option \<Rightarrow> json option res" where
  "execute_snmp_get ho raw = run_validated ho dec_snmp_params zero_snmp snmp_validate
     ''snmpget execution failed: '' (run_snmp ho ''snmpget'') raw"

section \<open>VMware\<close>

text \<open>The program and the environment both VMware jobs run it with. The temporary home is removed
  when the job ends.\<close>

definition govc_path :: "host \<Rightarrow> string res" where
  "govc_path ho =
     (case ho_look_path ho ''govc'' of
        Inr p \<Rightarrow> Inr p
      | Inl _ \<Rightarrow> if ho_exists ho ''/usr/bin/govc'' then Inr ''/usr/bin/govc''
          else Inl ''govc command not found in PATH or /usr/bin/govc'')"

definition govc_home :: "host \<Rightarrow> string res" where
  "govc_home ho = res_map_err (\<lambda>e. ''failed to create temporary govc home: '' @ e)
     (ho_mkdir_temp ho (''govc-satellite-'' @ itoa (ho_uid ho) @ ''-*''))"

definition govc_env :: "('a) vmware_params_scheme \<Rightarrow> string \<Rightarrow> string list" where
  "govc_env p home = [''GOVC_URL=https://'' @ vm_host p @ ''/sdk'', ''GOVC_USERNAME='' @ vm_username p,
     ''GOVC_PASSWORD='' @ vm_password p, ''GOVC_INSECURE=true'', ''GOVC_PERSIST_SESSION=false'',
     ''GOVC_HOME='' @ home, ''HOME='' @ home]"

definition vm_paths :: "string \<Rightarrow> string list" where
  "vm_paths out = filter (\<lambda>l. l \<noteq> [] \<and> l \<noteq> ''/'') (map trim_space (out_lines out))"

text \<open>Batches of fifty.\<close>

definition batch_size :: nat where "batch_size = 50"

function batches :: "'a list \<Rightarrow> 'a list list" where
  "batches xs = (if xs = [] then [] else take batch_size xs # batches (drop batch_size xs))"
  by pat_completeness auto
termination by (relation "measure length") (auto simp: batch_size_def)

declare batches.simps [simp del]

record vm_info =
  vf_power :: string
  vf_name :: string
  vf_uuid :: string
  vf_sum_power :: string
  vf_sum_name :: string
  vf_sum_uuid :: string
  vf_moref :: string

definition zero_vm_info :: vm_info where
  "zero_vm_info = \<lparr>vf_power = [], vf_name = [], vf_uuid = [], vf_sum_power = [], vf_sum_name = [],
     vf_sum_uuid = [], vf_moref = []\<rparr>"

definition dec_power :: "string decoder" where
  "dec_power = dec_struct (\<lambda>p kvs. field ''PowerState'' dec_string p kvs)"

definition dec_name_uuid :: "(string \<times> string) decoder" where
  "dec_name_uuid = dec_struct (\<lambda>p kvs.
     case (field ''Name'' dec_string (fst p) kvs, field ''Uuid'' dec_string (snd p) kvs) of
       (Some n, Some u) \<Rightarrow> Some (n, u) | _ \<Rightarrow> None)"

definition dec_summary :: "(string \<times> string \<times> string) decoder" where
  "dec_summary = dec_struct (\<lambda>p kvs.
     case (field ''Runtime'' dec_power (fst p) kvs, field ''Config'' dec_name_uuid (snd p) kvs) of
       (Some r, Some c) \<Rightarrow> Some (r, c) | _ \<Rightarrow> None)"

definition dec_self :: "string decoder" where
  "dec_self = dec_struct (\<lambda>p kvs. field ''Value'' dec_string p kvs)"

definition dec_vm_info :: "vm_info decoder" where
  "dec_vm_info = dec_struct (\<lambda>v kvs.
     case (field ''Runtime'' dec_power (vf_power v) kvs, field ''Config'' dec_name_uuid (vf_name v, vf_uuid v) kvs,
           field ''Summary'' dec_summary (vf_sum_power v, vf_sum_name v, vf_sum_uuid v) kvs,
           field ''Self'' dec_self (vf_moref v) kvs) of
       (Some p, Some (n, u), Some (sp, sn, su), Some m) \<Rightarrow>
         Some \<lparr>vf_power = p, vf_name = n, vf_uuid = u, vf_sum_power = sp, vf_sum_name = sn,
               vf_sum_uuid = su, vf_moref = m\<rparr>
     | _ \<Rightarrow> None)"

definition dec_vm_infos :: "vm_info list decoder" where
  "dec_vm_infos = dec_struct (\<lambda>vs kvs. field ''VirtualMachines'' (dec_list dec_vm_info zero_vm_info) vs kvs)"

record vm_found =
  vr_moref :: string
  vr_name :: string
  vr_uuid :: string
  vr_power :: string

definition found_vm :: "vm_info \<Rightarrow> vm_found option" where
  "found_vm v =
     (let name = (if vf_name v = [] then vf_sum_name v else vf_name v) in
      if name = [] then None
      else Some \<lparr>vr_moref = vf_moref v, vr_name = name,
                 vr_uuid = (if vf_uuid v = [] then vf_sum_uuid v else vf_uuid v),
                 vr_power = (if vf_power v = [] then vf_sum_power v else vf_power v)\<rparr>)"

definition govc_failed :: "string \<Rightarrow> string \<Rightarrow> string \<Rightarrow> string" where
  "govc_failed cmd e out = ''govc '' @ cmd @ '' failed ('' @ e @ ''): '' @ trim_space out"

text \<open>A batch whose answer is not the expected JSON is skipped; one whose program fails ends the
  job.\<close>

fun discover_batches ::
  "host \<Rightarrow> string \<Rightarrow> string list \<Rightarrow> int \<Rightarrow> string list list \<Rightarrow> vm_found list \<Rightarrow> vm_found list res" where
  "discover_batches ho govc env t [] vms = Inr vms"
| "discover_batches ho govc env t (b # bs) vms =
     (case ho_combined ho govc ([''vm.info'', ''-json''] @ b) env t of
        (Some e, out) \<Rightarrow> Inl (govc_failed ''vm.info'' e out)
      | (None, out) \<Rightarrow>
          (case unmarshal dec_vm_infos [] (ho_parse_json ho out) of
             None \<Rightarrow> discover_batches ho govc env t bs vms
           | Some infos \<Rightarrow> discover_batches ho govc env t bs (vms @ List.map_filter found_vm infos)))"

definition run_vmware_discover :: "host \<Rightarrow> vmware_params \<Rightarrow> vm_found list res" where
  "run_vmware_discover ho p = res_bind (govc_path ho) (\<lambda>govc. res_bind (govc_home ho) (\<lambda>home.
     (case ho_combined ho govc [''find'', ''-i'', ''/'', ''-type'', ''m''] (govc_env p home) (vm_timeout p) of
        (Some e, out) \<Rightarrow> Inl (govc_failed ''find'' e out)
      | (None, out) \<Rightarrow>
          discover_batches ho govc (govc_env p home) (vm_timeout p) (batches (vm_paths out)) [])))"

definition enc_found :: "vm_found \<Rightarrow> json" where
  "enc_found v = JObj [(''moref'', JStr (vr_moref v)), (''name'', JStr (vr_name v)), (''uuid'', JStr (vr_uuid v)),
     (''power_state'', JStr (vr_power v))]"

definition execute_vmware_discover :: "host \<Rightarrow> json option \<Rightarrow> json option res" where
  "execute_vmware_discover ho raw = run_validated ho dec_vmware_params zero_vmware vmware_validate
     ''vmware discovery execution failed: ''
     (\<lambda>p. res_bind (run_vmware_discover ho p) (\<lambda>vms.
        Inr (Some (JObj [(''host'', JStr (vm_host p)), (''vms'', JArr (map enc_found vms))])))) raw"

section \<open>The hardware of a machine\<close>

fun first_line_of :: "string list \<Rightarrow> string" where
  "first_line_of [] = []"
| "first_line_of (l # ls) = (if trim_space l \<noteq> [] then trim_space l else first_line_of ls)"

definition first_line :: "string \<Rightarrow> string" where
  "first_line s = first_line_of (out_lines s)"

definition run_govc :: "host \<Rightarrow> string \<Rightarrow> string list \<Rightarrow> int \<Rightarrow> string list \<Rightarrow> string res" where
  "run_govc ho govc env t args =
     (case ho_combined ho govc args env t of
        (Some e, out) \<Rightarrow> Inl (govc_failed (hd args) e out)
      | (None, out) \<Rightarrow> Inr out)"

text \<open>The machine is asked for by its identifier, or by a managed-object reference given as the
  name, or by the first path that the search for the name finds.\<close>

definition vm_target :: "(string list \<Rightarrow> string res) \<Rightarrow> string \<Rightarrow> string res" where
  "vm_target run name =
     (if \<not> has_prefix name ''vm-'' \<and> \<not> has_prefix name ''VirtualMachine:''
      then res_bind (run [''find'', ''-i'', ''/'', ''-type'', ''m'', ''-name'', name]) (\<lambda>found.
        Inr (if first_line found \<noteq> [] \<and> first_line found \<noteq> ''/'' then first_line found else name))
      else Inr name)"

definition vm_info_output :: "(string list \<Rightarrow> string res) \<Rightarrow> vmware_hw_params \<Rightarrow> string res" where
  "vm_info_output run p =
     (if vm_uuid p \<noteq> [] then run [''vm.info'', ''-json'', ''-vm.uuid'', vm_uuid p]
      else res_bind (vm_target run (vm_name p)) (\<lambda>target. run [''vm.info'', ''-json'', target]))"

definition run_vmware_hardware :: "host \<Rightarrow> vmware_hw_params \<Rightarrow> vm_hardware option res" where
  "run_vmware_hardware ho p = res_bind (govc_path ho) (\<lambda>govc. res_bind (govc_home ho) (\<lambda>home.
     res_bind (vm_info_output (run_govc ho govc (govc_env p home) (vm_timeout p)) p) (\<lambda>out.
       Inr (parse_vmware_hardware (ho_parse_json ho out) (vm_name p)))))"

definition enc_disk :: "vm_disk \<Rightarrow> json" where
  "enc_disk d = JObj ([(''name'', JStr (vd_name d)), (''raw_name'', JStr (vd_raw d)), (''label'', JStr (vd_label d)),
     (''size_mb'', jint (vd_size d))] @ omit_empty ''backing_file'' (vd_file d) @
     omit_empty ''datastore'' (vd_datastore d) @ omit_empty ''vmdk_basename'' (vd_vmdk d))"

definition enc_ip :: "vm_ip \<Rightarrow> json" where
  "enc_ip i = JObj [(''address'', JStr (vi_address i)),
     (''prefix_length'', case vi_prefix i of None \<Rightarrow> JNull | Some n \<Rightarrow> jint n)]"

definition enc_nic :: "vm_nic \<Rightarrow> json" where
  "enc_nic n = JObj ([(''name'', JStr (vn_name n)), (''raw_name'', JStr (vn_raw n)), (''label'', JStr (vn_label n)),
     (''mac_address'', JStr (vn_mac n)), (''connected'', JBool (vn_connected n))] @
     omit_empty ''network_name'' (vn_network n) @ omit_empty ''guest_if_name'' (vn_guest n) @
     [(''ip_addresses'', JArr (map enc_ip (vn_ips n)))])"

definition enc_hardware :: "vm_hardware \<Rightarrow> json" where
  "enc_hardware h = JObj [(''name'', JStr (vh_name h)), (''power_state'', JStr (vh_power h)), (''uuid'', JStr (vh_uuid h)),
     (''guest_os'', JStr (vh_guest_os h)), (''ip_address'', JStr (vh_ip h)), (''vcpus'', jint (vh_vcpus h)),
     (''memory_mb'', jint (vh_memory h)), (''disks'', JArr (map enc_disk (vh_disks h))),
     (''interfaces'', JArr (map enc_nic (vh_nics h)))]"

definition execute_vmware_hardware :: "host \<Rightarrow> json option \<Rightarrow> json option res" where
  "execute_vmware_hardware ho raw = run_validated ho dec_vmware_hw_params zero_vmware_hw vmware_hw_validate
     ''vmware hardware query failed: ''
     (\<lambda>p. res_bind (run_vmware_hardware ho p) (\<lambda>hw. Inr (Some (JObj [(''host'', JStr (vm_host p)),
        (''found'', JBool (hw \<noteq> None)),
        (''hardware'', case hw of None \<Rightarrow> JNull | Some h \<Rightarrow> enc_hardware h)])))) raw"

section \<open>Dispatch\<close>

text \<open>The switch on the method that requests and scheduled tasks share; \<open>None\<close> is an unknown
  method. Custom commands cannot replace the built-in methods.\<close>

definition run_job ::
  "host \<Rightarrow> (string \<times> custom_command) list \<Rightarrow> string \<Rightarrow> json option \<Rightarrow> json option res option" where
  "run_job ho cmds meth params =
     (if meth = ''ping'' then Some (execute_ping ho params)
      else if meth = ''snmpwalk'' then Some (execute_snmp_walk ho params)
      else if meth \<in> {''snmpget'', ''snmp''} then Some (execute_snmp_get ho params)
      else if meth = ''traceroute'' then Some (execute_traceroute ho params)
      else if meth \<in> {''vmware_discover_vms'', ''vmware_list_vms'', ''discover_vmware_vms''}
        then Some (execute_vmware_discover ho params)
      else if meth \<in> {''vmware_get_vm_hardware'', ''vmware_vm_hardware''}
        then Some (execute_vmware_hardware ho params)
      else (case map_of cmds meth of
          None \<Rightarrow> None
        | Some cmd \<Rightarrow> Some (res_bind (execute_custom_command ho meth cmd params) (\<lambda>r. Inr (Some r)))))"

section \<open>What the tools are started with\<close>

text \<open>A safe call: read by an option parser, its arguments are known options with their values and
  exactly the positional arguments of the tool, and a host has the characters of a host.\<close>

definition safe_call :: "string \<Rightarrow> string list \<Rightarrow> bool" where
  "safe_call tool args \<longleftrightarrow>
     (case getopt (if tool = ''ping'' then [''-c'', ''-W''] else if tool = ''traceroute'' then [''-w'', ''-m''] else snmp_opt_names) args of
        Some (_, [h]) \<Rightarrow> tool \<in> {''ping'', ''traceroute''} \<and> list_all safe_host_char h
      | Some (_, [_, _]) \<Rightarrow> tool \<in> {''snmpwalk'', ''snmpget''}
      | _ \<Rightarrow> False)"

text \<open>Two machines that answer alike to safe calls and everywhere else, whatever they do with any
  other call.\<close>

definition same_when_safe :: "host \<Rightarrow> host \<Rightarrow> bool" where
  "same_when_safe ho ho' \<longleftrightarrow>
     (\<exists>combined. ho' = ho\<lparr>ho_combined := combined\<rparr> \<and>
        (\<forall>tool args env t. safe_call tool args \<longrightarrow> combined tool args env t = ho_combined ho tool args env t))"

lemma safe_ping: "ping_validate p = Inr q \<Longrightarrow> safe_call ''ping'' (ping_argv q)"
  by (auto simp: safe_call_def ping_argv_def ping_validate_def Let_def res_bind_Inr_iff list_all_iff
      dest: valid_host_plain valid_host_chars split: if_splits)

lemma safe_traceroute: "traceroute_validate p = Inr q \<Longrightarrow> safe_call ''traceroute'' (traceroute_argv q)"
  by (auto simp: safe_call_def traceroute_argv_def traceroute_validate_def Let_def res_bind_Inr_iff list_all_iff
      dest: valid_host_plain valid_host_chars split: if_splits)

lemma safe_snmp: "snmp_validate p = Inr q \<Longrightarrow> tool \<in> {''snmpwalk'', ''snmpget''} \<Longrightarrow> safe_call tool (build_cli_args q)"
  using snmp_wf_cli [OF snmp_validate_wf [of p q]] by (auto simp: safe_call_def)

lemma run_validated_cong:
  assumes "ho_json_error ho' = ho_json_error ho" "\<And>p q. validate p = Inr q \<Longrightarrow> run' q = run q"
  shows "run_validated ho' dec zero validate label run' raw = run_validated ho dec zero validate label run raw"
proof (cases "unmarshal dec zero raw")
  case (Some p)
  then show ?thesis using assms(2) [of p] by (cases "validate p") (simp_all add: run_validated_def)
qed (simp add: run_validated_def assms(1))

text \<open>C6: No request makes the satellite start a network tool in any other way than as a safe call.
  Two machines that agree on safe calls, and differ arbitrarily on every other argument vector,
  give the same answer to every ping, traceroute and SNMP request, whatever its parameters are,
  well formed or not.\<close>

theorem jobs_make_safe_calls:
  assumes "same_when_safe ho ho'"
  shows "execute_ping ho' raw = execute_ping ho raw \<and> execute_traceroute ho' raw = execute_traceroute ho raw \<and>
    execute_snmp_walk ho' raw = execute_snmp_walk ho raw \<and> execute_snmp_get ho' raw = execute_snmp_get ho raw"
proof -
  obtain f where ho': "ho' = ho\<lparr>ho_combined := f\<rparr>" and f: "\<And>tool args env t. safe_call tool args \<Longrightarrow> f tool args env t = ho_combined ho tool args env t"
    using assms by (auto simp: same_when_safe_def)
  have comb: "ho_combined ho' = f" by (simp add: ho')
  have e: "ho_json_error ho' = ho_json_error ho" "failed_with ho' = failed_with ho" "ho_look_path ho' = ho_look_path ho"
    by (simp_all add: ho' failed_with_def fun_eq_iff)
  have "run_ping ho' q = run_ping ho q" if "ping_validate p = Inr q" for p q
    using f [OF safe_ping [OF that]] unfolding run_ping_def e comb by simp
  moreover have "run_traceroute ho' q = run_traceroute ho q" if "traceroute_validate p = Inr q" for p q
    using f [OF safe_traceroute [OF that]] unfolding run_traceroute_def e comb by (simp split: sum.split)
  moreover have "run_snmp ho' tool q = run_snmp ho tool q"
    if "snmp_validate p = Inr q" "tool \<in> {''snmpwalk'', ''snmpget''}" for p q tool
    using f [OF safe_snmp [OF that]] unfolding run_snmp_def e comb by (simp split: sum.split)
  ultimately show ?thesis
    unfolding execute_ping_def execute_traceroute_def execute_snmp_walk_def execute_snmp_get_def
    by (intro conjI run_validated_cong e) auto
qed

definition evil_host :: host where
  "evil_host = sample_host\<lparr>ho_combined := (\<lambda>tool args env t.
     if safe_call tool args then ho_combined sample_host tool args env t else (None, ''owned''))\<rparr>"

theorem jobs_make_safe_calls_witness:
  "execute_snmp_walk evil_host (Some (JObj [(''target'', JStr ''-Ci'')])) =
   execute_snmp_walk sample_host (Some (JObj [(''target'', JStr ''-Ci'')]))"
proof -
  have "same_when_safe sample_host evil_host" by (auto simp: same_when_safe_def evil_host_def)
  then show ?thesis using jobs_make_safe_calls by blast
qed

section \<open>The deadline of a ping\<close>

text \<open>The tool sends one packet a second: a ping of \<open>n\<close> packets takes at least \<open>n - 1\<close> seconds, and a
  program that is still running at its deadline is killed, which is an error.\<close>

definition ping_takes_time :: "host \<Rightarrow> bool" where
  "ping_takes_time ho \<longleftrightarrow> (\<forall>n w h env t. int64_range n \<and> t < n - 1 \<longrightarrow>
     fst (ho_combined ho ''ping'' [''-c'', itoa n, ''-W'', w, h] env t) \<noteq> None)"

text \<open>The time allowed for one reply is also the deadline of the whole job, so a valid request for
  more packets than seconds plus one always fails, however well the host replies: with the
  default of five seconds, every ping of seven to ten packets.\<close>

theorem long_ping_always_fails:
  assumes "ping_takes_time ho" "unmarshal dec_ping_params zero_ping raw = Some p" "ping_validate p = Inr q"
    and "pg_timeout q < pg_count q - 1"
  shows "\<exists>e. execute_ping ho raw = Inl (''ping execution failed: '' @ e)"
proof -
  have "int64_range (pg_count q)"
    using assms(3) by (auto simp: ping_validate_def Let_def res_bind_Inr_iff default_or_max_Inr int64_range_def split: if_splits)
  then obtain e out where "ho_combined ho ''ping'' (ping_argv q) [] (pg_timeout q) = (Some e, out)"
    using assms(1,4) unfolding ping_takes_time_def ping_argv_def
    by (metis option.exhaust prod.collapse)
  then show ?thesis using assms(2,3) by (simp add: execute_ping_def run_validated_def run_ping_def)
qed

definition slow_host :: host where
  "slow_host = sample_host\<lparr>ho_combined := (\<lambda>tool args env t.
     case args of [_, n, _, _, _] \<Rightarrow> if t < atoi n - 1 then (Some ''signal: killed'', []) else (None, []) | _ \<Rightarrow> (None, []))\<rparr>"

lemma ping_names: "fold_case ''host'' = ''host''" "fold_case ''count'' = ''count''" "fold_case ''timeout'' = ''timeout''"
  by code_simp+

lemma dec_ping_example:
  "int64_range n \<Longrightarrow> unmarshal dec_ping_params zero_ping (Some (JObj [(''host'', JStr h), (''count'', jint n)])) =
     Some \<lparr>pg_host = h, pg_count = n, pg_timeout = 0\<rparr>"
  by (simp add: dec_ping_params_def zero_ping_def codec_defs codec_simps ping_names)

theorem long_ping_always_fails_witness:
  "\<exists>e. execute_ping slow_host (Some (JObj [(''host'', JStr ''10.0.0.1''), (''count'', jint 10)])) =
     Inl (''ping execution failed: '' @ e)"
proof (rule long_ping_always_fails)
  have "atoi (itoa n) = n" if "int64_range n" for n
    using parse_int64_itoa [of n] that by (simp add: atoi_def int64_range_def)
  then show "ping_takes_time slow_host" by (simp add: ping_takes_time_def slow_host_def)
  show "unmarshal dec_ping_params zero_ping (Some (JObj [(''host'', JStr ''10.0.0.1''), (''count'', jint 10)])) =
      Some \<lparr>pg_host = ''10.0.0.1'', pg_count = 10, pg_timeout = 0\<rparr>"
    by (rule dec_ping_example) (simp add: int64_range_def)
  show "ping_validate \<lparr>pg_host = ''10.0.0.1'', pg_count = 10, pg_timeout = 0\<rparr> = Inr \<lparr>pg_host = ''10.0.0.1'', pg_count = 10, pg_timeout = 5\<rparr>"
    by code_simp
qed simp

section \<open>Discovery asks for every machine\<close>

lemma batches_concat: "concat (batches xs) = xs"
  by (induction xs rule: batches.induct) (simp add: batches.simps)

lemma batches_sizes: "b \<in> set (batches xs) \<Longrightarrow> b \<noteq> [] \<and> length b \<le> batch_size"
proof (induction xs rule: batches.induct)
  case (1 xs)
  show ?case
  proof (cases "xs = []")
    case True
    have "batches xs = []" unfolding True by (simp add: batches.simps [of "[]"])
    then show ?thesis using "1.prems" by simp
  next
    case False
    then have "batches xs = take batch_size xs # batches (drop batch_size xs)" by (simp add: batches.simps [of xs])
    then show ?thesis using "1.IH" [OF False] "1.prems" False by (auto simp: batch_size_def)
  qed
qed

text \<open>The machines a batch's answer adds; none when the answer is not the expected document.\<close>

definition batch_vms :: "host \<Rightarrow> string \<Rightarrow> string list \<Rightarrow> int \<Rightarrow> string list \<Rightarrow> vm_found list" where
  "batch_vms ho govc env t b =
     (case unmarshal dec_vm_infos [] (ho_parse_json ho (snd (ho_combined ho govc ([''vm.info'', ''-json''] @ b) env t))) of
        None \<Rightarrow> [] | Some infos \<Rightarrow> List.map_filter found_vm infos)"

lemma discover_batches_result:
  "discover_batches ho govc env t bs vms = Inr r \<longleftrightarrow>
     list_all (\<lambda>b. fst (ho_combined ho govc ([''vm.info'', ''-json''] @ b) env t) = None) bs \<and>
     r = vms @ concat (map (batch_vms ho govc env t) bs)"
proof (induction bs arbitrary: vms)
  case (Cons b bs)
  then show ?case
    by (cases "ho_combined ho govc ([''vm.info'', ''-json''] @ b) env t")
      (auto simp: batch_vms_def split: option.split)
qed auto

text \<open>C33: Discovery covers every machine that the search printed. A successful discovery has asked for
  the printed paths, all of them once and in order, in batches of at most fifty, every batch
  succeeded, and the result lists the machines of the answers in that order.\<close>

theorem discovery_complete:
  assumes "run_vmware_discover ho p = Inr vms"
  shows "\<exists>govc home out bs. govc_path ho = Inr govc \<and> govc_home ho = Inr home \<and>
     ho_combined ho govc [''find'', ''-i'', ''/'', ''-type'', ''m''] (govc_env p home) (vm_timeout p) = (None, out) \<and>
     concat bs = vm_paths out \<and> list_all (\<lambda>b. b \<noteq> [] \<and> length b \<le> 50) bs \<and>
     list_all (\<lambda>b. fst (ho_combined ho govc ([''vm.info'', ''-json''] @ b) (govc_env p home) (vm_timeout p)) = None) bs \<and>
     vms = concat (map (batch_vms ho govc (govc_env p home) (vm_timeout p)) bs)"
proof -
  obtain govc home where gh: "govc_path ho = Inr govc" "govc_home ho = Inr home"
    using assms by (auto simp: run_vmware_discover_def res_bind_Inr_iff)
  obtain e out where c: "ho_combined ho govc [''find'', ''-i'', ''/'', ''-type'', ''m''] (govc_env p home) (vm_timeout p) = (e, out)"
    by fastforce
  have "e = None" "discover_batches ho govc (govc_env p home) (vm_timeout p) (batches (vm_paths out)) [] = Inr vms"
    using assms gh c by (cases e; simp add: run_vmware_discover_def)+
  with gh c have g: "govc_path ho = Inr govc" "govc_home ho = Inr home"
    "ho_combined ho govc [''find'', ''-i'', ''/'', ''-type'', ''m''] (govc_env p home) (vm_timeout p) = (None, out)"
    "discover_batches ho govc (govc_env p home) (vm_timeout p) (batches (vm_paths out)) [] = Inr vms" by simp_all
  then show ?thesis
    using batches_concat [of "vm_paths out"] batches_sizes [of _ "vm_paths out"]
    by (intro exI [of _ govc] exI [of _ home] exI [of _ out] exI [of _ "batches (vm_paths out)"])
      (auto simp: discover_batches_result list_all_iff batch_size_def)
qed

definition vcenter :: host where
  "vcenter = sample_host\<lparr>ho_combined := (\<lambda>_ args _ _. (None, if hd args = ''find'' then ''/dc/vm/a'' else ''doc'')),
     ho_parse_json := (\<lambda>_. Some (JObj [(''virtualMachines'', JArr [JObj [(''config'', JObj [(''name'', JStr ''a'')])]])]))\<rparr>"

theorem discovery_complete_witness:
  "\<exists>bs out. run_vmware_discover vcenter zero_vmware =
      Inr (concat (map (batch_vms vcenter ''/bin/govc'' (govc_env zero_vmware ''/tmp/x'') 0) bs)) \<and> concat bs = vm_paths out \<and> out = ''/dc/vm/a''"
proof -
  have g: "govc_path vcenter = Inr ''/bin/govc''" "govc_home vcenter = Inr ''/tmp/x''"
    by (simp_all add: govc_path_def govc_home_def vcenter_def sample_host_def)
  have c: "fst (ho_combined vcenter govc args env t) = None" for govc args env t by (simp add: vcenter_def)
  have f: "ho_combined vcenter govc (''find'' # args) env t = (None, ''/dc/vm/a'')" for govc args env t
    by (simp add: vcenter_def)
  obtain vms where v: "run_vmware_discover vcenter zero_vmware = Inr vms"
    using discover_batches_result [of vcenter] c
    by (auto simp: run_vmware_discover_def g f zero_vmware_def list_all_iff)
  from discovery_complete [OF v] show ?thesis using g f v by (auto simp: zero_vmware_def)
qed

end
