(* ===== verification/AgentClient.thy ===== *)
theory AgentClient
  imports AgentJobs DiskCache KeyFiles
begin

text \<open>
  The satellite, \<open>Agent\<close> of \<open>agent/client.go\<close>: its state, how it starts and authenticates, what
  it answers to a message of the hub, and the operations of its scheduler and of its cache of
  results. The goroutines and their interleaving are in theory AgentRun.

  Files are JSON documents (theory DiskCache). How a write ends is an argument \<open>w\<close>. The channel
  \<open>triggerFlush\<close> holds at most one signal, a boolean. A cancellation context of the scheduler is
  the number of \<open>SyncSchedules\<close> calls before it: it is cancelled when a later one was made or
  the satellite was stopped.
\<close>

section \<open>State\<close>

datatype runner_phase = Begun | AtFirst nat | AtTick nat | InJob | InOneOff | Ended

record runner =
  rn_task :: scheduled_task
  rn_phase :: runner_phase

datatype loop_phase = AtTop | Dialing | Dialed | Serving | Draining | BackingOff | Left

record agent =
  ag_urls :: "string list"
  ag_idx :: nat
  ag_token :: string
  ag_id :: string
  ag_key :: "string option"
  ag_closed :: bool
  ag_session :: bool
  ag_conn :: bool
  ag_loop :: loop_phase
  ag_backoff :: int
  ag_jobs :: "json option list"
  ag_out :: "json list"
  ag_trigger :: bool
  ag_flushing :: "nat option"
  ag_schedules :: "scheduled_task list"
  ag_epoch :: nat
  ag_runners :: "runner list"
  ag_panicked :: bool
  ag_disk :: disk
  ag_cache_path :: string
  ag_sched_path :: string
  ag_insecure :: bool
  ag_commands :: "(string \<times> custom_command) list"

section \<open>Starting\<close>

definition parse_hub_urls :: "string \<Rightarrow> string list" where
  "parse_hub_urls s =
     (let urls = filter (\<lambda>u. u \<noteq> []) (map trim_space (split_on CHR '','' s))
      in if urls = [] then [''ws://localhost:8080/ws''] else urls)"

definition default_cache_path :: string where
  "default_cache_path = ''redborder-satellite-cache.json''"

definition schedules_cache_path :: string where
  "schedules_cache_path = ''redborder-satellite-schedules.json''"

text \<open>Schedules of an earlier run; a file that is missing, unreadable or broken counts as none.\<close>

definition stored_schedules :: "disk \<Rightarrow> string \<Rightarrow> scheduled_task list" where
  "stored_schedules d p =
     (case d p of
        None \<Rightarrow> []
      | Some f \<Rightarrow>
          if df_error f \<noteq> None then []
          else (case unmarshal dec_tasks [] (df_doc f) of None \<Rightarrow> [] | Some ts \<Rightarrow> ts))"

definition new_agent :: "disk \<Rightarrow> string \<Rightarrow> string \<Rightarrow> string \<Rightarrow> string option \<Rightarrow> string \<Rightarrow> agent" where
  "new_agent d hub_url tok agent_id key cache_path =
     \<lparr>ag_urls = parse_hub_urls hub_url, ag_idx = 0, ag_token = tok, ag_id = agent_id, ag_key = key,
      ag_closed = False, ag_session = False, ag_conn = False, ag_loop = AtTop, ag_backoff = 1,
      ag_jobs = [], ag_out = [], ag_trigger = False, ag_flushing = None,
      ag_schedules = stored_schedules d schedules_cache_path, ag_epoch = 0, ag_runners = [],
      ag_panicked = False, ag_disk = d,
      ag_cache_path = (if cache_path = [] then default_cache_path else cache_path),
      ag_sched_path = schedules_cache_path, ag_insecure = False, ag_commands = []\<rparr>"

definition set_custom_commands :: "(string \<times> custom_command) list \<Rightarrow> agent \<Rightarrow> agent" where
  "set_custom_commands cmds a = a\<lparr>ag_commands := cmds\<rparr>"

definition set_insecure :: "bool \<Rightarrow> agent \<Rightarrow> agent" where
  "set_insecure b a = a\<lparr>ag_insecure := b\<rparr>"

section \<open>The connection\<close>

text \<open>The headers of the handshake; \<open>pub_of\<close> gives the public half of a private key.\<close>

definition connect_headers :: "crypto \<Rightarrow> (string \<Rightarrow> string) \<Rightarrow> int \<Rightarrow> agent \<Rightarrow> (string \<times> string) list" where
  "connect_headers cr pub_of now a =
     [(''X-Agent-Token'', ag_token a), (''X-Agent-ID'', ag_id a)] @
     (case ag_key a of
        None \<Rightarrow> []
      | Some k \<Rightarrow> [(''X-Agent-Timestamp'', itoa now),
          (''X-Agent-Signature'', sign_challenge cr k (ag_id a) (itoa now)),
          (''X-Agent-PublicKey'', b64_encode std_encoding (pub_of k))])"

text \<open>The address the loop dials next; \<open>None\<close> is an index out of range.\<close>

definition current_url :: "agent \<Rightarrow> string option" where
  "current_url a = (if ag_idx a < length (ag_urls a) then Some (ag_urls a ! ag_idx a) else None)"

text \<open>After an error, which every end of a connection is, the next address is due; \<open>None\<close> is the
  division by zero of an empty list.\<close>

definition switch_hub :: "agent \<Rightarrow> agent option" where
  "switch_hub a =
     (if ag_urls a = [] then None
      else Some (a\<lparr>ag_idx := (ag_idx a + 1) mod length (ag_urls a), ag_loop := BackingOff\<rparr>))"

definition max_backoff :: int where "max_backoff = 30"

definition next_backoff :: "int \<Rightarrow> int" where
  "next_backoff b = (if 2 * b > max_backoff then max_backoff else 2 * b)"

text \<open>\<open>Stop\<close>: the connection is closed when there is a session to close it by.\<close>

definition stop_agent :: "agent \<Rightarrow> agent" where
  "stop_agent a =
     (if ag_closed a then a
      else a\<lparr>ag_closed := True, ag_conn := (ag_conn a \<and> \<not> ag_session a)\<rparr>)"

section \<open>The scheduler\<close>

definition server_runners :: "agent \<Rightarrow> runner list" where
  "server_runners a = map (\<lambda>t. \<lparr>rn_task = t, rn_phase = Begun\<rparr>) (ag_schedules a)"

text \<open>The part of \<open>Start\<close> before its loop.\<close>

definition start_agent :: "agent \<Rightarrow> agent" where
  "start_agent a = a\<lparr>ag_epoch := Suc (ag_epoch a), ag_runners := ag_runners a @ server_runners a\<rparr>"

text \<open>\<open>doc\<close> is the list as it is marshalled: a nil slice is \<open>null\<close>.\<close>

definition sync_schedules :: "write_outcome \<Rightarrow> json \<Rightarrow> scheduled_task list \<Rightarrow> agent \<Rightarrow> agent" where
  "sync_schedules w doc ts a =
     (let b = a\<lparr>ag_disk := fst (write_doc w (ag_disk a) (ag_sched_path a) doc), ag_schedules := ts\<rparr>
      in b\<lparr>ag_epoch := Suc (ag_epoch b), ag_runners := ag_runners b @ server_runners b\<rparr>)"

definition task_result :: "int \<Rightarrow> agent \<Rightarrow> scheduled_task \<Rightarrow> json option res \<Rightarrow> metric_submission" where
  "task_result now a t r =
     \<lparr>ms_task_id = st_id t, ms_agent_id = ag_id a, ms_method = st_method t, ms_timestamp = now,
      ms_result = (case r of Inr j \<Rightarrow> j | Inl _ \<Rightarrow> None), ms_error = (case r of Inl e \<Rightarrow> e | Inr _ \<Rightarrow> [])\<rparr>"

definition run_scheduled_task :: "host \<Rightarrow> write_outcome \<Rightarrow> int \<Rightarrow> agent \<Rightarrow> scheduled_task \<Rightarrow> agent" where
  "run_scheduled_task ho w now a t =
     (case run_job ho (ag_commands a) (st_method t) (st_params t) of
        None \<Rightarrow> a
      | Some r \<Rightarrow>
          (case cache_add w (ag_disk a) (ag_cache_path a) (task_result now a t r) of
             (d, None) \<Rightarrow> a\<lparr>ag_disk := d, ag_trigger := True\<rparr>
           | (d, Some _) \<Rightarrow> a\<lparr>ag_disk := d\<rparr>))"

text \<open>\<open>time.NewTicker\<close> panics on a duration that is not positive; the product is 64-bit.\<close>

definition ticker_ok :: "scheduled_task \<Rightarrow> bool" where
  "ticker_ok t \<longleftrightarrow> wrap64 (st_interval t * 1000000000) > 0"

text \<open>The phase a goroutine of the scheduler starts in; \<open>None\<close> is the panic.\<close>

definition begin_runner :: "agent \<Rightarrow> scheduled_task \<Rightarrow> runner_phase option" where
  "begin_runner a t =
     (if st_interval t \<le> 0 then Some InOneOff
      else if \<not> ticker_ok t then None
      else Some (AtFirst (ag_epoch a)))"

definition cancelled :: "agent \<Rightarrow> nat \<Rightarrow> bool" where
  "cancelled a e \<longleftrightarrow> e \<noteq> ag_epoch a \<or> ag_closed a"

section \<open>Handing over results\<close>

definition submit_request :: "metric_submission \<Rightarrow> json" where
  "submit_request m = enc_request \<lparr>rq_jsonrpc = ''2.0'', rq_method = ''submit_metric'',
     rq_params = Some (enc_metric m),
     rq_id = Some (JStr (''metric-'' @ itoa (ms_timestamp m) @ ''-'' @ ms_task_id m))\<rparr>"

text \<open>The results that are written before a write fails.\<close>

fun send_metrics :: "bool list \<Rightarrow> metric_submission list \<Rightarrow> json list" where
  "send_metrics (True # oks) (m # ms) = submit_request m # send_metrics oks ms"
| "send_metrics _ _ = []"

text \<open>\<open>flushCache\<close> in two parts, as results may be added between them: reading and sending,
  and dropping what was sent.\<close>

definition flush_send :: "bool list \<Rightarrow> agent \<Rightarrow> agent" where
  "flush_send oks a =
     (if \<not> ag_session a then a
      else (case cache_pop_all (ag_disk a) (ag_cache_path a) of
              Inl _ \<Rightarrow> a
            | Inr subs \<Rightarrow> (let sent = send_metrics oks subs in
                a\<lparr>ag_out := ag_out a @ sent, ag_flushing := Some (length sent)\<rparr>)))"

definition flush_drop :: "write_outcome \<Rightarrow> string option \<Rightarrow> agent \<Rightarrow> agent" where
  "flush_drop w rm a =
     (case ag_flushing a of
        None \<Rightarrow> a
      | Some n \<Rightarrow>
          (if 0 < n then a\<lparr>ag_disk := fst (cache_remove_oldest w rm (ag_disk a) (ag_cache_path a) n)\<rparr> else a)
            \<lparr>ag_flushing := None\<rparr>)"

section \<open>Messages of the hub\<close>

text \<open>A response, such as the confirmation of a result, is dropped.\<close>

definition is_response :: "json option \<Rightarrow> bool" where
  "is_response msg =
     (case unmarshal dec_response zero_response msg of
        None \<Rightarrow> False
      | Some resp \<Rightarrow> rs_result resp \<noteq> None \<or> rs_error resp \<noteq> None)"

definition success_response :: "json option \<Rightarrow> json" where
  "success_response rid =
     (case new_rpc_response rid (Inr (JStr ''success'')) of Inl _ \<Rightarrow> JNull | Inr resp \<Rightarrow> enc_response resp)"

definition error_response :: "json option \<Rightarrow> int \<Rightarrow> string \<Rightarrow> json option \<Rightarrow> json" where
  "error_response rid code text data = enc_response (new_rpc_error_response rid code text data)"

definition job_response :: "json option \<Rightarrow> json option res \<Rightarrow> json" where
  "job_response rid r =
     (case r of
        Inl e \<Rightarrow> error_response rid err_internal_error e None
      | Inr j \<Rightarrow>
     (case new_rpc_response rid (case j of None \<Rightarrow> Inl ''json: unsupported value'' | Some v \<Rightarrow> Inr v) of
        Inl _ \<Rightarrow> error_response rid err_internal_error ''Failed to marshal response result'' None
      | Inr resp \<Rightarrow> enc_response resp))"

text \<open>\<open>handleRequest\<close>: the new state, and the message that is written to the session, if any.\<close>

definition agent_handle_request ::
  "host \<Rightarrow> write_outcome \<Rightarrow> agent \<Rightarrow> json option \<Rightarrow> agent \<times> json option" where
  "agent_handle_request ho w a msg =
     (if is_response msg then (a, None)
      else (case unmarshal dec_request zero_request msg of
        None \<Rightarrow> (a, Some (error_response None err_parse_error ''Parse error'' (Some (JStr (ho_json_error ho msg)))))
      | Some req \<Rightarrow>
     (let rid = rq_id req; params = rq_params req;
          invalid = error_response rid err_invalid_params ''Invalid params'' (Some (JStr (ho_json_error ho params))) in
      if rq_jsonrpc req \<noteq> ''2.0''
      then (a, Some (error_response rid err_invalid_request ''Invalid Request: missing or invalid jsonrpc version'' None))
      else if rq_method req = ''sync_schedules'' then
        (case unmarshal dec_tasks [] params of
           None \<Rightarrow> (a, Some invalid)
         | Some ts \<Rightarrow> (sync_schedules w (if params = Some JNull then JNull else enc_tasks ts) ts a,
                       Some (success_response rid)))
      else if rq_method req = ''update_failover_urls'' then
        (case unmarshal (dec_list dec_string []) [] params of
           None \<Rightarrow> (a, Some invalid)
         | Some urls \<Rightarrow> (if urls = [] then a else a\<lparr>ag_urls := urls, ag_idx := 0\<rparr>, Some (success_response rid)))
      else (case run_job ho (ag_commands a) (rq_method req) params of
              None \<Rightarrow> (a, Some (error_response rid err_method_not_found (''method not found: '' @ rq_method req) None))
            | Some r \<Rightarrow> (a, Some (job_response rid r))))))"

section \<open>Facts\<close>

lemma parse_hub_urls_ne [simp]: "parse_hub_urls s \<noteq> []"
  by (simp add: parse_hub_urls_def Let_def)

lemma success_response_eq:
  "success_response rid = enc_response \<lparr>rs_jsonrpc = ''2.0'', rs_result = Some (JStr ''success''), rs_error = None, rs_id = rid\<rparr>"
  by (simp add: success_response_def new_rpc_response_def)

text \<open>What a satellite answers: a response of the protocol's version with either a result or an
  error.\<close>

definition proper_response :: "json option \<Rightarrow> rpc_response \<Rightarrow> bool" where
  "proper_response rid resp \<longleftrightarrow> rs_jsonrpc resp = ''2.0'' \<and> rs_id resp = rid \<and>
     (rs_result resp = None) \<noteq> (rs_error resp = None) \<and>
     (case rs_error resp of None \<Rightarrow> True | Some e \<Rightarrow> int64_range (er_code e) \<and> er_data e \<noteq> Some JNull)"

lemma proper_error_code:
  assumes "int64_range code" "data \<noteq> Some JNull"
  shows "\<exists>resp. error_response rid code text data = enc_response resp \<and> proper_response rid resp"
  unfolding error_response_def
  by (rule exI [of _ "new_rpc_error_response rid code text data"])
    (use assms in \<open>simp add: new_rpc_error_response_def proper_response_def\<close>)

lemma proper_error:
  "\<exists>resp. error_response rid err_parse_error text (Some (JStr d)) = enc_response resp \<and> proper_response rid resp"
  "\<exists>resp. error_response rid err_invalid_params text (Some (JStr d)) = enc_response resp \<and> proper_response rid resp"
  "\<exists>resp. error_response rid err_invalid_request text None = enc_response resp \<and> proper_response rid resp"
  "\<exists>resp. error_response rid err_method_not_found text None = enc_response resp \<and> proper_response rid resp"
  "\<exists>resp. error_response rid err_internal_error text None = enc_response resp \<and> proper_response rid resp"
  by (rule proper_error_code; simp add: int64_range_def err_parse_error_def err_invalid_params_def
      err_invalid_request_def err_method_not_found_def err_internal_error_def)+

lemma proper_success: "\<exists>resp. success_response rid = enc_response resp \<and> proper_response rid resp"
  by (rule exI [of _ "\<lparr>rs_jsonrpc = ''2.0'', rs_result = Some (JStr ''success''), rs_error = None, rs_id = rid\<rparr>"])
    (simp add: proper_response_def success_response_eq)

lemma proper_job: "\<exists>resp. job_response rid r = enc_response resp \<and> proper_response rid resp"
proof (cases r)
  case (Inl e)
  then show ?thesis using proper_error by (simp add: job_response_def)
next
  case (Inr j)
  show ?thesis
  proof (cases j)
    case None
    with Inr show ?thesis using proper_error by (simp add: job_response_def new_rpc_response_def)
  next
    case (Some v)
    then have "job_response rid r = enc_response \<lparr>rs_jsonrpc = ''2.0'', rs_result = Some v, rs_error = None, rs_id = rid\<rparr>"
      using Inr by (simp add: job_response_def new_rpc_response_def)
    then show ?thesis
      by (intro exI [of _ "\<lparr>rs_jsonrpc = ''2.0'', rs_result = Some v, rs_error = None, rs_id = rid\<rparr>"])
        (simp add: proper_response_def)
  qed
qed

lemmas proper_answers = proper_error proper_success proper_job

text \<open>Requests and responses cannot be mistaken for each other.\<close>

lemma request_no_response [simp]: "\<not> is_response (Some (enc_request r))"
  by (cases "rq_params r")
    (auto simp: is_response_def enc_request_def dec_response_def zero_response_def codec_defs codec_simps
      split: option.splits)

lemma request_decodes:
  "unmarshal dec_request zero_request (Some (enc_request
     \<lparr>rq_jsonrpc = v, rq_method = m, rq_params = p, rq_id = Some (JStr i)\<rparr>)) =
   Some \<lparr>rq_jsonrpc = v, rq_method = m, rq_params = p, rq_id = Some (JStr i)\<rparr>"
  by (cases p)
    (simp_all add: dec_request_def enc_request_def zero_request_def codec_defs codec_simps)

lemma request_reply:
  assumes "\<not> is_response msg" "agent_handle_request ho w a msg = (a', reply)"
  shows "(\<exists>resp. reply = Some (enc_response resp) \<and>
      proper_response (case unmarshal dec_request zero_request msg of None \<Rightarrow> None | Some req \<Rightarrow> rq_id req) resp) \<and>
    (a' = a \<or>
     (\<exists>req ts. unmarshal dec_request zero_request msg = Some req \<and> rq_method req = ''sync_schedules'' \<and>
        unmarshal dec_tasks [] (rq_params req) = Some ts \<and> (\<exists>doc. a' = sync_schedules w doc ts a)) \<or>
     (\<exists>req urls. unmarshal dec_request zero_request msg = Some req \<and> rq_method req = ''update_failover_urls'' \<and>
        urls \<noteq> [] \<and> a' = a\<lparr>ag_urls := urls, ag_idx := 0\<rparr>))"
proof (cases "unmarshal dec_request zero_request msg")
  case None
  then have "a' = a" "reply = Some (error_response None err_parse_error ''Parse error'' (Some (JStr (ho_json_error ho msg))))"
    using assms by (simp_all add: agent_handle_request_def)
  then show ?thesis using None proper_error(1) by (simp; blast)
next
  case (Some req)
  show ?thesis
  proof (cases "rq_jsonrpc req \<noteq> ''2.0''")
    case True
    then show ?thesis
      using assms Some proper_error(3) by (simp add: agent_handle_request_def; blast)
  next
    case v: False
    consider (sync) "rq_method req = ''sync_schedules''" | (urls) "rq_method req = ''update_failover_urls''"
      | (job) "rq_method req \<noteq> ''sync_schedules''" "rq_method req \<noteq> ''update_failover_urls''" by blast
    then show ?thesis
    proof cases
      case sync
      show ?thesis
      proof (cases "unmarshal dec_tasks [] (rq_params req)")
        case None
        with sync v Some assms show ?thesis using proper_error(2) by (simp add: agent_handle_request_def; blast)
      next
        case ts: (Some ts)
        with sync v Some assms have "reply = Some (success_response (rq_id req))"
          "\<exists>doc. a' = sync_schedules w doc ts a" by (auto simp: agent_handle_request_def)
        then show ?thesis using sync Some ts proper_success [of "rq_id req"] by auto
      qed
    next
      case urls
      show ?thesis
      proof (cases "unmarshal (dec_list dec_string []) [] (rq_params req)")
        case None
        with urls v Some assms show ?thesis using proper_error(2) by (simp add: agent_handle_request_def; blast)
      next
        case us: (Some us)
        with urls v Some assms have "reply = Some (success_response (rq_id req))"
          "a' = (if us = [] then a else a\<lparr>ag_urls := us, ag_idx := 0\<rparr>)" by (auto simp: agent_handle_request_def)
        then show ?thesis using urls Some proper_success [of "rq_id req"] by (cases "us = []") auto
      qed
    next
      case job
      show ?thesis
      proof (cases "run_job ho (ag_commands a) (rq_method req) (rq_params req)")
        case None
        with job v Some assms show ?thesis using proper_error(4) by (simp add: agent_handle_request_def; blast)
      next
        case (Some r)
        with job v assms \<open>unmarshal dec_request zero_request msg = Some req\<close>
        have "reply = Some (job_response (rq_id req) r)" "a' = a" by (auto simp: agent_handle_request_def)
        then show ?thesis using \<open>unmarshal dec_request zero_request msg = Some req\<close> proper_job by simp
      qed
    qed
  qed
qed

section \<open>Properties\<close>

text \<open>C10: Every message of the hub that is not itself a response gets exactly one answer: a JSON-RPC 2.0
  response with the identifier of the request, or none when it is not a request, and either a
  result or an error. Nothing of the satellite changes but by the two control requests: one
  replaces the schedules, the other the addresses of the hubs, never by an empty list.\<close>

theorem request_answered:
  assumes "\<not> is_response msg" "agent_handle_request ho w a msg = (a', reply)"
  shows "(\<exists>resp. reply = Some (enc_response resp) \<and>
      proper_response (case unmarshal dec_request zero_request msg of None \<Rightarrow> None | Some req \<Rightarrow> rq_id req) resp) \<and>
    (a' = a \<or>
     (\<exists>req ts. unmarshal dec_request zero_request msg = Some req \<and> rq_method req = ''sync_schedules'' \<and>
        unmarshal dec_tasks [] (rq_params req) = Some ts \<and> (\<exists>doc. a' = sync_schedules w doc ts a)) \<or>
     (\<exists>req urls. unmarshal dec_request zero_request msg = Some req \<and> rq_method req = ''update_failover_urls'' \<and>
        urls \<noteq> [] \<and> a' = a\<lparr>ag_urls := urls, ag_idx := 0\<rparr>))"
  by (rule request_reply [OF assms])

definition sample_agent :: agent where
  "sample_agent = new_agent (\<lambda>_. None) ''ws://a/ws, ws://b/ws'' ''tok'' ''s1'' (Some sample_key) []"

theorem request_answered_witness:
  "\<exists>a' resp. agent_handle_request sample_host WriteOk sample_agent (Some (enc_request
     \<lparr>rq_jsonrpc = ''2.0'', rq_method = ''reboot'', rq_params = None, rq_id = Some (JStr ''7'')\<rparr>)) =
     (a', Some (enc_response resp)) \<and> proper_response (Some (JStr ''7'')) resp"
proof -
  let ?m = "Some (enc_request \<lparr>rq_jsonrpc = ''2.0'', rq_method = ''reboot'', rq_params = None, rq_id = Some (JStr ''7'')\<rparr>)"
  obtain a' reply where "agent_handle_request sample_host WriteOk sample_agent ?m = (a', reply)" by fastforce
  with request_answered [OF request_no_response this] show ?thesis by (auto simp: request_decodes)
qed

end
