(* ===== verification/AgentRun.thy ===== *)
theory AgentRun
  imports AgentClient
begin

text \<open>
  The satellite as it runs: the connection loop of \<open>Start\<close> and \<open>connectAndRun\<close>, one goroutine per
  message of the hub, one per scheduled task, the flush loop and \<open>Stop\<close>, as a step relation on
  the state of theory AgentClient. Time is not modelled: a timer may fire at any moment, and of
  two ready cases of a \<open>select\<close> either is taken. \<open>disk_works\<close> restricts the runs to those in which
  no write of a file fails.
\<close>

section \<open>Steps\<close>

definition panic :: "agent \<Rightarrow> agent" where
  "panic a = a\<lparr>ag_panicked := True\<rparr>"

definition reconnect :: "agent \<Rightarrow> agent" where
  "reconnect a = (case switch_hub a of None \<Rightarrow> panic a | Some b \<Rightarrow> b)"

definition set_runner :: "nat \<Rightarrow> runner_phase \<Rightarrow> agent \<Rightarrow> agent" where
  "set_runner i ph a = a\<lparr>ag_runners := (ag_runners a)[i := (ag_runners a ! i)\<lparr>rn_phase := ph\<rparr>]\<rparr>"

definition task_at :: "agent \<Rightarrow> nat \<Rightarrow> scheduled_task" where
  "task_at a i = rn_task (ag_runners a ! i)"

definition phase_at :: "agent \<Rightarrow> nat \<Rightarrow> runner_phase" where
  "phase_at a i = rn_phase (ag_runners a ! i)"

definition sent_reply :: "bool \<Rightarrow> json option \<Rightarrow> json list" where
  "sent_reply written reply = (case reply of None \<Rightarrow> [] | Some m \<Rightarrow> if written then [m] else [])"

definition remove_nth :: "nat \<Rightarrow> 'a list \<Rightarrow> 'a list" where
  "remove_nth i xs = take i xs @ drop (Suc i) xs"

inductive agent_step :: "host \<Rightarrow> bool \<Rightarrow> agent \<Rightarrow> agent \<Rightarrow> bool" for ho disk_works where
  top_dials: "\<not> ag_panicked a \<Longrightarrow> ag_loop a = AtTop \<Longrightarrow> \<not> ag_closed a \<Longrightarrow> current_url a \<noteq> None \<Longrightarrow>
    agent_step ho disk_works a (a\<lparr>ag_loop := Dialing\<rparr>)"
| top_out_of_range: "\<not> ag_panicked a \<Longrightarrow> ag_loop a = AtTop \<Longrightarrow> \<not> ag_closed a \<Longrightarrow> current_url a = None \<Longrightarrow>
    agent_step ho disk_works a (panic a)"
| top_leaves: "\<not> ag_panicked a \<Longrightarrow> ag_loop a = AtTop \<Longrightarrow> ag_closed a \<Longrightarrow>
    agent_step ho disk_works a (a\<lparr>ag_loop := Left\<rparr>)"
| dial_fails: "\<not> ag_panicked a \<Longrightarrow> ag_loop a = Dialing \<Longrightarrow> agent_step ho disk_works a (reconnect a)"
| dial_succeeds: "\<not> ag_panicked a \<Longrightarrow> ag_loop a = Dialing \<Longrightarrow> \<not> ag_closed a \<Longrightarrow>
    agent_step ho disk_works a (a\<lparr>ag_loop := Dialed, ag_conn := True, ag_backoff := 1\<rparr>)"
| session_set: "\<not> ag_panicked a \<Longrightarrow> ag_loop a = Dialed \<Longrightarrow>
    agent_step ho disk_works a (a\<lparr>ag_loop := Serving, ag_session := True, ag_trigger := True\<rparr>)"
| message_read: "\<not> ag_panicked a \<Longrightarrow> ag_loop a = Serving \<Longrightarrow> ag_conn a \<Longrightarrow>
    agent_step ho disk_works a (a\<lparr>ag_jobs := ag_jobs a @ [msg]\<rparr>)"
| message_handled: "\<not> ag_panicked a \<Longrightarrow> i < length (ag_jobs a) \<Longrightarrow> (disk_works \<Longrightarrow> w = WriteOk) \<Longrightarrow>
    agent_handle_request ho w a (ag_jobs a ! i) = (b, reply) \<Longrightarrow> (written \<Longrightarrow> ag_conn a) \<Longrightarrow>
    agent_step ho disk_works a
      (b\<lparr>ag_jobs := remove_nth i (ag_jobs a), ag_out := ag_out a @ sent_reply written reply\<rparr>)"
| read_fails: "\<not> ag_panicked a \<Longrightarrow> ag_loop a = Serving \<Longrightarrow>
    agent_step ho disk_works a (a\<lparr>ag_loop := Draining\<rparr>)"
| jobs_done: "\<not> ag_panicked a \<Longrightarrow> ag_loop a = Draining \<Longrightarrow> ag_jobs a = [] \<Longrightarrow>
    agent_step ho disk_works a (reconnect (a\<lparr>ag_session := False, ag_conn := False\<rparr>))"
| backoff_over: "\<not> ag_panicked a \<Longrightarrow> ag_loop a = BackingOff \<Longrightarrow>
    agent_step ho disk_works a (a\<lparr>ag_loop := AtTop, ag_backoff := next_backoff (ag_backoff a)\<rparr>)"
| backoff_leaves: "\<not> ag_panicked a \<Longrightarrow> ag_loop a = BackingOff \<Longrightarrow> ag_closed a \<Longrightarrow>
    agent_step ho disk_works a (a\<lparr>ag_loop := Left\<rparr>)"
| stopped: "\<not> ag_panicked a \<Longrightarrow> agent_step ho disk_works a (stop_agent a)"
| results_sent: "\<not> ag_panicked a \<Longrightarrow> ag_flushing a = None \<Longrightarrow>
    agent_step ho disk_works a ((flush_send oks a)\<lparr>ag_trigger := (ticked \<and> ag_trigger a)\<rparr>)"
| results_dropped: "\<not> ag_panicked a \<Longrightarrow> (disk_works \<Longrightarrow> w = WriteOk \<and> rm = None) \<Longrightarrow>
    agent_step ho disk_works a (flush_drop w rm a)"
| runner_begins: "\<not> ag_panicked a \<Longrightarrow> i < length (ag_runners a) \<Longrightarrow> phase_at a i = Begun \<Longrightarrow>
    agent_step ho disk_works a
      (case begin_runner a (task_at a i) of None \<Rightarrow> panic a | Some ph \<Rightarrow> set_runner i ph a)"
| runner_cancelled: "\<not> ag_panicked a \<Longrightarrow> i < length (ag_runners a) \<Longrightarrow> phase_at a i \<in> {AtFirst e, AtTick e} \<Longrightarrow>
    cancelled a e \<Longrightarrow> agent_step ho disk_works a (set_runner i Ended a)"
| runner_fires: "\<not> ag_panicked a \<Longrightarrow> i < length (ag_runners a) \<Longrightarrow> phase_at a i \<in> {AtFirst e, AtTick e} \<Longrightarrow>
    agent_step ho disk_works a (set_runner i InJob a)"
| runner_done: "\<not> ag_panicked a \<Longrightarrow> i < length (ag_runners a) \<Longrightarrow> phase_at a i = InJob \<Longrightarrow>
    (disk_works \<Longrightarrow> w = WriteOk) \<Longrightarrow> int64_range now \<Longrightarrow>
    agent_step ho disk_works a
      (set_runner i (AtTick (ag_epoch a)) (run_scheduled_task ho w now a (task_at a i)))"
| one_off_done: "\<not> ag_panicked a \<Longrightarrow> i < length (ag_runners a) \<Longrightarrow> phase_at a i = InOneOff \<Longrightarrow>
    (disk_works \<Longrightarrow> w = WriteOk) \<Longrightarrow> int64_range now \<Longrightarrow>
    agent_step ho disk_works a (set_runner i Ended (run_scheduled_task ho w now a (task_at a i)))"

inductive_cases agent_stepE: "agent_step ho disk_works a b"

section \<open>What the operations leave alone\<close>

lemma set_runner_fields [simp]:
  "ag_urls (set_runner i ph a) = ag_urls a" "ag_idx (set_runner i ph a) = ag_idx a"
  "ag_backoff (set_runner i ph a) = ag_backoff a" "ag_loop (set_runner i ph a) = ag_loop a"
  "ag_session (set_runner i ph a) = ag_session a" "ag_conn (set_runner i ph a) = ag_conn a"
  "ag_jobs (set_runner i ph a) = ag_jobs a" "ag_out (set_runner i ph a) = ag_out a"
  "ag_closed (set_runner i ph a) = ag_closed a" "ag_panicked (set_runner i ph a) = ag_panicked a"
  "ag_flushing (set_runner i ph a) = ag_flushing a" "ag_disk (set_runner i ph a) = ag_disk a"
  "ag_cache_path (set_runner i ph a) = ag_cache_path a" "ag_sched_path (set_runner i ph a) = ag_sched_path a"
  "ag_schedules (set_runner i ph a) = ag_schedules a" "ag_epoch (set_runner i ph a) = ag_epoch a"
  "length (ag_runners (set_runner i ph a)) = length (ag_runners a)"
  by (simp_all add: set_runner_def)

lemma set_runner_at:
  "i < length (ag_runners a) \<Longrightarrow> ag_runners (set_runner i ph a) ! j =
     (if j = i then (ag_runners a ! i)\<lparr>rn_phase := ph\<rparr> else ag_runners a ! j)"
  by (simp add: set_runner_def nth_list_update)

lemma panic_fields [simp]:
  "ag_urls (panic a) = ag_urls a" "ag_idx (panic a) = ag_idx a" "ag_backoff (panic a) = ag_backoff a"
  "ag_loop (panic a) = ag_loop a" "ag_session (panic a) = ag_session a" "ag_conn (panic a) = ag_conn a"
  "ag_jobs (panic a) = ag_jobs a" "ag_out (panic a) = ag_out a" "ag_closed (panic a) = ag_closed a"
  "ag_flushing (panic a) = ag_flushing a" "ag_disk (panic a) = ag_disk a" "ag_panicked (panic a)"
  "ag_cache_path (panic a) = ag_cache_path a" "ag_sched_path (panic a) = ag_sched_path a"
  "ag_schedules (panic a) = ag_schedules a" "ag_epoch (panic a) = ag_epoch a"
  "ag_runners (panic a) = ag_runners a"
  by (simp_all add: panic_def)

lemma run_scheduled_task_frame:
  "\<exists>d t. run_scheduled_task ho w now a task = a\<lparr>ag_disk := d, ag_trigger := t\<rparr>"
proof (cases "run_job ho (ag_commands a) (st_method task) (st_params task)")
  case None
  then have "run_scheduled_task ho w now a task = a\<lparr>ag_disk := ag_disk a, ag_trigger := ag_trigger a\<rparr>"
    by (simp add: run_scheduled_task_def)
  then show ?thesis by blast
next
  case (Some r)
  obtain d e where "cache_add w (ag_disk a) (ag_cache_path a) (task_result now a task r) = (d, e)" by fastforce
  with Some have "run_scheduled_task ho w now a task =
      a\<lparr>ag_disk := d, ag_trigger := (case e of None \<Rightarrow> True | Some _ \<Rightarrow> ag_trigger a)\<rparr>"
    by (cases e) (simp_all add: run_scheduled_task_def)
  then show ?thesis by blast
qed

lemma run_scheduled_task_fields [simp]:
  "ag_urls (run_scheduled_task ho w now a t) = ag_urls a" "ag_idx (run_scheduled_task ho w now a t) = ag_idx a"
  "ag_backoff (run_scheduled_task ho w now a t) = ag_backoff a" "ag_loop (run_scheduled_task ho w now a t) = ag_loop a"
  "ag_session (run_scheduled_task ho w now a t) = ag_session a" "ag_conn (run_scheduled_task ho w now a t) = ag_conn a"
  "ag_jobs (run_scheduled_task ho w now a t) = ag_jobs a" "ag_out (run_scheduled_task ho w now a t) = ag_out a"
  "ag_closed (run_scheduled_task ho w now a t) = ag_closed a" "ag_panicked (run_scheduled_task ho w now a t) = ag_panicked a"
  "ag_flushing (run_scheduled_task ho w now a t) = ag_flushing a" "ag_runners (run_scheduled_task ho w now a t) = ag_runners a"
  "ag_cache_path (run_scheduled_task ho w now a t) = ag_cache_path a" "ag_sched_path (run_scheduled_task ho w now a t) = ag_sched_path a"
  "ag_schedules (run_scheduled_task ho w now a t) = ag_schedules a" "ag_epoch (run_scheduled_task ho w now a t) = ag_epoch a"
  using run_scheduled_task_frame [of ho w now a t] by auto

lemma flush_send_frame: "\<exists>m n. flush_send oks a = a\<lparr>ag_out := ag_out a @ m, ag_flushing := n\<rparr>"
proof -
  have same: "a\<lparr>ag_out := ag_out a @ [], ag_flushing := ag_flushing a\<rparr> = a" by simp
  show ?thesis
  proof (cases "ag_session a")
    case False
    then have "flush_send oks a = a\<lparr>ag_out := ag_out a @ [], ag_flushing := ag_flushing a\<rparr>"
      by (simp add: flush_send_def)
    then show ?thesis by blast
  next
    case True
    show ?thesis
    proof (cases "cache_pop_all (ag_disk a) (ag_cache_path a)")
      case (Inl e)
      then have "flush_send oks a = a\<lparr>ag_out := ag_out a @ [], ag_flushing := ag_flushing a\<rparr>"
        using True by (simp add: flush_send_def)
      then show ?thesis by blast
    next
      case (Inr subs)
      then show ?thesis using True by (simp add: flush_send_def Let_def) blast
    qed
  qed
qed

lemma flush_send_fields [simp]:
  "ag_urls (flush_send oks a) = ag_urls a" "ag_idx (flush_send oks a) = ag_idx a"
  "ag_backoff (flush_send oks a) = ag_backoff a" "ag_loop (flush_send oks a) = ag_loop a"
  "ag_session (flush_send oks a) = ag_session a" "ag_conn (flush_send oks a) = ag_conn a"
  "ag_jobs (flush_send oks a) = ag_jobs a" "ag_disk (flush_send oks a) = ag_disk a"
  "ag_closed (flush_send oks a) = ag_closed a" "ag_panicked (flush_send oks a) = ag_panicked a"
  "ag_runners (flush_send oks a) = ag_runners a"
  "ag_cache_path (flush_send oks a) = ag_cache_path a" "ag_sched_path (flush_send oks a) = ag_sched_path a"
  "ag_schedules (flush_send oks a) = ag_schedules a" "ag_epoch (flush_send oks a) = ag_epoch a"
  using flush_send_frame [of oks a] by auto

lemma flush_drop_fields [simp]:
  "ag_urls (flush_drop w rm a) = ag_urls a" "ag_idx (flush_drop w rm a) = ag_idx a"
  "ag_backoff (flush_drop w rm a) = ag_backoff a" "ag_loop (flush_drop w rm a) = ag_loop a"
  "ag_session (flush_drop w rm a) = ag_session a" "ag_conn (flush_drop w rm a) = ag_conn a"
  "ag_jobs (flush_drop w rm a) = ag_jobs a" "ag_out (flush_drop w rm a) = ag_out a"
  "ag_closed (flush_drop w rm a) = ag_closed a" "ag_panicked (flush_drop w rm a) = ag_panicked a"
  "ag_runners (flush_drop w rm a) = ag_runners a"
  "ag_cache_path (flush_drop w rm a) = ag_cache_path a" "ag_sched_path (flush_drop w rm a) = ag_sched_path a"
  "ag_schedules (flush_drop w rm a) = ag_schedules a" "ag_epoch (flush_drop w rm a) = ag_epoch a"
  by (simp_all add: flush_drop_def split: option.split)

text \<open>The three things a message can do to the satellite.\<close>

lemma handle_request_cases:
  assumes "agent_handle_request ho w a msg = (b, reply)"
  obtains "b = a" | doc ts where "b = sync_schedules w doc ts a"
  | urls where "urls \<noteq> []" "b = a\<lparr>ag_urls := urls, ag_idx := 0\<rparr>"
proof (cases "is_response msg")
  case True
  then show ?thesis using assms that by (simp add: agent_handle_request_def)
next
  case False
  show ?thesis using assms False that unfolding agent_handle_request_def Let_def
    by (simp split: option.splits if_splits; blast)
qed

lemma sync_schedules_fields [simp]:
  "ag_urls (sync_schedules w doc ts a) = ag_urls a" "ag_idx (sync_schedules w doc ts a) = ag_idx a"
  "ag_backoff (sync_schedules w doc ts a) = ag_backoff a" "ag_loop (sync_schedules w doc ts a) = ag_loop a"
  "ag_session (sync_schedules w doc ts a) = ag_session a" "ag_conn (sync_schedules w doc ts a) = ag_conn a"
  "ag_jobs (sync_schedules w doc ts a) = ag_jobs a" "ag_out (sync_schedules w doc ts a) = ag_out a"
  "ag_closed (sync_schedules w doc ts a) = ag_closed a" "ag_panicked (sync_schedules w doc ts a) = ag_panicked a"
  "ag_flushing (sync_schedules w doc ts a) = ag_flushing a"
  "ag_runners (sync_schedules w doc ts a) = ag_runners a @ map (\<lambda>t. \<lparr>rn_task = t, rn_phase = Begun\<rparr>) ts"
  "ag_cache_path (sync_schedules w doc ts a) = ag_cache_path a" "ag_sched_path (sync_schedules w doc ts a) = ag_sched_path a"
  "ag_schedules (sync_schedules w doc ts a) = ts" "ag_epoch (sync_schedules w doc ts a) = Suc (ag_epoch a)"
  by (simp_all add: sync_schedules_def Let_def server_runners_def)

section \<open>The connection loop\<close>

definition loop_inv :: "agent \<Rightarrow> bool" where
  "loop_inv a \<longleftrightarrow> ag_urls a \<noteq> [] \<and> ag_idx a < length (ag_urls a) \<and> 1 \<le> ag_backoff a \<and> ag_backoff a \<le> max_backoff \<and>
     (ag_session a \<longrightarrow> ag_loop a \<in> {Serving, Draining}) \<and>
     (ag_loop a \<in> {Serving, Draining} \<longrightarrow> ag_session a) \<and>
     (ag_conn a \<longrightarrow> ag_loop a \<in> {Dialed, Serving, Draining}) \<and>
     (ag_jobs a \<noteq> [] \<longrightarrow> ag_loop a \<in> {Serving, Draining}) \<and>
     (ag_panicked a \<longrightarrow> (\<exists>r\<in>set (ag_runners a). 0 < st_interval (rn_task r) \<and> \<not> ticker_ok (rn_task r)))"

lemma loop_invI [inv_intros]:
  assumes "ag_urls a \<noteq> []" "ag_idx a < length (ag_urls a)" "1 \<le> ag_backoff a" "ag_backoff a \<le> max_backoff"
    "ag_session a \<longleftrightarrow> ag_loop a \<in> {Serving, Draining}" "ag_conn a \<Longrightarrow> ag_loop a \<in> {Dialed, Serving, Draining}"
    "ag_jobs a \<noteq> [] \<Longrightarrow> ag_loop a \<in> {Serving, Draining}" "\<not> ag_panicked a"
  shows "loop_inv a"
  using assms by (simp add: loop_inv_def)

lemma loop_inv_frame:
  assumes "loop_inv a" "\<not> ag_panicked b" "ag_urls b = ag_urls a" "ag_idx b = ag_idx a" "ag_backoff b = ag_backoff a"
    "ag_loop b = ag_loop a" "ag_session b = ag_session a" "ag_conn b = ag_conn a" "ag_jobs b = ag_jobs a"
  shows "loop_inv b"
  using assms by (simp add: loop_inv_def)

lemma loop_inv_url: "loop_inv a \<Longrightarrow> current_url a = Some (ag_urls a ! ag_idx a)"
  by (simp add: loop_inv_def current_url_def)

lemma next_backoff_bounds: "1 \<le> b \<Longrightarrow> 1 \<le> next_backoff b \<and> next_backoff b \<le> max_backoff"
  by (simp add: next_backoff_def max_backoff_def)

lemma reconnect_ok:
  "ag_urls a \<noteq> [] \<Longrightarrow> reconnect a = a\<lparr>ag_idx := (ag_idx a + 1) mod length (ag_urls a), ag_loop := BackingOff\<rparr>"
  by (simp add: reconnect_def switch_hub_def)

lemma loop_inv_reconnect:
  assumes "loop_inv a" "ag_jobs a = []" "\<not> ag_panicked a"
  shows "loop_inv (reconnect (a\<lparr>ag_session := False, ag_conn := False\<rparr>))"
proof -
  have "(ag_idx a + 1) mod length (ag_urls a) < length (ag_urls a)"
    using assms(1) by (simp add: loop_inv_def)
  then show ?thesis using assms by (simp add: reconnect_ok loop_inv_def)
qed

lemma loop_inv_step: "agent_step ho disk_works a b \<Longrightarrow> loop_inv a \<Longrightarrow> loop_inv b"
proof (induction rule: agent_step.induct)
  case (top_out_of_range a)
  then show ?case by (simp add: loop_inv_url)
next
  case (dial_fails a)
  then have "a\<lparr>ag_session := False, ag_conn := False\<rparr> = a" "ag_jobs a = []" by (auto simp: loop_inv_def)
  then show ?case using loop_inv_reconnect [OF dial_fails.prems] dial_fails.hyps by simp
next
  case (message_handled a i w b reply written)
  have b: "ag_urls b \<noteq> []" "ag_idx b < length (ag_urls b)" "ag_backoff b = ag_backoff a" "ag_loop b = ag_loop a"
    "ag_session b = ag_session a" "ag_conn b = ag_conn a" "\<not> ag_panicked b"
    using handle_request_cases [OF message_handled.hyps(4)] message_handled.prems message_handled.hyps(1)
    by (cases; simp add: loop_inv_def)+
  have "remove_nth i (ag_jobs a) \<noteq> [] \<Longrightarrow> ag_jobs a \<noteq> []" by (auto simp: remove_nth_def)
  then show ?case using b message_handled.prems by (auto simp: loop_inv_def)
next
  case (jobs_done a)
  then show ?case by (intro loop_inv_reconnect) auto
next
  case (backoff_over a)
  then show ?case using next_backoff_bounds [of "ag_backoff a"] by (auto simp: loop_inv_def)
next
  case (runner_begins a i)
  show ?case
  proof (cases "begin_runner a (task_at a i)")
    case None
    then have "0 < st_interval (task_at a i) \<and> \<not> ticker_ok (task_at a i)"
      by (auto simp: begin_runner_def split: if_splits)
    then have "\<exists>r\<in>set (ag_runners a). 0 < st_interval (rn_task r) \<and> \<not> ticker_ok (rn_task r)"
      using nth_mem [OF runner_begins.hyps(2)] by (auto simp: task_at_def)
    then show ?thesis using None runner_begins.prems by (simp add: loop_inv_def)
  next
    case (Some ph)
    then show ?thesis using runner_begins by (auto intro: loop_inv_frame)
  qed
qed (auto simp: loop_inv_def stop_agent_def)

lemma loop_inv_start: "loop_inv (start_agent (new_agent d url tok agent_id key path))"
  by (simp add: loop_inv_def start_agent_def new_agent_def max_backoff_def)

abbreviation agent_steps :: "host \<Rightarrow> bool \<Rightarrow> agent \<Rightarrow> agent \<Rightarrow> bool" where
  "agent_steps ho disk_works \<equiv> (agent_step ho disk_works)\<^sup>*\<^sup>*"

lemma reachable_inv:
  assumes "agent_steps ho disk_works a b" "P a" "\<And>a b. agent_step ho disk_works a b \<Longrightarrow> P a \<Longrightarrow> P b"
  shows "P b"
  using assms(1) by (induction rule: rtranclp_induct) (use assms(2,3) in auto)

lemma steps_loop_inv: "agent_steps ho disk_works a b \<Longrightarrow> loop_inv a \<Longrightarrow> loop_inv b"
  by (erule reachable_inv) (use loop_inv_step in auto)

text \<open>The start as \<open>main\<close> makes it: the custom commands and the TLS setting are given before the
  loop is entered.\<close>

definition boot_agent ::
  "disk \<Rightarrow> string \<Rightarrow> string \<Rightarrow> string \<Rightarrow> string option \<Rightarrow> string \<Rightarrow> (string \<times> custom_command) list \<Rightarrow> bool \<Rightarrow> agent" where
  "boot_agent d url tok agent_id key path cmds insecure =
     start_agent (set_custom_commands cmds (set_insecure insecure (new_agent d url tok agent_id key path)))"

lemma boot_agent_fields [simp]:
  "ag_loop (boot_agent d url tok i k p cmds ins) = AtTop" "\<not> ag_closed (boot_agent d url tok i k p cmds ins)"
  "\<not> ag_panicked (boot_agent d url tok i k p cmds ins)" "ag_urls (boot_agent d url tok i k p cmds ins) = parse_hub_urls url"
  "ag_idx (boot_agent d url tok i k p cmds ins) = 0" "ag_backoff (boot_agent d url tok i k p cmds ins) = 1"
  "ag_schedules (boot_agent d url tok i k p cmds ins) = stored_schedules d schedules_cache_path"
  "ag_runners (boot_agent d url tok i k p cmds ins) =
     map (\<lambda>t. \<lparr>rn_task = t, rn_phase = Begun\<rparr>) (stored_schedules d schedules_cache_path)"
  "ag_epoch (boot_agent d url tok i k p cmds ins) = 1" "ag_disk (boot_agent d url tok i k p cmds ins) = d"
  "ag_out (boot_agent d url tok i k p cmds ins) = []" "ag_flushing (boot_agent d url tok i k p cmds ins) = None"
  "ag_cache_path (boot_agent d url tok i k p cmds ins) = (if p = [] then default_cache_path else p)"
  "ag_sched_path (boot_agent d url tok i k p cmds ins) = schedules_cache_path"
  "ag_commands (boot_agent d url tok i k p cmds ins) = cmds"
  "ag_token (boot_agent d url tok i k p cmds ins) = tok" "ag_id (boot_agent d url tok i k p cmds ins) = i"
  "ag_key (boot_agent d url tok i k p cmds ins) = k"
  by (simp_all add: boot_agent_def start_agent_def set_custom_commands_def set_insecure_def new_agent_def server_runners_def)

lemma loop_inv_boot: "loop_inv (boot_agent d url tok i k p cmds ins)"
  by (simp add: loop_inv_def boot_agent_def start_agent_def set_custom_commands_def set_insecure_def new_agent_def max_backoff_def)

lemma interval_limit: "0 < st_interval t \<Longrightarrow> st_interval t \<le> 9223372036 \<Longrightarrow> ticker_ok t"
  by (simp add: ticker_ok_def)

text \<open>C11: The connection loop never fails by itself. In every reachable state, whatever the hubs push,
  the list of addresses is not empty and its index in range, so that dialling and switching to
  the next hub are defined, the wait is between one and thirty seconds, a session exists exactly
  while messages are read or awaited, and the only possible panic is that of a ticker.\<close>

theorem connection_loop_safe:
  assumes "agent_steps ho disk_works (boot_agent d url tok agent_id key path cmds insecure) a"
  shows "current_url a \<noteq> None \<and> switch_hub a \<noteq> None \<and> 1 \<le> ag_backoff a \<and> ag_backoff a \<le> 30 \<and>
    (ag_session a \<longleftrightarrow> ag_loop a \<in> {Serving, Draining}) \<and>
    (ag_panicked a \<longrightarrow> (\<exists>r\<in>set (ag_runners a). 9223372036 < st_interval (rn_task r)))"
proof -
  have inv: "loop_inv a" by (rule steps_loop_inv [OF assms loop_inv_boot])
  then have "ag_panicked a \<longrightarrow> (\<exists>r\<in>set (ag_runners a). 9223372036 < st_interval (rn_task r))"
    unfolding loop_inv_def using interval_limit by (meson not_le)
  then show ?thesis using inv by (auto simp: loop_inv_def current_url_def switch_hub_def max_backoff_def)
qed

theorem connection_loop_safe_witness:
  "\<exists>a. agent_steps sample_host True
      (boot_agent (\<lambda>_. None) ''ws://a/ws, ws://b/ws'' ''tok'' ''s1'' None [] [] False) a \<and>
    ag_loop a = Dialed \<and> current_url a \<noteq> None"
proof -
  let ?a = "boot_agent (\<lambda>_. None) ''ws://a/ws, ws://b/ws'' ''tok'' ''s1'' None [] [] False"
  let ?b = "?a\<lparr>ag_loop := Dialing\<rparr>"
  let ?c = "?b\<lparr>ag_loop := Dialed, ag_conn := True, ag_backoff := 1\<rparr>"
  have "agent_step sample_host True ?a ?b"
    by (rule top_dials) (simp_all add: loop_inv_url [OF loop_inv_boot])
  moreover have "agent_step sample_host True ?b ?c" by (rule dial_succeeds) simp_all
  ultimately have "agent_steps sample_host True ?a ?c"
    by (meson converse_rtranclp_into_rtranclp r_into_rtranclp)
  with connection_loop_safe [OF this] show ?thesis by (intro exI [of _ ?c]) simp
qed

section \<open>Failover\<close>

text \<open>A dial that fails, the wait after it, and the return to the top of the loop.\<close>

definition failing_round :: "agent \<Rightarrow> agent" where
  "failing_round a = (let b = reconnect a in b\<lparr>ag_loop := AtTop, ag_backoff := next_backoff (ag_backoff b)\<rparr>)"

lemma failing_round_eq:
  "ag_urls a \<noteq> [] \<Longrightarrow> failing_round a = a\<lparr>ag_idx := (ag_idx a + 1) mod length (ag_urls a), ag_loop := AtTop,
     ag_backoff := next_backoff (ag_backoff a)\<rparr>"
  by (simp add: failing_round_def reconnect_ok)

lemma failing_round_steps:
  assumes "loop_inv a" "ag_loop a = AtTop" "\<not> ag_closed a" "\<not> ag_panicked a"
  shows "agent_steps ho disk_works a (failing_round a)"
proof -
  have ne: "ag_urls a \<noteq> []" using assms(1) by (simp add: loop_inv_def)
  let ?b = "a\<lparr>ag_loop := Dialing\<rparr>"
  have "agent_step ho disk_works a ?b" by (rule top_dials) (use assms loop_inv_url in auto)
  moreover have "agent_step ho disk_works ?b (reconnect ?b)" by (rule dial_fails) (use assms in auto)
  moreover have "agent_step ho disk_works (reconnect ?b) (failing_round a)"
  proof -
    have "failing_round a = (reconnect ?b)\<lparr>ag_loop := AtTop, ag_backoff := next_backoff (ag_backoff (reconnect ?b))\<rparr>"
      using ne by (simp add: failing_round_eq reconnect_ok)
    then show ?thesis using backoff_over [of "reconnect ?b"] assms(4) ne by (simp add: reconnect_ok)
  qed
  ultimately show ?thesis by (meson converse_rtranclp_into_rtranclp r_into_rtranclp)
qed

lemma failing_rounds:
  assumes "loop_inv a" "ag_loop a = AtTop" "\<not> ag_closed a" "\<not> ag_panicked a"
  shows "agent_steps ho disk_works a ((failing_round ^^ n) a) \<and>
    (failing_round ^^ n) a = a\<lparr>ag_idx := (ag_idx a + n) mod length (ag_urls a),
       ag_backoff := min max_backoff (ag_backoff a * 2 ^ n)\<rparr>"
proof (induction n)
  case 0
  have "ag_idx a mod length (ag_urls a) = ag_idx a" "min max_backoff (ag_backoff a) = ag_backoff a"
    using assms(1) by (auto simp: loop_inv_def)
  then show ?case by simp
next
  case (Suc n)
  let ?b = "(failing_round ^^ n) a"
  have ne: "ag_urls a \<noteq> []" and one: "1 \<le> ag_backoff a" using assms(1) by (auto simp: loop_inv_def)
  note b = Suc.IH [THEN conjunct2]
  have "agent_steps ho disk_works ?b (failing_round ?b)"
    by (rule failing_round_steps) (use steps_loop_inv [OF conjunct1 [OF Suc.IH] assms(1)] assms(2-4) b in auto)
  then have "agent_steps ho disk_works a (failing_round ?b)" using Suc.IH by (meson rtranclp_trans)
  moreover have "next_backoff (min max_backoff (ag_backoff a * 2 ^ n)) = min max_backoff (ag_backoff a * 2 ^ Suc n)"
    by (auto simp: next_backoff_def max_backoff_def min_def)
  then have "failing_round ?b = a\<lparr>ag_idx := (ag_idx a + Suc n) mod length (ag_urls a),
       ag_backoff := min max_backoff (ag_backoff a * 2 ^ Suc n)\<rparr>"
    unfolding b using ne assms(2) by (simp add: failing_round_eq mod_simps)
  ultimately show ?case by simp
qed

text \<open>C12: Failover reaches every hub. A satellite whose dials fail tries its addresses in order and
  cyclically, so that each one is dialled within as many attempts as there are addresses, and the
  wait doubles from attempt to attempt up to thirty seconds.\<close>

theorem failover_tries_all:
  assumes "agent_steps ho disk_works (boot_agent d url tok agent_id key path cmds insecure) a"
    and "ag_loop a = AtTop" "\<not> ag_closed a" "\<not> ag_panicked a" "hub \<in> set (ag_urls a)"
  shows "(\<exists>n<length (ag_urls a). agent_steps ho disk_works a ((failing_round ^^ n) a) \<and>
      ag_loop ((failing_round ^^ n) a) = AtTop \<and> current_url ((failing_round ^^ n) a) = Some hub) \<and>
    (\<forall>n. ag_backoff ((failing_round ^^ n) a) = min 30 (ag_backoff a * 2 ^ n))"
proof -
  have inv: "loop_inv a" by (rule steps_loop_inv [OF assms(1) loop_inv_boot])
  note r = failing_rounds [OF inv assms(2-4), of ho disk_works]
  let ?k = "length (ag_urls a)"
  have i: "ag_idx a < ?k" using inv by (simp add: loop_inv_def)
  obtain j where j: "j < ?k" "ag_urls a ! j = hub" using assms(5) by (auto simp: in_set_conv_nth)
  define n where "n = (if ag_idx a \<le> j then j - ag_idx a else j + ?k - ag_idx a)"
  have n: "n < ?k" "(ag_idx a + n) mod ?k = j" using i j by (auto simp: n_def)
  have rn: "(failing_round ^^ n) a = a\<lparr>ag_idx := j, ag_backoff := min max_backoff (ag_backoff a * 2 ^ n)\<rparr>"
    using r [of n] n(2) by simp
  have "agent_steps ho disk_works a ((failing_round ^^ n) a)" using r [of n] by blast
  moreover have "ag_loop ((failing_round ^^ n) a) = AtTop" "current_url ((failing_round ^^ n) a) = Some hub"
    unfolding rn using j assms(2) by (simp_all add: current_url_def)
  moreover have "ag_backoff ((failing_round ^^ m) a) = min 30 (ag_backoff a * 2 ^ m)" for m
    using r [of m] by (simp add: max_backoff_def)
  ultimately show ?thesis using n(1) by blast
qed

theorem failover_tries_all_witness:
  "\<exists>a n. n < 2 \<and> ag_loop a = AtTop \<and> current_url ((failing_round ^^ n) a) = Some ''ws://b/ws''"
proof -
  let ?a = "boot_agent (\<lambda>_. None) ''ws://a/ws, ws://b/ws'' ''tok'' ''s1'' None [] [] False"
  have "parse_hub_urls ''ws://a/ws, ws://b/ws'' = [''ws://a/ws'', ''ws://b/ws'']" by code_simp
  then obtain n where "n < 2" "current_url ((failing_round ^^ n) ?a) = Some ''ws://b/ws''"
    using failover_tries_all [of sample_host True "\<lambda>_. None" "''ws://a/ws, ws://b/ws''" "''tok''" "''s1''" None "[]" "[]" False ?a "''ws://b/ws''"]
    by (auto simp: numeral_2_eq_2)
  then show ?thesis by (intro exI [of _ ?a] exI [of _ n]) simp
qed

section \<open>Stopping\<close>

text \<open>Where a stopped loop is on its way out.\<close>

fun way_out :: "loop_phase \<Rightarrow> nat" where
  "way_out Left = 0"
| "way_out AtTop = 1"
| "way_out BackingOff = 2"
| "way_out Draining = 3"
| "way_out Dialing = 3"
| "way_out Serving = 4"
| "way_out Dialed = 5"

lemma closed_step:
  assumes "agent_step ho disk_works a b" "loop_inv a" "ag_closed a"
  shows "ag_closed b \<and> (ag_loop b = ag_loop a \<and> (ag_conn b \<longrightarrow> ag_conn a) \<or> way_out (ag_loop b) < way_out (ag_loop a) \<and> (ag_conn b \<longrightarrow> ag_conn a))"
  using assms
proof (induction rule: agent_step.induct)
  case (message_handled a i w b reply written)
  show ?case
    using handle_request_cases [OF message_handled.hyps(4)] message_handled.prems by cases simp_all
next
  case (runner_begins a i)
  then show ?case by (simp split: option.split)
qed (auto simp: reconnect_def switch_hub_def stop_agent_def loop_inv_def split: option.split)

lemma closed_steps:
  assumes "agent_steps ho disk_works a b" "loop_inv a" "ag_closed a"
  shows "ag_closed b \<and> way_out (ag_loop b) \<le> way_out (ag_loop a) \<and> (ag_conn b \<longrightarrow> ag_conn a)"
  using assms(1)
proof (induction rule: rtranclp_induct)
  case base
  then show ?case using assms(3) by simp
next
  case (step b c)
  have "loop_inv b" by (rule steps_loop_inv [OF step.hyps(1) assms(2)])
  from closed_step [OF step.hyps(2) this] step.IH show ?case by auto
qed

text \<open>From anywhere, a stopped loop without running jobs can come to its end.\<close>

lemma backing_off_leaves:
  "ag_loop a = BackingOff \<Longrightarrow> ag_closed a \<Longrightarrow> \<not> ag_panicked a \<Longrightarrow> \<exists>c. agent_steps ho disk_works a c \<and> ag_loop c = Left"
  using backoff_leaves [of a ho disk_works] by (intro exI [of _ "a\<lparr>ag_loop := Left\<rparr>"]) auto

lemma draining_leaves:
  assumes "ag_loop a = Draining" "ag_closed a" "\<not> ag_panicked a" "ag_jobs a = []" "ag_urls a \<noteq> []"
  shows "\<exists>c. agent_steps ho disk_works a c \<and> ag_loop c = Left"
  using jobs_done [of a ho disk_works] backing_off_leaves [of "reconnect (a\<lparr>ag_session := False, ag_conn := False\<rparr>)" ho disk_works] assms
  by (simp add: reconnect_ok) (meson converse_rtranclp_into_rtranclp)

lemma serving_leaves:
  assumes "ag_loop a = Serving" "ag_closed a" "\<not> ag_panicked a" "ag_jobs a = []" "ag_urls a \<noteq> []"
  shows "\<exists>c. agent_steps ho disk_works a c \<and> ag_loop c = Left"
  using read_fails [of a ho disk_works] draining_leaves [of "a\<lparr>ag_loop := Draining\<rparr>" ho disk_works] assms
  by simp (meson converse_rtranclp_into_rtranclp)

lemma loop_can_leave:
  assumes "ag_closed a" "\<not> ag_panicked a" "ag_jobs a = []" "ag_urls a \<noteq> []"
  shows "\<exists>c. agent_steps ho disk_works a c \<and> ag_loop c = Left"
proof (cases "ag_loop a")
  case AtTop
  then show ?thesis
    using top_leaves [of a ho disk_works] assms by (intro exI [of _ "a\<lparr>ag_loop := Left\<rparr>"]) auto
next
  case Dialing
  then show ?thesis
    using dial_fails [of a ho disk_works] backing_off_leaves [of "reconnect a" ho disk_works] assms
    by (simp add: reconnect_ok) (meson converse_rtranclp_into_rtranclp)
next
  case Dialed
  then show ?thesis
    using session_set [of a ho disk_works]
      serving_leaves [of "a\<lparr>ag_loop := Serving, ag_session := True, ag_trigger := True\<rparr>" ho disk_works] assms
    by simp (meson converse_rtranclp_into_rtranclp)
qed (use serving_leaves draining_leaves backing_off_leaves assms in auto)

text \<open>C13: Stopping is final and ends the loop. After \<open>Stop\<close> the satellite stays closed, every step
  leaves the loop where it is or brings it nearer to its end, so that no further hub is dialled,
  a connection that had a session reads no further message, and unless the loop has panicked or
  is in the middle of dialling it can always go on to its end once the jobs that are running are
  done.\<close>

theorem stop_is_final:
  assumes "agent_steps ho disk_works (boot_agent d url tok agent_id key path cmds insecure) a" "\<not> ag_closed a"
    and "agent_steps ho disk_works (stop_agent a) b"
  shows "ag_closed b \<and> way_out (ag_loop b) \<le> way_out (ag_loop a) \<and> (ag_session a \<longrightarrow> \<not> ag_conn b) \<and>
    (\<forall>c. agent_step ho disk_works b c \<longrightarrow> ag_loop c = ag_loop b \<or> way_out (ag_loop c) < way_out (ag_loop b)) \<and>
    (\<not> ag_panicked b \<and> ag_jobs b = [] \<longrightarrow> (\<exists>c. agent_steps ho disk_works b c \<and> ag_loop c = Left))"
proof -
  have inva: "loop_inv a" by (rule steps_loop_inv [OF assms(1) loop_inv_boot])
  then have inv: "loop_inv (stop_agent a)" by (auto simp: loop_inv_def stop_agent_def)
  have cl: "ag_closed (stop_agent a)" by (simp add: stop_agent_def)
  note c = closed_steps [OF assms(3) inv cl]
  have invb: "loop_inv b" by (rule steps_loop_inv [OF assms(3) inv])
  have ne: "ag_urls b \<noteq> []" using invb by (simp add: loop_inv_def)
  have fin: "\<exists>c. agent_steps ho disk_works b c \<and> ag_loop c = Left" if "\<not> ag_panicked b" "ag_jobs b = []"
    using loop_can_leave [of b ho disk_works] that c ne by blast
  have "ag_session a \<longrightarrow> \<not> ag_conn b" "way_out (ag_loop b) \<le> way_out (ag_loop a)"
    using c assms(2) by (auto simp: stop_agent_def)
  moreover have "ag_loop x = ag_loop b \<or> way_out (ag_loop x) < way_out (ag_loop b)" if "agent_step ho disk_works b x" for x
    using closed_step [OF that invb] c by blast
  ultimately show ?thesis using fin c by blast
qed

theorem stop_is_final_witness:
  "\<exists>b c. b = stop_agent (boot_agent (\<lambda>_. None) ''ws://a/ws'' ''tok'' ''s1'' None [] [] False) \<and>
     agent_steps sample_host True b c \<and> ag_loop c = Left"
proof -
  let ?a = "boot_agent (\<lambda>_. None) ''ws://a/ws'' ''tok'' ''s1'' None [] [] False"
  have "ag_jobs (stop_agent ?a) = []" "\<not> ag_panicked (stop_agent ?a)"
    by (simp_all add: stop_agent_def boot_agent_def start_agent_def set_custom_commands_def set_insecure_def new_agent_def)
  then show ?thesis using stop_is_final [of sample_host True "\<lambda>_. None" "''ws://a/ws''" "''tok''" "''s1''" None "[]" "[]" False ?a "stop_agent ?a"]
    by auto
qed

text \<open>\<open>Stop\<close> can miss a connection. Called after the dial has succeeded and before the session is
  recorded, it closes nothing, and a second call returns at once: the satellite goes on to serve
  the hub over an open connection and handles its messages, and the loop ends only when the hub
  or the network ends the connection.\<close>

theorem stop_misses_connection:
  assumes "agent_steps ho disk_works (boot_agent d url tok agent_id key path cmds insecure) a"
    and "ag_loop a = Dialed" "ag_conn a" "\<not> ag_closed a" "\<not> ag_panicked a"
  shows "\<exists>b. agent_steps ho disk_works (stop_agent a) b \<and> ag_closed b \<and> ag_loop b = Serving \<and> ag_conn b \<and> stop_agent b = b \<and>
    (\<exists>c. agent_steps ho disk_works b c \<and> ag_loop c = Serving \<and> ag_out c =
       ag_out b @ sent_reply True (snd (agent_handle_request ho WriteOk (b\<lparr>ag_jobs := [msg]\<rparr>) msg)))"
proof -
  have ns: "\<not> ag_session a" and nj: "ag_jobs a = []"
    using steps_loop_inv [OF assms(1) loop_inv_boot] assms(2) by (auto simp: loop_inv_def)
  let ?s = "stop_agent a"
  let ?b = "?s\<lparr>ag_loop := Serving, ag_session := True, ag_trigger := True\<rparr>"
  have s: "ag_loop ?s = Dialed" "ag_conn ?s" "\<not> ag_panicked ?s" "ag_jobs ?s = []" "ag_closed ?s"
    using assms ns nj by (simp_all add: stop_agent_def)
  have "agent_step ho disk_works ?s ?b" by (rule session_set) (use s in auto)
  moreover
  let ?r = "?b\<lparr>ag_jobs := [msg]\<rparr>"
  have r: "agent_step ho disk_works ?b ?r" using message_read [of ?b ho disk_works msg] s by simp
  obtain h reply where h: "agent_handle_request ho WriteOk ?r msg = (h, reply)" by fastforce
  let ?c = "h\<lparr>ag_jobs := remove_nth 0 (ag_jobs ?r), ag_out := ag_out ?r @ sent_reply True reply\<rparr>"
  have c: "agent_step ho disk_works ?r ?c" by (rule message_handled [of _ 0 _ WriteOk]) (use s h in auto)
  have "agent_steps ho disk_works ?b ?c" using r c by (meson converse_rtranclp_into_rtranclp r_into_rtranclp)
  moreover have "ag_loop ?c = Serving" using handle_request_cases [OF h] by cases simp_all
  moreover have "ag_out ?c = ag_out ?b @ sent_reply True (snd (agent_handle_request ho WriteOk ?r msg))" using h by simp
  ultimately show ?thesis using s
    by (intro exI [of _ ?b] conjI exI [of _ ?c]) (auto simp: stop_agent_def)
qed

theorem stop_misses_connection_witness:
  "\<exists>a b. ag_loop a = Dialed \<and> agent_steps sample_host True (stop_agent a) b \<and> ag_closed b \<and> ag_loop b = Serving \<and> ag_conn b"
proof -
  let ?a = "boot_agent (\<lambda>_. None) ''ws://a/ws'' ''tok'' ''s1'' None [] [] False"
  let ?b = "?a\<lparr>ag_loop := Dialing\<rparr>"
  let ?c = "?b\<lparr>ag_loop := Dialed, ag_conn := True, ag_backoff := 1\<rparr>"
  have "agent_step sample_host True ?a ?b" by (rule top_dials) (simp_all add: loop_inv_url [OF loop_inv_boot])
  moreover have "agent_step sample_host True ?b ?c" by (rule dial_succeeds) simp_all
  ultimately have "agent_steps sample_host True ?a ?c" by (meson converse_rtranclp_into_rtranclp r_into_rtranclp)
  then obtain b where "agent_steps sample_host True (stop_agent ?c) b" "ag_closed b" "ag_loop b = Serving" "ag_conn b"
    using stop_misses_connection [of sample_host True "\<lambda>_. None" "''ws://a/ws''" "''tok''" "''s1''" None "[]" "[]" False ?c None]
    by auto
  then show ?thesis by (intro exI [of _ ?c] exI [of _ b]) simp
qed

section \<open>Every scheduled task is served\<close>

text \<open>The goroutines of the last schedule list are the last ones that were started. \<open>on_duty\<close> says
  that one of them is at work on its task: a recurring one is waiting under the current
  context or running its job, and has ended only if the satellite was stopped.\<close>

definition on_duty :: "nat \<Rightarrow> bool \<Rightarrow> runner \<Rightarrow> bool" where
  "on_duty epoch gone r =
     (case rn_phase r of
        Begun \<Rightarrow> True
      | AtFirst e \<Rightarrow> e = epoch \<and> 0 < st_interval (rn_task r)
      | AtTick e \<Rightarrow> e = epoch \<and> 0 < st_interval (rn_task r)
      | InJob \<Rightarrow> 0 < st_interval (rn_task r)
      | InOneOff \<Rightarrow> st_interval (rn_task r) \<le> 0
      | Ended \<Rightarrow> st_interval (rn_task r) \<le> 0 \<or> gone)"

definition first_current :: "agent \<Rightarrow> nat" where
  "first_current a = length (ag_runners a) - length (ag_schedules a)"

definition served :: "agent \<Rightarrow> bool" where
  "served a \<longleftrightarrow> length (ag_schedules a) \<le> length (ag_runners a) \<and>
     map rn_task (drop (first_current a) (ag_runners a)) = ag_schedules a \<and>
     (\<forall>i. first_current a \<le> i \<and> i < length (ag_runners a) \<longrightarrow> on_duty (ag_epoch a) (ag_closed a) (ag_runners a ! i))"

lemma served_frame:
  assumes "served a" "ag_runners b = ag_runners a" "ag_schedules b = ag_schedules a" "ag_epoch b = ag_epoch a"
    "ag_closed a \<Longrightarrow> ag_closed b"
  shows "served b"
  using assms unfolding served_def first_current_def on_duty_def by (auto split: runner_phase.splits)

lemma served_set_runner:
  assumes "served a" "i < length (ag_runners a)"
    and "on_duty (ag_epoch a) (ag_closed a) (ag_runners a ! i) \<Longrightarrow>
      on_duty (ag_epoch a) (ag_closed a) ((ag_runners a ! i)\<lparr>rn_phase := ph\<rparr>)"
  shows "served (set_runner i ph a)"
proof -
  have f: "first_current (set_runner i ph a) = first_current a" by (simp add: first_current_def)
  have "map rn_task (ag_runners (set_runner i ph a)) = map rn_task (ag_runners a)"
    using assms(2) by (intro nth_equalityI) (auto simp: set_runner_at)
  then have "map rn_task (drop (first_current a) (ag_runners (set_runner i ph a))) = map rn_task (drop (first_current a) (ag_runners a))"
    by (simp flip: drop_map)
  then show ?thesis using assms by (auto simp: served_def f set_runner_at)
qed

lemma served_fresh:
  assumes "ag_runners a = old @ map (\<lambda>t. \<lparr>rn_task = t, rn_phase = Begun\<rparr>) (ag_schedules a)"
  shows "served a"
proof -
  have "first_current a = length old" using assms by (simp add: first_current_def)
  then show ?thesis using assms by (auto simp: served_def on_duty_def nth_append comp_def)
qed

lemma served_step: "agent_step ho disk_works a b \<Longrightarrow> served a \<Longrightarrow> served b"
proof (induction rule: agent_step.induct)
  case (message_handled a i w b reply written)
  show ?case using handle_request_cases [OF message_handled.hyps(4)]
  proof cases
    case (2 doc ts)
    then show ?thesis by (intro served_fresh [of _ "ag_runners a"]) simp
  qed (use message_handled.prems in \<open>auto intro: served_frame\<close>)
next
  case (runner_begins a i)
  show ?case
  proof (cases "begin_runner a (task_at a i)")
    case None
    then show ?thesis using runner_begins.prems by (auto intro: served_frame)
  next
    case (Some ph)
    then have "on_duty (ag_epoch a) (ag_closed a) ((ag_runners a ! i)\<lparr>rn_phase := ph\<rparr>)"
      by (auto simp: begin_runner_def on_duty_def task_at_def split: if_splits)
    then show ?thesis using Some served_set_runner [OF runner_begins.prems runner_begins.hyps(2)] by simp
  qed
next
  case (runner_cancelled a i e)
  then show ?case
    by (intro served_set_runner) (auto simp: on_duty_def phase_at_def cancelled_def)
next
  case (runner_fires a i e)
  then show ?case by (intro served_set_runner) (auto simp: on_duty_def phase_at_def)
next
  case (runner_done a i w now)
  have "served (run_scheduled_task ho w now a (task_at a i))"
    by (rule served_frame [OF runner_done.prems]) simp_all
  then show ?case using runner_done.hyps
    by (intro served_set_runner) (auto simp: on_duty_def phase_at_def)
next
  case (one_off_done a i w now)
  have "served (run_scheduled_task ho w now a (task_at a i))"
    by (rule served_frame [OF one_off_done.prems]) simp_all
  then show ?case using one_off_done.hyps
    by (intro served_set_runner) (auto simp: on_duty_def phase_at_def)
qed (auto intro: served_frame simp: stop_agent_def reconnect_def switch_hub_def split: option.split)

lemma steps_served: "agent_steps ho disk_works a b \<Longrightarrow> served a \<Longrightarrow> served b"
  by (erule reachable_inv) (use served_step in auto)

lemma served_boot: "served (boot_agent d url tok agent_id key path cmds insecure)"
  by (rule served_fresh [of _ "[]"]) simp

text \<open>C14: No scheduled task is forgotten. In every reachable state each task of the list the satellite
  holds, the one read from disk or the last one a hub sent, has its own goroutine, in the order
  of the list, and as long as the satellite is not stopped the goroutine of a recurring task has
  not ended and waits, if it waits, under the context of that list.\<close>

theorem tasks_served:
  assumes "agent_steps ho disk_works (boot_agent d url tok agent_id key path cmds insecure) a" "\<not> ag_closed a"
  shows "\<exists>old current. ag_runners a = old @ current \<and> map rn_task current = ag_schedules a \<and>
    list_all (\<lambda>r. 0 < st_interval (rn_task r) \<longrightarrow>
       rn_phase r \<in> {Begun, AtFirst (ag_epoch a), AtTick (ag_epoch a), InJob}) current"
proof -
  have sv: "served a" by (rule steps_served [OF assms(1) served_boot])
  let ?k = "first_current a"
  have "list_all (\<lambda>r. 0 < st_interval (rn_task r) \<longrightarrow>
       rn_phase r \<in> {Begun, AtFirst (ag_epoch a), AtTick (ag_epoch a), InJob}) (drop ?k (ag_runners a))"
    unfolding list_all_length
  proof (intro allI impI)
    fix i assume i: "i < length (drop ?k (ag_runners a))" and pos: "0 < st_interval (rn_task (drop ?k (ag_runners a) ! i))"
    have "on_duty (ag_epoch a) (ag_closed a) (ag_runners a ! (?k + i))" using sv i by (simp add: served_def)
    then show "rn_phase (drop ?k (ag_runners a) ! i) \<in> {Begun, AtFirst (ag_epoch a), AtTick (ag_epoch a), InJob}"
      using pos i assms(2) by (auto simp: on_duty_def split: runner_phase.splits)
  qed
  then show ?thesis using sv
    by (intro exI [of _ "take ?k (ag_runners a)"] exI [of _ "drop ?k (ag_runners a)"]) (simp add: served_def)
qed

text \<open>A satellite that has just received one recurring task, used in witnesses.\<close>

definition ping_task :: scheduled_task where
  "ping_task = \<lparr>st_id = ''p'', st_interval = 10, st_method = ''ping'', st_params = None\<rparr>"

definition tasked_disk :: disk where
  "tasked_disk = [schedules_cache_path \<mapsto> \<lparr>df_doc = Some (enc_tasks [ping_task]), df_error = None\<rparr>]"

lemma tasked_schedules: "stored_schedules tasked_disk schedules_cache_path = [ping_task\<lparr>st_params := Some JNull\<rparr>]"
  using task_codec.unmarshal_list [of "[ping_task]"]
  by (simp add: stored_schedules_def tasked_disk_def dec_tasks_def enc_tasks_def ping_task_def
      int64_range_def sent_params_def enc_raw_def)

definition tasked_agent :: agent where
  "tasked_agent = boot_agent tasked_disk ''ws://a/ws'' ''tok'' ''s1'' None [] [] False"

theorem tasks_served_witness:
  "\<exists>r. ag_runners tasked_agent = [r] \<and> [rn_task r] = ag_schedules tasked_agent \<and> 0 < st_interval (rn_task r)"
  using tasks_served [of sample_host True tasked_disk "''ws://a/ws''" "''tok''" "''s1''" None "[]" "[]" False tasked_agent]
  by (auto simp: tasked_agent_def tasked_schedules ping_task_def)

text \<open>One more execution of a task whose job is running: it ends, the timer fires, the next begins.\<close>

definition next_round :: "host \<Rightarrow> nat \<Rightarrow> int \<Rightarrow> agent \<Rightarrow> agent" where
  "next_round ho i now a = set_runner i InJob (set_runner i (AtTick (ag_epoch a))
     (run_scheduled_task ho WriteOk now a (task_at a i)))"

lemma next_round_fields [simp]:
  "i < length (ag_runners a) \<Longrightarrow> phase_at (next_round ho i now a) i = InJob"
  "i < length (ag_runners a) \<Longrightarrow> task_at (next_round ho i now a) i = task_at a i"
  "ag_schedules (next_round ho i now a) = ag_schedules a" "ag_epoch (next_round ho i now a) = ag_epoch a"
  "ag_panicked (next_round ho i now a) = ag_panicked a"
  "length (ag_runners (next_round ho i now a)) = length (ag_runners a)"
  by (simp_all add: next_round_def phase_at_def task_at_def set_runner_at)

lemma next_round_steps:
  assumes "i < length (ag_runners a)" "phase_at a i = InJob" "\<not> ag_panicked a" "int64_range now"
  shows "agent_steps ho disk_works a (next_round ho i now a)"
proof -
  let ?b = "set_runner i (AtTick (ag_epoch a)) (run_scheduled_task ho WriteOk now a (task_at a i))"
  have "agent_step ho disk_works a ?b" by (rule runner_done) (use assms in auto)
  moreover have "agent_step ho disk_works ?b (set_runner i InJob ?b)"
    by (rule runner_fires [of _ _ "ag_epoch a"]) (use assms in \<open>auto simp: phase_at_def set_runner_at\<close>)
  ultimately show ?thesis by (simp add: next_round_def; meson converse_rtranclp_into_rtranclp r_into_rtranclp)
qed

lemma next_rounds:
  assumes "i < length (ag_runners a)" "phase_at a i = InJob" "\<not> ag_panicked a" "int64_range now"
  shows "agent_steps ho disk_works a ((next_round ho i now ^^ n) a) \<and>
    ag_schedules ((next_round ho i now ^^ n) a) = ag_schedules a \<and> ag_epoch ((next_round ho i now ^^ n) a) = ag_epoch a \<and>
    task_at ((next_round ho i now ^^ n) a) i = task_at a i \<and> phase_at ((next_round ho i now ^^ n) a) i = InJob \<and>
    length (ag_runners ((next_round ho i now ^^ n) a)) = length (ag_runners a) \<and> \<not> ag_panicked ((next_round ho i now ^^ n) a)"
proof (induction n)
  case (Suc n)
  let ?b = "(next_round ho i now ^^ n) a"
  have "agent_steps ho disk_works ?b (next_round ho i now ?b)"
    by (rule next_round_steps) (use Suc.IH assms in auto)
  then have "agent_steps ho disk_works a (next_round ho i now ?b)" using Suc.IH by (meson rtranclp_trans)
  then show ?case using Suc.IH assms(1) by simp
qed (use assms in simp)

text \<open>C32: A task that is removed while its job runs is not stopped. When the hub sends a new list in
  that moment, the goroutine of the old task, which looks up the context only when its job is
  done, goes on under the context of the new list: the removed task can be run any number of
  times more, without any further message, while the schedules are those of the new list.\<close>

theorem removed_task_runs_on:
  assumes "i < length (ag_runners a)" "phase_at a i = InJob" "\<not> ag_panicked a" "int64_range now"
  shows "\<exists>b. b = (next_round ho i now ^^ n) (sync_schedules w doc ts a) \<and>
    agent_steps ho disk_works (sync_schedules w doc ts a) b \<and> ag_schedules b = ts \<and> ag_epoch b = Suc (ag_epoch a) \<and>
    phase_at b i = InJob \<and> task_at b i = task_at a i"
proof -
  have "i < length (ag_runners (sync_schedules w doc ts a))" "phase_at (sync_schedules w doc ts a) i = InJob"
    "task_at (sync_schedules w doc ts a) i = task_at a i" "\<not> ag_panicked (sync_schedules w doc ts a)"
    using assms by (simp_all add: phase_at_def task_at_def nth_append)
  with next_rounds [OF this(1,2,4) assms(4), of ho disk_works n] show ?thesis by simp
qed

text \<open>The satellite of the witnesses while the job of its task runs.\<close>

definition tasked_in_job :: agent where
  "tasked_in_job = set_runner 0 InJob (set_runner 0 (AtFirst 1) tasked_agent)"

lemma tasked_in_job:
  "agent_steps sample_host True tasked_agent tasked_in_job" "length (ag_runners tasked_in_job) = Suc 0"
  "phase_at tasked_in_job 0 = InJob" "\<not> ag_panicked tasked_in_job" "ag_epoch tasked_in_job = 1"
  "task_at tasked_in_job 0 = ping_task\<lparr>st_params := Some JNull\<rparr>"
proof -
  let ?t = "ping_task\<lparr>st_params := Some JNull\<rparr>"
  let ?b = "set_runner 0 (AtFirst 1) tasked_agent"
  have t: "ag_runners tasked_agent = [\<lparr>rn_task = ?t, rn_phase = Begun\<rparr>]" "\<not> ag_panicked tasked_agent" "ag_epoch tasked_agent = 1"
    by (simp_all add: tasked_agent_def tasked_schedules)
  have p: "phase_at tasked_agent 0 = Begun" "task_at tasked_agent 0 = ?t" by (simp_all add: phase_at_def task_at_def t)
  have "begin_runner tasked_agent (task_at tasked_agent 0) = Some (AtFirst 1)"
    using interval_limit [of ?t] by (simp add: begin_runner_def p t ping_task_def)
  then have "agent_step sample_host True tasked_agent ?b"
    using runner_begins [of tasked_agent 0 sample_host True] t p by simp
  moreover have "agent_step sample_host True ?b tasked_in_job" unfolding tasked_in_job_def
    by (rule runner_fires [of _ _ 1]) (simp_all add: t phase_at_def set_runner_at)
  ultimately show "agent_steps sample_host True tasked_agent tasked_in_job"
    by (meson converse_rtranclp_into_rtranclp r_into_rtranclp)
  show "length (ag_runners tasked_in_job) = Suc 0" "phase_at tasked_in_job 0 = InJob" "\<not> ag_panicked tasked_in_job"
    "ag_epoch tasked_in_job = 1" "task_at tasked_in_job 0 = ?t"
    by (simp_all add: tasked_in_job_def t phase_at_def task_at_def set_runner_at)
qed

theorem removed_task_runs_on_witness:
  "\<exists>b. agent_steps sample_host True (sync_schedules WriteOk JNull [] tasked_in_job) b \<and>
     ag_schedules b = [] \<and> phase_at b 0 = InJob \<and> task_at b 0 = ping_task\<lparr>st_params := Some JNull\<rparr>"
proof -
  have "0 < length (ag_runners tasked_in_job)" "int64_range 0" by (simp_all add: int64_range_def tasked_in_job(2))
  from removed_task_runs_on [OF this(1) tasked_in_job(3,4) this(2), of 5 sample_host WriteOk JNull "[]" True]
  show ?thesis using tasked_in_job(6) by auto
qed

section \<open>No result is lost\<close>

text \<open>The results that were handed over, read off the messages that were written.\<close>

definition metric_of :: "json \<Rightarrow> metric_submission option" where
  "metric_of m =
     (case unmarshal dec_request zero_request (Some m) of
        None \<Rightarrow> None
      | Some req \<Rightarrow> if rq_method req = ''submit_metric'' then unmarshal dec_metric zero_metric (rq_params req) else None)"

definition in_flush :: "agent \<Rightarrow> nat" where
  "in_flush a = (case ag_flushing a of None \<Rightarrow> 0 | Some n \<Rightarrow> n)"

text \<open>All results so far, in order: those handed over and those still to be, without the ones that
  are on their way to be dropped from the file.\<close>

definition results :: "agent \<Rightarrow> metric_submission list" where
  "results a = List.map_filter metric_of (ag_out a) @
     drop (in_flush a) (cache_items (ag_cache_path a) (ag_disk a))"

definition results_inv :: "agent \<Rightarrow> bool" where
  "results_inv a \<longleftrightarrow> cache_wf (ag_cache_path a) (ag_disk a) \<and> ag_cache_path a \<noteq> ag_sched_path a \<and>
     in_flush a \<le> length (cache_items (ag_cache_path a) (ag_disk a))"

lemma metric_of_submit: "metric_ok m \<Longrightarrow> metric_of (submit_request m) = Some m"
  by (simp add: metric_of_def submit_request_def request_decodes unmarshal_def [of dec_metric]
      metric_roundtrip metric_ok_def)

lemma metric_of_response: "metric_of (enc_response resp) = None"
proof -
  have "field ''method'' dec_string [] ([(''jsonrpc'', JStr (rs_jsonrpc resp))] @ omit_none ''result'' (rs_result resp)
      @ omit_none ''error'' (map_option enc_error (rs_error resp)) @ [(''id'', enc_raw (rs_id resp))]) = Some []"
    by (cases "rs_result resp"; cases "rs_error resp") (simp_all add: codec_defs codec_simps)
  then show ?thesis
    by (auto simp: metric_of_def unmarshal_def dec_request_def dec_struct_def enc_response_def zero_request_def
        split: option.splits)
qed

lemma send_metrics_prefix: "\<exists>k\<le>length ms. send_metrics oks ms = map submit_request (take k ms)"
proof (induction oks ms rule: send_metrics.induct)
  case (1 oks m ms)
  then obtain k where "k \<le> length ms" "send_metrics oks ms = map submit_request (take k ms)" by blast
  then show ?case by (intro exI [of _ "Suc k"]) simp
qed (auto intro: exI [of _ 0])

lemma map_filter_append: "List.map_filter f (xs @ ys) = List.map_filter f xs @ List.map_filter f ys"
  by (simp add: List.map_filter_def)

lemma handed_over: "list_all metric_ok ms \<Longrightarrow> List.map_filter metric_of (map submit_request ms) = ms"
  by (induction ms) (simp_all add: List.map_filter_simps metric_of_submit)

lemma cache_other_file:
  assumes "d p = d' p"
  shows "cache_items p d = cache_items p d'" "cache_wf p d = cache_wf p d'"
  using assms by (simp_all add: cache_items_def cache_wf_def cache_load_def)

lemma write_doc_other: "p \<noteq> q \<Longrightarrow> fst (write_doc w d q j) p = d p"
  by (simp add: write_doc_def split: write_outcome.split)

lemma results_frame:
  assumes "ag_out b = ag_out a" "ag_flushing b = ag_flushing a" "ag_cache_path b = ag_cache_path a"
    "ag_sched_path b = ag_sched_path a" "ag_disk b (ag_cache_path a) = ag_disk a (ag_cache_path a)"
  shows "results b = results a" "results_inv b = results_inv a"
  using assms cache_other_file [of "ag_disk b" "ag_cache_path a" "ag_disk a"]
  by (simp_all add: results_def results_inv_def in_flush_def)

lemma results_task:
  assumes "results_inv a" "int64_range now"
  shows "results_inv (run_scheduled_task ho WriteOk now a t) \<and> prefix (results a) (results (run_scheduled_task ho WriteOk now a t))"
proof (cases "run_job ho (ag_commands a) (st_method t) (st_params t)")
  case None
  then show ?thesis using assms(1) by (simp add: run_scheduled_task_def)
next
  case (Some r)
  let ?m = "task_result now a t r" and ?p = "ag_cache_path a"
  have wf: "cache_wf ?p (ag_disk a)" and ok: "metric_ok ?m"
    using assms by (simp_all add: results_inv_def metric_ok_def task_result_def)
  note add = cache_add_ok [OF wf ok]
  have b: "run_scheduled_task ho WriteOk now a t = a\<lparr>ag_disk := fst (cache_add WriteOk (ag_disk a) ?p ?m), ag_trigger := True\<rparr>"
    using Some add(1) by (cases "cache_add WriteOk (ag_disk a) ?p ?m") (simp add: run_scheduled_task_def)
  have "in_flush a \<le> length (cache_items ?p (ag_disk a))" using assms(1) by (simp add: results_inv_def in_flush_def)
  then have "results (run_scheduled_task ho WriteOk now a t) = results a @ [?m]"
    by (simp add: b results_def in_flush_def add(3))
  moreover have "results_inv (run_scheduled_task ho WriteOk now a t)"
    using assms(1) add(2,3) by (simp add: b results_inv_def in_flush_def)
  ultimately show ?thesis by simp
qed

lemma results_set_runner: "results (set_runner i ph a) = results a" "results_inv (set_runner i ph a) = results_inv a"
  by (rule results_frame; simp)+

lemma results_send:
  assumes "results_inv a" "ag_flushing a = None"
  shows "results_inv (flush_send oks a) \<and> results (flush_send oks a) = results a"
proof (cases "ag_session a")
  case False
  then show ?thesis using assms by (simp add: flush_send_def)
next
  case True
  let ?ms = "cache_items (ag_cache_path a) (ag_disk a)"
  have wf: "cache_wf (ag_cache_path a) (ag_disk a)" using assms(1) by (simp add: results_inv_def in_flush_def)
  obtain k where k: "k \<le> length ?ms" "send_metrics oks ?ms = map submit_request (take k ?ms)"
    using send_metrics_prefix by blast
  have b: "flush_send oks a = a\<lparr>ag_out := ag_out a @ map submit_request (take k ?ms), ag_flushing := Some k\<rparr>"
    using True k by (simp add: flush_send_def cache_pop_all_def cache_wf_load [OF wf] Let_def)
  have "list_all metric_ok (take k ?ms)" using cache_wf_items [OF wf] by (auto simp: list_all_iff dest: in_set_takeD)
  then have "results (flush_send oks a) = results a"
    using assms(2) by (simp add: b results_def in_flush_def map_filter_append handed_over)
  then show ?thesis using assms k by (simp add: b results_inv_def in_flush_def)
qed

lemma results_drop:
  assumes "results_inv a"
  shows "results_inv (flush_drop WriteOk None a) \<and> results (flush_drop WriteOk None a) = results a"
proof (cases "ag_flushing a")
  case None
  then show ?thesis using assms by (simp add: flush_drop_def)
next
  case (Some n)
  have wf: "cache_wf (ag_cache_path a) (ag_disk a)" using assms by (simp add: results_inv_def in_flush_def)
  show ?thesis
    using Some assms cache_remove_ok [OF wf, of n] by (simp add: flush_drop_def results_def results_inv_def in_flush_def)
qed

lemma handle_request_disk:
  assumes "agent_handle_request ho w a msg = (b, reply)" "ag_cache_path a \<noteq> ag_sched_path a"
  shows "ag_flushing b = ag_flushing a \<and> ag_cache_path b = ag_cache_path a \<and> ag_sched_path b = ag_sched_path a \<and>
    ag_disk b (ag_cache_path a) = ag_disk a (ag_cache_path a)"
  using handle_request_cases [OF assms(1)]
proof cases
  case (2 doc ts)
  then show ?thesis using write_doc_other [OF assms(2)] by (simp add: sync_schedules_def Let_def)
qed simp_all

lemma results_step: "agent_step ho disk_works a b \<Longrightarrow> disk_works \<Longrightarrow> results_inv a \<Longrightarrow> results_inv b \<and> prefix (results a) (results b)"
proof (induction rule: agent_step.induct)
  case (message_handled a i w b reply written)
  let ?c = "b\<lparr>ag_jobs := remove_nth i (ag_jobs a), ag_out := ag_out a @ sent_reply written reply\<rparr>"
  have ne: "ag_cache_path a \<noteq> ag_sched_path a" using message_handled.prems by (simp add: results_inv_def in_flush_def)
  have "List.map_filter metric_of (sent_reply written reply) = []"
  proof (cases "is_response (ag_jobs a ! i)")
    case True
    then have "reply = None" using message_handled.hyps(4) by (auto simp: agent_handle_request_def)
    then show ?thesis by (simp add: sent_reply_def List.map_filter_simps)
  next
    case False
    from request_reply [OF this message_handled.hyps(4)] obtain resp where "reply = Some (enc_response resp)" by blast
    then show ?thesis by (simp add: sent_reply_def List.map_filter_simps metric_of_response)
  qed
  then have out: "List.map_filter metric_of (ag_out ?c) = List.map_filter metric_of (ag_out a)"
    by (simp add: map_filter_append)
  have b: "ag_flushing b = ag_flushing a" "ag_cache_path b = ag_cache_path a" "ag_sched_path b = ag_sched_path a"
    "ag_disk b (ag_cache_path a) = ag_disk a (ag_cache_path a)"
    using handle_request_disk [OF message_handled.hyps(4) ne] by blast+
  have "results ?c = results a" "results_inv ?c = results_inv a"
    using out b cache_other_file [of "ag_disk b" "ag_cache_path a" "ag_disk a"] by (simp_all add: results_def results_inv_def in_flush_def)
  then show ?case using message_handled.prems by simp
next
  case (results_sent a ticked oks)
  have "results ((flush_send oks a)\<lparr>ag_trigger := t\<rparr>) = results (flush_send oks a)"
    "results_inv ((flush_send oks a)\<lparr>ag_trigger := t\<rparr>) = results_inv (flush_send oks a)" for t
    by (rule results_frame; simp)+
  then show ?case using results_send [OF results_sent.prems(2) results_sent.hyps(2)] by simp
next
  case (results_dropped a w rm)
  then show ?case using results_drop by auto
next
  case (runner_begins a i)
  have "results (panic a) = results a" "results_inv (panic a) = results_inv a" by (rule results_frame; simp)+
  then show ?case using runner_begins.prems by (simp add: results_set_runner split: option.split)
next
  case (runner_done a i w now)
  then show ?case using results_task by (simp add: results_set_runner)
next
  case (one_off_done a i w now)
  then show ?case using results_task by (simp add: results_set_runner)
next
  case (runner_cancelled a i e)
  then show ?case by (simp add: results_set_runner)
next
  case (runner_fires a i e)
  then show ?case by (simp add: results_set_runner)
qed (simp_all add: results_def results_inv_def in_flush_def reconnect_def switch_hub_def stop_agent_def panic_def)

text \<open>C5: While the disk works no result is lost, duplicated or reordered on its way to the hub. In every
  run the results handed over, followed by those that wait in the cache file, only grow at the
  end: what an execution adds stays, through lost connections, writes that fail, flushes that
  overlap with further results, changes of schedules and restarts of the connection, and what a
  flush drops from the file is exactly what it has written to the connection.\<close>

theorem results_conserved:
  assumes "cache_wf (ag_cache_path a) (ag_disk a)" "ag_cache_path a \<noteq> ag_sched_path a" "ag_flushing a = None"
    and "agent_steps ho True a b"
  shows "prefix (results a) (results b) \<and> results a = List.map_filter metric_of (ag_out a) @ cache_items (ag_cache_path a) (ag_disk a)"
proof -
  have "results_inv a" using assms(1-3) by (simp add: results_inv_def in_flush_def)
  with assms(4) have "results_inv b \<and> prefix (results a) (results b)"
  proof (induction rule: rtranclp_induct)
    case (step b c)
    then show ?case using results_step [OF step.hyps(2)] by (meson prefix_order.trans)
  qed simp
  then show ?thesis using assms(3) by (simp add: results_def in_flush_def)
qed

theorem results_conserved_witness:
  "\<exists>b. agent_steps sample_host True tasked_in_job b \<and> phase_at b 0 = AtTick 1 \<and> prefix (results tasked_in_job) (results b)"
proof -
  let ?a = tasked_in_job
  let ?b = "set_runner 0 (AtTick (ag_epoch ?a)) (run_scheduled_task sample_host WriteOk 0 ?a (task_at ?a 0))"
  have "agent_step sample_host True ?a ?b"
    by (rule runner_done) (simp_all add: tasked_in_job int64_range_def)
  then have s: "agent_steps sample_host True ?a ?b" by blast
  have p: "ag_cache_path ?a = default_cache_path" "ag_sched_path ?a = schedules_cache_path" "ag_disk ?a = tasked_disk"
    "ag_flushing ?a = None" by (simp_all add: tasked_in_job_def tasked_agent_def)
  have ne: "default_cache_path \<noteq> schedules_cache_path" by (simp add: default_cache_path_def schedules_cache_path_def)
  then have "cache_wf (ag_cache_path ?a) (ag_disk ?a)" by (simp add: p cache_wf_def cache_load_def tasked_disk_def)
  moreover have "ag_cache_path ?a \<noteq> ag_sched_path ?a" using ne by (simp add: p)
  ultimately have "prefix (results ?a) (results ?b)" using results_conserved [OF _ _ p(4) s] by blast
  moreover have "phase_at ?b 0 = AtTick 1" by (simp add: phase_at_def set_runner_at tasked_in_job)
  ultimately show ?thesis using s by blast
qed

end
