(* ===== verification/Configs.thy ===== *)
theory Configs
  imports AgentRun HubServer
begin

text \<open>
  Configuration and start of the two programs: \<open>agent/config.go\<close> and \<open>cmd/agent/main.go\<close> for the
  satellite, \<open>hub/config.go\<close> and the first part of \<open>cmd/hub/main.go\<close> for the hub. A
  configuration file is its first JSON document (\<open>None\<close> when there is none), or the error of
  opening it; \<open>json_err\<close> gives the text of a decoding error. \<open>Inl\<close> is a fatal error. The private
  key file is in the file system of theory KeyFiles, the other files of the satellite are JSON
  documents on the disk of theory DiskCache.
\<close>

section \<open>The satellite's file\<close>

text \<open>A JSON object decoded into a map: each value into a fresh element, a later key wins.\<close>

fun dec_entries :: "'a decoder \<Rightarrow> 'a \<Rightarrow> (string \<times> 'a) list \<Rightarrow> (string \<times> json) list \<Rightarrow> (string \<times> 'a) list option" where
  "dec_entries d zero m [] = Some m"
| "dec_entries d zero m ((k, v) # kvs) =
     (case d zero v of None \<Rightarrow> None | Some x \<Rightarrow> dec_entries d zero (assoc_put k x m) kvs)"

definition dec_map :: "'a decoder \<Rightarrow> 'a \<Rightarrow> (string \<times> 'a) list decoder" where
  "dec_map d zero prev j = (case j of JNull \<Rightarrow> Some [] | JObj kvs \<Rightarrow> dec_entries d zero prev kvs | _ \<Rightarrow> None)"

definition dec_strings :: "string list decoder" where
  "dec_strings = dec_list dec_string []"

definition zero_rule :: param_rule where
  "zero_rule = \<lparr>pu_regex = [], pu_allowed = [], pu_required = False\<rparr>"

definition dec_rule :: "param_rule decoder" where
  "dec_rule = dec_struct (\<lambda>p kvs. fold (\<lambda>f r. Option.bind r (f kvs))
     [set_field ''regex'' dec_string pu_regex (\<lambda>v r. r\<lparr>pu_regex := v\<rparr>),
      set_field ''allowed_values'' dec_strings pu_allowed (\<lambda>v r. r\<lparr>pu_allowed := v\<rparr>),
      set_field ''required'' dec_bool pu_required (\<lambda>v r. r\<lparr>pu_required := v\<rparr>)] (Some p))"

definition zero_command :: custom_command where
  "zero_command = \<lparr>cc_type = [], cc_executable = [], cc_args = [], cc_rules = [], cc_paths = [],
     cc_max_bytes = 0, cc_timeout = 0, cc_env = []\<rparr>"

definition dec_command :: "custom_command decoder" where
  "dec_command = dec_struct (\<lambda>p kvs. fold (\<lambda>f r. Option.bind r (f kvs))
     [set_field ''type'' dec_string cc_type (\<lambda>v r. r\<lparr>cc_type := v\<rparr>),
      set_field ''executable'' dec_string cc_executable (\<lambda>v r. r\<lparr>cc_executable := v\<rparr>),
      set_field ''args'' dec_strings cc_args (\<lambda>v r. r\<lparr>cc_args := v\<rparr>),
      set_field ''param_rules'' (dec_map dec_rule zero_rule) cc_rules (\<lambda>v r. r\<lparr>cc_rules := v\<rparr>),
      set_field ''allowed_paths'' dec_strings cc_paths (\<lambda>v r. r\<lparr>cc_paths := v\<rparr>),
      set_field ''max_bytes'' dec_int cc_max_bytes (\<lambda>v r. r\<lparr>cc_max_bytes := v\<rparr>),
      set_field ''timeout_seconds'' dec_int cc_timeout (\<lambda>v r. r\<lparr>cc_timeout := v\<rparr>),
      set_field ''env'' dec_strings cc_env (\<lambda>v r. r\<lparr>cc_env := v\<rparr>)] (Some p))"

record agent_config =
  gc_hub_url :: string
  gc_auth_token :: string
  gc_key_path :: string
  gc_agent_id :: string
  gc_cache_path :: string
  gc_insecure :: bool
  gc_commands :: "(string \<times> custom_command) list"

definition zero_agent_config :: agent_config where
  "zero_agent_config = \<lparr>gc_hub_url = [], gc_auth_token = [], gc_key_path = [], gc_agent_id = [],
     gc_cache_path = [], gc_insecure = False, gc_commands = []\<rparr>"

definition dec_agent_config :: "agent_config decoder" where
  "dec_agent_config = dec_struct (\<lambda>p kvs. fold (\<lambda>f r. Option.bind r (f kvs))
     [set_field ''hub_url'' dec_string gc_hub_url (\<lambda>v r. r\<lparr>gc_hub_url := v\<rparr>),
      set_field ''auth_token'' dec_string gc_auth_token (\<lambda>v r. r\<lparr>gc_auth_token := v\<rparr>),
      set_field ''private_key_path'' dec_string gc_key_path (\<lambda>v r. r\<lparr>gc_key_path := v\<rparr>),
      set_field ''agent_id'' dec_string gc_agent_id (\<lambda>v r. r\<lparr>gc_agent_id := v\<rparr>),
      set_field ''cache_path'' dec_string gc_cache_path (\<lambda>v r. r\<lparr>gc_cache_path := v\<rparr>),
      set_field ''insecure_skip_verify'' dec_bool gc_insecure (\<lambda>v r. r\<lparr>gc_insecure := v\<rparr>),
      set_field ''commands'' (dec_map dec_command zero_command) gc_commands (\<lambda>v r. r\<lparr>gc_commands := v\<rparr>)] (Some p))"

definition field_required :: "string \<Rightarrow> string" where
  "field_required f = ''config field '' @ [char_of (39::nat)] @ f @ [char_of (39::nat)] @ '' is required''"

definition load_agent_config :: "(json option \<Rightarrow> string) \<Rightarrow> json option res \<Rightarrow> agent_config res" where
  "load_agent_config json_err opened =
     (case opened of
        Inl e \<Rightarrow> Inl (''failed to open config file: '' @ e)
      | Inr doc \<Rightarrow>
     (case unmarshal dec_agent_config zero_agent_config doc of
        None \<Rightarrow> Inl (''failed to decode config JSON: '' @ json_err doc)
      | Some cfg \<Rightarrow>
          if gc_hub_url cfg = [] then Inl (field_required ''hub_url'')
          else if gc_agent_id cfg = [] then Inl (field_required ''agent_id'')
          else Inr (if gc_cache_path cfg = [] then cfg\<lparr>gc_cache_path := default_cache_path\<rparr> else cfg)))"

section \<open>The satellite's start\<close>

record agent_flags =
  gf_config :: string
  gf_hub :: string
  gf_token :: string
  gf_id :: string
  gf_key :: string
  gf_insecure :: bool

definition default_agent_flags :: agent_flags where
  "default_agent_flags = \<lparr>gf_config = [], gf_hub = ''ws://localhost:8080/ws'', gf_token = ''super-secret-agent-token'',
     gf_id = ''satellite-site-a'', gf_key = ''redborder-satellite.key'', gf_insecure = False\<rparr>"

text \<open>The settings that the file or else the flags give. Without a file the cache path is left to
  \<open>NewAgent\<close>.\<close>

definition agent_settings ::
  "(json option \<Rightarrow> string) \<Rightarrow> (string \<Rightarrow> json option res) \<Rightarrow> agent_flags \<Rightarrow> agent_config res" where
  "agent_settings json_err open_file fl =
     (if gf_config fl \<noteq> [] then
        res_bind (res_map_err (\<lambda>e. ''Error loading config file: '' @ e) (load_agent_config json_err (open_file (gf_config fl))))
          (\<lambda>cfg. Inr (cfg\<lparr>gc_insecure := gc_insecure cfg \<or> gf_insecure fl\<rparr>))
      else Inr \<lparr>gc_hub_url = gf_hub fl, gc_auth_token = gf_token fl, gc_key_path = gf_key fl, gc_agent_id = gf_id fl,
                gc_cache_path = [], gc_insecure = gf_insecure fl, gc_commands = []\<rparr>)"

text \<open>The private key: none without a path, generated when its file is not there, loaded otherwise.\<close>

definition agent_key ::
  "crypto \<Rightarrow> (string \<times> string) res \<Rightarrow> fsys \<Rightarrow> string \<Rightarrow> fsys \<times> string option res" where
  "agent_key cr gen fs path =
     (if path = [] then (fs, Inr None)
      else if \<not> fs_exists fs path then
        (case generate_and_save_keys cr gen fs path (path @ ''.pub'') of
           (fs', Inl e) \<Rightarrow> (fs', Inl (''Failed to generate and save key pair: '' @ e))
         | (fs', Inr (priv, pub)) \<Rightarrow> (fs', Inr (Some priv)))
      else (case load_private_key_pem cr fs path of
              Inl e \<Rightarrow> (fs, Inl (''Failed to load agent private key: '' @ file_error_text e))
            | Inr priv \<Rightarrow> (fs, Inr (Some priv))))"

definition agent_main ::
  "crypto \<Rightarrow> (string \<times> string) res \<Rightarrow> (json option \<Rightarrow> string) \<Rightarrow> (string \<Rightarrow> json option res) \<Rightarrow>
   fsys \<Rightarrow> disk \<Rightarrow> agent_flags \<Rightarrow> fsys \<times> agent res" where
  "agent_main cr gen json_err open_file fs d fl =
     (case agent_settings json_err open_file fl of
        Inl e \<Rightarrow> (fs, Inl e)
      | Inr cfg \<Rightarrow>
     (case agent_key cr gen fs (gc_key_path cfg) of
        (fs', Inl e) \<Rightarrow> (fs', Inl e)
      | (fs', Inr key) \<Rightarrow>
          (fs', Inr (boot_agent d (gc_hub_url cfg) (gc_auth_token cfg) (gc_agent_id cfg) key (gc_cache_path cfg)
             (gc_commands cfg) (gc_insecure cfg)))))"

section \<open>The hub's file and start\<close>

record hub_config =
  hc_addr :: string
  hc_auth_token :: string
  hc_registration_token :: string
  hc_keys_dir :: string
  hc_debug :: bool
  hc_peers :: "string list"
  hc_my_url :: string
  hc_advertise :: bool

definition zero_hub_config :: hub_config where
  "zero_hub_config = \<lparr>hc_addr = [], hc_auth_token = [], hc_registration_token = [], hc_keys_dir = [],
     hc_debug = False, hc_peers = [], hc_my_url = [], hc_advertise = False\<rparr>"

definition dec_hub_config :: "hub_config decoder" where
  "dec_hub_config = dec_struct (\<lambda>p kvs. fold (\<lambda>f r. Option.bind r (f kvs))
     [set_field ''addr'' dec_string hc_addr (\<lambda>v r. r\<lparr>hc_addr := v\<rparr>),
      set_field ''auth_token'' dec_string hc_auth_token (\<lambda>v r. r\<lparr>hc_auth_token := v\<rparr>),
      set_field ''registration_token'' dec_string hc_registration_token (\<lambda>v r. r\<lparr>hc_registration_token := v\<rparr>),
      set_field ''authorized_keys_dir'' dec_string hc_keys_dir (\<lambda>v r. r\<lparr>hc_keys_dir := v\<rparr>),
      set_field ''debug'' dec_bool hc_debug (\<lambda>v r. r\<lparr>hc_debug := v\<rparr>),
      set_field ''peers'' dec_strings hc_peers (\<lambda>v r. r\<lparr>hc_peers := v\<rparr>),
      set_field ''my_url'' dec_string hc_my_url (\<lambda>v r. r\<lparr>hc_my_url := v\<rparr>),
      set_field ''advertise_peers'' dec_bool hc_advertise (\<lambda>v r. r\<lparr>hc_advertise := v\<rparr>)] (Some p))"

definition load_hub_config :: "(json option \<Rightarrow> string) \<Rightarrow> json option res \<Rightarrow> hub_config res" where
  "load_hub_config json_err opened =
     (case opened of
        Inl e \<Rightarrow> Inl (''failed to open config file: '' @ e)
      | Inr doc \<Rightarrow>
     (case unmarshal dec_hub_config zero_hub_config doc of
        None \<Rightarrow> Inl (''failed to decode config JSON: '' @ json_err doc)
      | Some cfg \<Rightarrow> Inr (if hc_addr cfg = [] then cfg\<lparr>hc_addr := '':8080''\<rparr> else cfg)))"

record hub_flags =
  hf_config :: string
  hf_token :: string
  hf_reg_token :: string
  hf_addr :: string
  hf_keys_dir :: string
  hf_debug :: bool
  hf_peers :: string
  hf_my_url :: string
  hf_advertise :: bool

definition default_hub_flags :: hub_flags where
  "default_hub_flags = \<lparr>hf_config = [], hf_token = ''super-secret-agent-token'', hf_reg_token = [], hf_addr = '':8080'',
     hf_keys_dir = ''authorized_keys'', hf_debug = False, hf_peers = [], hf_my_url = [], hf_advertise = True\<rparr>"

text \<open>An environment variable, when it is not empty, is preferred to the flag.\<close>

definition hub_settings ::
  "(json option \<Rightarrow> string) \<Rightarrow> (string \<Rightarrow> json option res) \<Rightarrow> (string \<Rightarrow> string) \<Rightarrow> hub_flags \<Rightarrow> hub_config res" where
  "hub_settings json_err open_file env fl =
     (if hf_config fl \<noteq> []
      then res_map_err (\<lambda>e. ''Error loading config file: '' @ e) (load_hub_config json_err (open_file (hf_config fl)))
      else Inr \<lparr>hc_addr = hf_addr fl,
        hc_auth_token = (if env ''REDBORDER_AUTH_TOKEN'' = [] then hf_token fl else env ''REDBORDER_AUTH_TOKEN''),
        hc_registration_token = (if env ''REDBORDER_REG_TOKEN'' = [] then hf_reg_token fl else env ''REDBORDER_REG_TOKEN''),
        hc_keys_dir = hf_keys_dir fl, hc_debug = hf_debug fl,
        hc_peers = (if hf_peers fl = [] then [] else map trim_space (split_on CHR '','' (hf_peers fl))),
        hc_my_url = hf_my_url fl, hc_advertise = hf_advertise fl\<rparr>)"

definition hub_main ::
  "(json option \<Rightarrow> string) \<Rightarrow> (string \<Rightarrow> json option res) \<Rightarrow> (string \<Rightarrow> string) \<Rightarrow> fsys \<Rightarrow> hub_flags \<Rightarrow> hub res" where
  "hub_main json_err open_file env fs fl = res_bind (hub_settings json_err open_file env fl)
     (\<lambda>c. Inr (new_hub fs (hc_auth_token c) (hc_registration_token c) (hc_keys_dir c) (hc_peers c) (hc_my_url c)
        (hc_advertise c)))"

section \<open>Facts\<close>

lemma config_names [codec_simps]:
  "fold_case ''addr'' = ''addr''" "fold_case ''auth_token'' = ''auth_token''" "fold_case ''hub_url'' = ''hub_url''"
  "fold_case ''registration_token'' = ''registration_token''" "fold_case ''authorized_keys_dir'' = ''authorized_keys_dir''"
  "fold_case ''debug'' = ''debug''" "fold_case ''peers'' = ''peers''" "fold_case ''my_url'' = ''my_url''"
  "fold_case ''advertise_peers'' = ''advertise_peers''" "fold_case ''private_key_path'' = ''private_key_path''"
  "fold_case ''cache_path'' = ''cache_path''" "fold_case ''insecure_skip_verify'' = ''insecure_skip_verify''"
  "fold_case ''commands'' = ''commands''"
  by code_simp+

lemma field_absent:
  "list_all (\<lambda>(k, v). \<not> equal_fold k name) kvs \<Longrightarrow> field name d prev kvs = Some prev"
  by (induction kvs) auto

lemma hub_config_advertise:
  assumes "dec_hub_config zero_hub_config (JObj kvs) = Some c"
    and "list_all (\<lambda>(k, v). \<not> equal_fold k ''advertise_peers'') kvs"
  shows "\<not> hc_advertise c"
  using assms(1) field_absent [OF assms(2), of dec_bool False]
  by (auto simp: dec_hub_config_def dec_struct_def set_field_def bind_eq_Some_conv zero_hub_config_def)

lemma agent_key_restart:
  assumes "pem_law cr" "pkix_law cr" "pkcs8_law cr priv" "signature_law cr priv pub" "length pub = key_size"
    and "path \<noteq> []" "\<not> fs_exists fs path" "path \<notin> set (fs_denied fs)" "path @ ''.pub'' \<notin> set (fs_denied fs)"
  shows "\<exists>fs'. agent_key cr (Inr (priv, pub)) fs path = (fs', Inr (Some priv)) \<and>
    (\<forall>gen. agent_key cr gen fs' path = (fs', Inr (Some priv))) \<and> load_public_key cr fs' (path @ ''.pub'') = Inr pub"
proof -
  obtain fs' where fs': "generate_and_save_keys cr (Inr (priv, pub)) fs path (path @ ''.pub'') = (fs', Inr (priv, pub))"
    "load_private_key_pem cr fs' path = Inr priv" "load_public_key cr fs' (path @ ''.pub'') = Inr pub"
    using generated_keys_load [OF assms(1-5) _ assms(8,9), of "[]" "[]"] by auto
  have "fs_exists fs' path"
  proof (rule ccontr)
    assume "\<not> fs_exists fs' path"
    then have "load_private_key_pem cr fs' path = Inl (FileNotExist (''open '' @ path @ '': no such file or directory''))"
      by (simp add: fs_exists_def load_private_key_pem_def read_file_def)
    with fs'(2) show False by simp
  qed
  then show ?thesis using fs' assms(6,7) by (simp add: agent_key_def)
qed

section \<open>Properties\<close>

text \<open>C30: A satellite keeps its identity. Started for the first time with a path for its key, it
  generates a pair, runs with the private key and leaves both halves in files; every later start
  with the same settings, whatever a new key generation would give, runs with that same key, and
  the public key in the file next to it is the one that verifies what it signs.\<close>

theorem identity_survives_restart:
  assumes "pem_law cr" "pkix_law cr" "pkcs8_law cr priv" "signature_law cr priv pub" "length pub = key_size"
    and "agent_settings json_err open_file fl = Inr cfg" "gc_key_path cfg \<noteq> []" "\<not> fs_exists fs (gc_key_path cfg)"
    and "gc_key_path cfg \<notin> set (fs_denied fs)" "gc_key_path cfg @ ''.pub'' \<notin> set (fs_denied fs)"
  shows "\<exists>fs' a. agent_main cr (Inr (priv, pub)) json_err open_file fs d fl = (fs', Inr a) \<and> ag_key a = Some priv \<and>
    (\<forall>gen e. \<exists>a'. agent_main cr gen json_err open_file fs' e fl = (fs', Inr a') \<and> ag_key a' = Some priv) \<and>
    load_public_key cr fs' (gc_key_path cfg @ ''.pub'') = Inr pub \<and>
    verify_challenge cr pub (ag_id a) ts (sign_challenge cr priv (ag_id a) ts)"
proof -
  obtain fs' where fs': "agent_key cr (Inr (priv, pub)) fs (gc_key_path cfg) = (fs', Inr (Some priv))"
    "\<forall>gen. agent_key cr gen fs' (gc_key_path cfg) = (fs', Inr (Some priv))"
    "load_public_key cr fs' (gc_key_path cfg @ ''.pub'') = Inr pub"
    using agent_key_restart [OF assms(1-5,7-10)] by blast
  then show ?thesis using assms(6) verify_sign_challenge [OF assms(4)] by (simp add: agent_main_def)
qed

theorem identity_survives_restart_witness:
  "\<exists>fs' a. agent_main sample_crypto (Inr (sample_key, sample_key)) (\<lambda>_. []) (\<lambda>_. Inl []) \<lparr>fs_files = [], fs_denied = []\<rparr>
      (\<lambda>_. None) default_agent_flags = (fs', Inr a) \<and> ag_key a = Some sample_key \<and>
    (\<exists>a'. agent_main sample_crypto (Inl ''no entropy'') (\<lambda>_. []) (\<lambda>_. Inl []) fs' (\<lambda>_. None) default_agent_flags = (fs', Inr a') \<and>
       ag_key a' = Some sample_key)"
proof -
  let ?cfg = "\<lparr>gc_hub_url = gf_hub default_agent_flags, gc_auth_token = gf_token default_agent_flags,
    gc_key_path = gf_key default_agent_flags, gc_agent_id = gf_id default_agent_flags, gc_cache_path = [],
    gc_insecure = gf_insecure default_agent_flags, gc_commands = []\<rparr>"
  have c: "agent_settings (\<lambda>_. []) (\<lambda>_. Inl []) default_agent_flags = Inr ?cfg"
    by (simp add: agent_settings_def default_agent_flags_def)
  have k: "gc_key_path ?cfg \<noteq> []" by (simp add: default_agent_flags_def)
  show ?thesis
    using identity_survives_restart [OF sample_pem sample_pkix sample_pkcs8 sample_signature sample_key_size c k,
        of "\<lparr>fs_files = [], fs_denied = []\<rparr>" "\<lambda>_. None"]
    by (simp add: fs_exists_def) blast
qed

text \<open>A configuration file without the key \<open>advertise_peers\<close> turns advertising off, while the same
  hub started with its default flags advertises its peers: the default the documentation gives
  holds for the flag only.\<close>

theorem config_file_stops_advertising:
  assumes "hf_config fl \<noteq> []" "open_file (hf_config fl) = Inr (Some (JObj kvs))"
    and "list_all (\<lambda>(k, v). \<not> equal_fold k ''advertise_peers'') kvs"
    and "hub_main json_err open_file env fs fl = Inr h"
  shows "\<not> hb_advertise h \<and> (\<exists>h'. hub_main json_err open_file env fs default_hub_flags = Inr h' \<and> hb_advertise h')"
proof -
  obtain c where c: "dec_hub_config zero_hub_config (JObj kvs) = Some c" "hb_advertise h = hc_advertise c"
    using assms(1,2,4)
    by (auto simp: hub_main_def hub_settings_def load_hub_config_def unmarshal_def res_bind_Inr_iff new_hub_def
        split: option.splits if_splits)
  then have "\<not> hb_advertise h" using hub_config_advertise [OF c(1) assms(3)] by simp
  then show ?thesis by (simp add: hub_main_def hub_settings_def default_hub_flags_def new_hub_def)
qed

theorem config_file_stops_advertising_witness:
  "\<exists>h. hub_main (\<lambda>_. []) (\<lambda>_. Inr (Some (JObj [(''my_url'', JStr ''http://a'')]))) (\<lambda>_. []) \<lparr>fs_files = [], fs_denied = []\<rparr>
     (default_hub_flags\<lparr>hf_config := ''hub.json''\<rparr>) = Inr h \<and> \<not> hb_advertise h"
proof -
  let ?fl = "default_hub_flags\<lparr>hf_config := ''hub.json''\<rparr>" and ?kvs = "[(''my_url'', JStr ''http://a'')]"
  have "dec_hub_config zero_hub_config (JObj ?kvs) = Some (zero_hub_config\<lparr>hc_my_url := ''http://a''\<rparr>)"
    by (simp add: dec_hub_config_def dec_struct_def set_field_def zero_hub_config_def equal_fold_def codec_simps)
  then obtain h where h: "hub_main (\<lambda>_. []) (\<lambda>_. Inr (Some (JObj ?kvs))) (\<lambda>_. []) \<lparr>fs_files = [], fs_denied = []\<rparr> ?fl = Inr h"
    by (simp add: hub_main_def hub_settings_def load_hub_config_def unmarshal_def)
  have "list_all (\<lambda>(k, v). \<not> equal_fold k ''advertise_peers'') ?kvs"
    by (simp add: equal_fold_def codec_simps)
  from config_file_stops_advertising [OF _ _ this h] h show ?thesis by auto
qed

end
