(* ===== verification/Spec2Isabelle.thy ===== *)
theory Spec2Isabelle
  imports Prelude GoStrings GoRegex GoNet GoJson GoBase64 GoPath GoFloat GoGlob Interfaces JobParams RpcTypes
    KeyFiles HubConn HubCalls HubServer HubRegistry HubAuth HubApi DiskCache Host JobOutput CustomCommands
    VMwareHardware AgentJobs AgentClient AgentRun Configs
begin

text \<open>
  \<^bold>\<open>The program.\<close> redborder-hub-satellite is a hub (\<open>cmd/hub\<close>, \<open>hub\<close>) and a satellite agent
  (\<open>cmd/agent\<close>, \<open>agent\<close>) that share wire types, key handling and job parameters (\<open>common\<close>). A
  satellite opens a WebSocket to a hub, authenticates by a signed challenge, a registration token
  or a shared token, and answers JSON-RPC requests: it runs ping, SNMP, traceroute, VMware and
  custom jobs, takes schedules and failover addresses, and hands over the results of scheduled
  tasks from a cache on disk. A hub keeps the connections of its satellites, dispatches jobs over
  HTTP requests of operators, and replicates schedules and keys to peer hubs. This development
  models both programs and proves what makes each part, and the parts together, correct.

  \<^bold>\<open>The library under the model.\<close>
  \<^item> \<open>Prelude\<close>: results with an error text, bytes, 64-bit wrap-around, association lists.
  \<^item> \<open>GoStrings\<close>, \<open>GoRegex\<close>, \<open>GoNet\<close>, \<open>GoBase64\<close>, \<open>GoPath\<close>, \<open>GoGlob\<close>, \<open>GoFloat\<close>, \<open>GoJson\<close>: what the
    source uses of Go's \<open>strings\<close>, \<open>strconv\<close>, \<open>regexp\<close> (patterns of the source, matched by
    derivatives), \<open>net\<close>, \<open>encoding/base64\<close> and \<open>hex\<close>, \<open>path/filepath\<close>, \<open>float64\<close> and
    \<open>encoding/json\<close> (after the text has been parsed into a document).
  \<^item> \<open>Interfaces\<close>: the locales. \<open>fifo\<close>, \<open>fifo_take\<close> and \<open>fifo_flush\<close> (the send queue of a connection
    in \<open>HubConn\<close>, the result cache in \<open>DiskCache\<close>), \<open>keyed_store\<close> (the schedules of a hub in
    \<open>HubServer\<close>), \<open>codec\<close> and \<open>exact_codec\<close> (the wire types in \<open>RpcTypes\<close>); \<open>VMwareHardware\<close> has
    \<open>named_devices\<close> for disks and network interfaces.
  \<^item> \<open>Host\<close>: the machine a satellite runs on, as an argument of the model.

  \<^bold>\<open>Shared parts\<close> (\<open>src/common\<close>).
  \<^item> \<open>RpcTypes\<close> (\<open>rpc.go\<close>): the structs, their encoders and decoders; round trips.
  \<^item> \<open>JobParams\<close> (\<open>metrics.go\<close>): the \<open>Validate\<close> methods, the patterns and \<open>BuildCLIArgs\<close>; what
    validated parameters put on a command line.
  \<^item> \<open>KeyFiles\<close> (\<open>crypto.go\<close>): key generation, key files in every accepted format, challenges.

  \<^bold>\<open>The hub\<close> (\<open>src/hub/server.go\<close>, \<open>src/cmd/hub/main.go\<close>).
  \<^item> \<open>HubConn\<close>: \<open>AgentConnection\<close>, its send queue, pending calls and incoming messages.
  \<^item> \<open>HubCalls\<close>: the interleaving of any number of calls, the reader, the writer and \<open>Close\<close> as the
    step relation \<open>call_step\<close>; a reply reaches its own call, nothing panics, closing wakes all.
  \<^item> \<open>HubServer\<close>, \<open>HubRegistry\<close>: the hub record, registration, schedules, peers, dispatching.
    \<open>hub_step\<close> relates the states of a hub (\<open>hub_run\<close>: the hub and how far the \<open>Close\<close> of each
    connection is); \<open>Close\<close> is three steps, of which \<open>unregister\<close> waits for the mutex. The registry
    invariant, the exact list of tasks a push sends, and the deadlock on reconnection.
  \<^item> \<open>HubAuth\<close>: \<open>ServeHTTP\<close>; nobody passes without credentials, no registered name is taken over.
  \<^item> \<open>HubApi\<close>: the HTTP handlers; replication between hubs, tokens, outcomes.

  \<^bold>\<open>The satellite\<close> (\<open>src/agent\<close>, \<open>src/cmd/agent/main.go\<close>).
  \<^item> \<open>DiskCache\<close> (\<open>cache.go\<close>): the cache of results, with writes that fail or are cut short.
  \<^item> \<open>JobOutput\<close>: the parsers of what ping, the SNMP tools and traceroute print,
    against printers of their documented formats: ping with fractional loss, error counts and
    optional times, traceroute with lost probes and several routers in a hop.
  \<^item> \<open>CustomCommands\<close> (\<open>config.go\<close>, \<open>client.go\<close>): rules for parameters, programs, allowed files.
  \<^item> \<open>VMwareHardware\<close> (\<open>vmware_hardware.go\<close>): the inventory of a virtual machine.
  \<^item> \<open>AgentJobs\<close>: the jobs, from the raw parameters to the JSON result, and the dispatching switch.
  \<^item> \<open>AgentClient\<close>: the state of \<open>Agent\<close> (record \<open>agent\<close>, one field per field of the struct, plus the
    program counters of its goroutines), start, headers, \<open>handleRequest\<close>, \<open>SyncSchedules\<close>,
    \<open>runScheduledTask\<close>, \<open>flushCache\<close>, \<open>Stop\<close>.
  \<^item> \<open>AgentRun\<close>: the step relation \<open>agent_step\<close> of the connection loop, the message goroutines, the
    task goroutines and the flush loop; invariants, failover, stopping, conservation of results.
  \<^item> \<open>Configs\<close>: configuration files, flags and the start of both programs.
  \<^item> This theory: properties of a hub and a satellite together.

  \<^bold>\<open>Bounds.\<close> The request counter of a connection is a 64-bit word; \<open>call_step\<close> lets fewer than
  \<open>2 ^ 64\<close> calls begin on one connection, so that no number returns while its call waits. A send
  queue holds \<open>send_cap = 256\<close> messages. Integers of Go are HOL integers, with \<open>wrap64\<close> at every
  product or difference that can leave the range; \<open>float64\<close> values are rationals rounded to 53
  bits, without the sign of zero and without NaN, which no operation of the program produces.
  No recursion has fuel: every function is total.

  \<^bold>\<open>What is taken as given.\<close> Ed25519, PEM, PKIX and PKCS#8 are the fields of a record \<open>crypto\<close> with
  the laws \<open>pem_law\<close>, \<open>pkix_law\<close>, \<open>pkcs8_law\<close> and \<open>signature_law\<close>, which the sample instance of
  \<open>KeyFiles\<close> satisfies; programs, files and regular expressions of a configuration are fields of
  \<open>host\<close>. The step between the bytes of a message or file and its JSON document is not modelled:
  text that is not JSON is \<open>None\<close>, strings are taken to be valid UTF-8, an \<open>interface{}\<close> value is
  kept as its document (Go may spell a number differently when it writes it again), and error
  texts of \<open>encoding/json\<close> are arguments. \<open>os.Stat\<close> fails only for a file that does not exist. Where Go iterates over a map, the list of its entries
  stands for one iteration order, and the theorems hold for every such list.

  \<^bold>\<open>Not modelled.\<close> Time, other than as the value of a clock: timers fire at any moment. Ping and pong
  frames, read limits and deadlines, TLS and the WebSocket handshake; logging; signals and flag
  parsing; the HTTP client and server, whose requests and responses are values. Tests, packaging
  and documentation hold no program logic.
\<close>

section \<open>Admission\<close>

definition handshake :: "crypto \<Rightarrow> (string \<Rightarrow> string) \<Rightarrow> int \<Rightarrow> agent \<Rightarrow> ws_request" where
  "handshake cr pub_of now a = \<lparr>wq_headers = connect_headers cr pub_of now a, wq_query = []\<rparr>"

lemma handshake_headers:
  assumes "ag_key a = Some priv"
  shows "header_or_query (handshake cr pub_of now a) ''X-Agent-ID'' ''agent_id'' = ag_id a"
    "header_or_query (handshake cr pub_of now a) ''X-Agent-Token'' ''token'' = ag_token a"
    "header_or_query (handshake cr pub_of now a) ''X-Agent-Timestamp'' ''timestamp'' = itoa now"
    "header_or_query (handshake cr pub_of now a) ''X-Agent-Signature'' ''signature'' = sign_challenge cr priv (ag_id a) (itoa now)"
    "header_or_query (handshake cr pub_of now a) ''X-Agent-PublicKey'' ''public_key'' = b64_encode std_encoding (pub_of priv)"
  using assms by (simp_all add: header_or_query_def first_value_def handshake_def connect_headers_def)

lemma b64_encode_ne: "s \<noteq> [] \<Longrightarrow> b64_encode std_encoding s \<noteq> []"
  using b64_decode_encode [of std_encoding s] b64_decode_encode [of std_encoding "[]"] by force

lemma itoa_ne: "int64_range now \<Longrightarrow> itoa now \<noteq> []"
  using parse_int64_itoa [of now] by (auto simp: int64_range_def parse_int64_def)

lemma handshake_signed:
  assumes "ag_key a = Some priv" "valid_agent_id (ag_id a)" "ed_sign cr priv (challenge (ag_id a) (itoa now)) \<noteq> []" "int64_range now"
  shows "authenticate cr hub_now h (handshake cr pub_of now a) =
    signature_auth cr hub_now h (handshake cr pub_of now a) (ag_id a) (itoa now) (sign_challenge cr priv (ag_id a) (itoa now))"
proof -
  have "ag_id a \<noteq> []" using assms(2) by (auto simp: valid_agent_id_iff)
  moreover have "sign_challenge cr priv (ag_id a) (itoa now) \<noteq> []"
    using b64_encode_ne [OF assms(3)] by (simp add: sign_challenge_def)
  ultimately show ?thesis
    using assms(2) itoa_ne [OF assms(4)] by (simp add: authenticate_def Let_def handshake_headers [OF assms(1)])
qed

text \<open>C9: A satellite gets in, and its key does the rest. A satellite with a key pair, the registration
  token and a clock within two minutes of the hub's is accepted on first contact by a hub that
  can write its keys directory, and from then on by that hub with its key alone, under whatever
  token and at whatever later time its clock is again within the window.\<close>

theorem satellite_admitted:
  assumes "pem_law cr" "pkix_law cr" "signature_law cr priv (pub_of priv)" "length (pub_of priv) = key_size"
    and "\<forall>m. ed_sign cr priv m \<noteq> []" "ag_key a = Some priv" "valid_agent_id (ag_id a)"
    and "hb_keys_dir h \<noteq> []" "hb_keys_dir h \<notin> set (fs_denied (hb_fs h))" "key_path h (ag_id a) \<notin> set (fs_denied (hb_fs h))"
    and "\<not> fs_exists (hb_fs h) (key_path h (ag_id a))" "ag_token a = expected_reg_token h" "expected_reg_token h \<noteq> []"
    and "int64_range now" "clock_skew hub_now now \<le> max_skew"
  shows "\<exists>h' out. authenticate cr hub_now h (handshake cr pub_of now a) = (h', out, Accepted (ag_id a)) \<and>
    (\<forall>b later hub_later. ag_key b = Some priv \<and> ag_id b = ag_id a \<and> int64_range later \<and>
       clock_skew hub_later later \<le> max_skew \<longrightarrow>
       authenticate cr hub_later h' (handshake cr pub_of later b) = (h', [], Accepted (ag_id a)))"
proof -
  let ?r = "handshake cr pub_of now a" and ?sig = "sign_challenge cr priv (ag_id a) (itoa now)"
  note hd = handshake_headers [OF assms(6), of cr pub_of now]
  obtain fs where fs: "save_public_key_pem cr (hb_fs h) (key_path h (ag_id a)) (pub_of priv) = Inr fs"
    using save_public_key_loads [OF assms(1,2,4,10)] by blast
  let ?h = "h\<lparr>hb_fs := fs\<rparr>"
  let ?out = "broadcast_key_sync ?h (ag_id a) (b64_encode std_encoding (pub_of priv))"
  have v: "verify_challenge cr (pub_of priv) (ag_id a) ts (sign_challenge cr priv (ag_id a) ts)" for ts
    by (rule verify_sign_challenge [OF assms(3)])
  have ne: "b64_encode std_encoding (pub_of priv) \<noteq> []"
    using assms(4) by (intro b64_encode_ne) (auto simp: key_size_def)
  have reg: "auto_register cr h ?r (ag_id a) (itoa now) ?sig = Inr (?h, ?out, pub_of priv)"
    using assms(4,8,9,12,13) fs v ne
    by (auto simp: auto_register_def Let_def hd codec_simps mkdir_all_def)
  have nf: "\<exists>e. load_public_key cr (hb_fs h) (key_path h (ag_id a)) = Inl (FileNotExist e)"
    using assms(11) by (simp add: fs_exists_def load_public_key_def read_file_def)
  have ts: "parse_int64 (itoa t) = NumOk t" if "int64_range t" for t
    using parse_int64_itoa that by (simp add: int64_range_def)
  have "authenticate cr hub_now h ?r = (?h, ?out, Accepted (ag_id a))"
    unfolding handshake_signed [OF assms(6,7) assms(5) [rule_format] assms(14)] signature_auth_def
    using nf reg v assms(8,15) ts [OF assms(14)] by auto
  moreover have "authenticate cr hub_later ?h (handshake cr pub_of later b) = (?h, [], Accepted (ag_id a))"
    if b: "ag_key b = Some priv" "ag_id b = ag_id a" "int64_range later" "clock_skew hub_later later \<le> max_skew"
    for b later hub_later
  proof -
    have "signature_auth cr hub_later ?h (handshake cr pub_of later b) (ag_id a) (itoa later)
        (sign_challenge cr priv (ag_id a) (itoa later)) = (?h, [], Accepted (ag_id a))"
      using registration_sticks [OF assms(1,2) reg assms(10,8,7)] ts [OF b(3)] b(4) v by blast
    then show ?thesis
      using handshake_signed [OF b(1) _ assms(5) [rule_format] b(3), of hub_later ?h pub_of] b(2) assms(7) by simp
  qed
  ultimately show ?thesis by blast
qed

definition sample_client :: agent where
  "sample_client = sample_agent\<lparr>ag_token := ''reg''\<rparr>"

theorem satellite_admitted_witness:
  "\<exists>h' out. authenticate sample_crypto 1060 sample_gate (handshake sample_crypto (\<lambda>k. k) 1000 sample_client) = (h', out, Accepted ''s1'') \<and>
     authenticate sample_crypto 2000 h' (handshake sample_crypto (\<lambda>k. k) 1999 (sample_client\<lparr>ag_token := []\<rparr>)) = (h', [], Accepted ''s1'')"
proof -
  have f: "ag_key sample_client = Some sample_key" "ag_id sample_client = ''s1''" "ag_token sample_client = ''reg''"
    by (simp_all add: sample_client_def sample_agent_def new_agent_def)
  have g: "hb_keys_dir sample_gate \<noteq> []" "hb_fs sample_gate = \<lparr>fs_files = [], fs_denied = []\<rparr>" "expected_reg_token sample_gate = ''reg''"
    by (simp_all add: sample_gate_def new_hub_def expected_reg_token_def)
  have sk: "clock_skew 1060 1000 \<le> max_skew" "clock_skew 2000 1999 \<le> max_skew"
    by (simp_all add: clock_skew_def max_skew_def Let_def)
  have i: "int64_range 1000" "int64_range 1999" by (simp_all add: int64_range_def)
  have law: "signature_law sample_crypto sample_key ((\<lambda>k. k) sample_key)" "length ((\<lambda>k. k) sample_key) = key_size"
    "\<forall>m. ed_sign sample_crypto sample_key m \<noteq> []"
    by (simp_all add: sample_signature sample_key_size) (simp add: sample_crypto_def sample_key_def numeral_eq_Suc)
  have fs: "hb_keys_dir sample_gate \<notin> set (fs_denied (hb_fs sample_gate))"
    "key_path sample_gate (ag_id sample_client) \<notin> set (fs_denied (hb_fs sample_gate))"
    "\<not> fs_exists (hb_fs sample_gate) (key_path sample_gate (ag_id sample_client))"
    by (simp_all add: g fs_exists_def)
  have v: "valid_agent_id (ag_id sample_client)" "ag_token sample_client = expected_reg_token sample_gate" "expected_reg_token sample_gate \<noteq> []"
    using sample_name f g by simp_all
  obtain h' out where r: "authenticate sample_crypto 1060 sample_gate (handshake sample_crypto (\<lambda>k. k) 1000 sample_client) =
      (h', out, Accepted (ag_id sample_client))"
    "\<And>b later hub_later. ag_key b = Some sample_key \<Longrightarrow> ag_id b = ag_id sample_client \<Longrightarrow> int64_range later \<Longrightarrow>
       clock_skew hub_later later \<le> max_skew \<Longrightarrow>
       authenticate sample_crypto hub_later h' (handshake sample_crypto (\<lambda>k. k) later b) = (h', [], Accepted (ag_id sample_client))"
    using satellite_admitted [of sample_crypto sample_key "\<lambda>k. k" sample_client sample_gate 1000 1060,
        OF sample_pem sample_pkix law(1-3) f(1) v(1) g(1) fs v(2,3) i(1) sk(1)] by blast
  have "authenticate sample_crypto 2000 h' (handshake sample_crypto (\<lambda>k. k) 1999 (sample_client\<lparr>ag_token := []\<rparr>)) = (h', [], Accepted (ag_id sample_client))"
    by (rule r(2)) (use f i sk in simp_all)
  then show ?thesis using r(1) f(2) by auto
qed

lemma handle_request_paths:
  "agent_handle_request ho w a msg = (b, reply) \<Longrightarrow> ag_sched_path b = ag_sched_path a \<and> ag_cache_path b = ag_cache_path a"
  by (erule handle_request_cases) simp_all

section \<open>Schedules from the hub to the satellite\<close>

lemma sync_message_handled:
  assumes "\<forall>t\<in>set ts. int64_range (st_interval t)"
  shows "\<exists>doc. agent_handle_request ho w a (Some (sync_message nano ts)) =
      (sync_schedules w doc (map (\<lambda>t. t\<lparr>st_params := sent_params (st_params t)\<rparr>) ts) a,
       Some (success_response (Some (JStr (''sync-'' @ itoa nano))))) \<and>
    unmarshal dec_tasks [] (Some doc) = Some (map (\<lambda>t. t\<lparr>st_params := sent_params (st_params t)\<rparr>) ts)"
proof -
  let ?p = "Some (if ts = [] then JNull else enc_tasks ts)"
  let ?ts = "map (\<lambda>t. t\<lparr>st_params := sent_params (st_params t)\<rparr>) ts"
  define doc where "doc = (if ?p = Some JNull then JNull else enc_tasks ?ts)"
  have p: "unmarshal dec_tasks [] ?p = Some ?ts"
    using assms by (cases "ts = []") (simp_all add: unmarshal_def dec_tasks_def enc_tasks_def dec_list_def dec_all_map task_roundtrip)
  have r: "unmarshal dec_request zero_request (Some (sync_message nano ts)) = Some \<lparr>rq_jsonrpc = ''2.0'',
     rq_method = ''sync_schedules'', rq_params = ?p, rq_id = Some (JStr (''sync-'' @ itoa nano))\<rparr>"
    unfolding sync_message_def by (rule request_decodes)
  have n: "\<not> is_response (Some (sync_message nano ts))" by (simp add: sync_message_def)
  have "unmarshal dec_tasks [] (Some doc) = Some ?ts"
  proof (cases "ts = []")
    case True
    then show ?thesis by (simp add: doc_def unmarshal_def dec_tasks_def dec_list_def)
  next
    case False
    have "list_all (\<lambda>t. int64_range (st_interval t)) ?ts" using assms by (simp add: list_all_iff)
    from task_codec.unmarshal_list [OF this]
    have "unmarshal dec_tasks [] (Some (enc_tasks ?ts)) = Some ?ts"
      by (simp add: dec_tasks_def enc_tasks_def sent_params_def enc_raw_def comp_def)
    then show ?thesis using False by (simp add: doc_def enc_tasks_def)
  qed
  then show ?thesis using n r p by (intro exI [of _ doc]) (simp add: agent_handle_request_def doc_def)
qed

lemma sync_arrives:
  assumes "\<forall>(k, s)\<in>set (hb_schedules h). int64_range (js_interval s)"
    and "agent_handle_request ho w a (Some (sync_message nano (agent_tasks now h (ag_id a)))) = (b, reply)"
  shows "ag_schedules b = map (\<lambda>t. t\<lparr>st_params := sent_params (st_params t)\<rparr>) (agent_tasks now h (ag_id a)) \<and>
    ag_runners b = ag_runners a @ map (\<lambda>t. \<lparr>rn_task = t, rn_phase = Begun\<rparr>) (ag_schedules b) \<and>
    reply = Some (success_response (Some (JStr (''sync-'' @ itoa nano)))) \<and>
    (w = WriteOk \<and> (\<forall>f. ag_disk a (ag_sched_path a) = Some f \<longrightarrow> df_error f = None) \<longrightarrow>
       stored_schedules (ag_disk b) (ag_sched_path b) = ag_schedules b)"
proof -
  have "\<forall>t\<in>set (agent_tasks now h (ag_id a)). int64_range (st_interval t)"
  proof
    fix t assume "t \<in> set (agent_tasks now h (ag_id a))"
    then obtain k u n where "(k, u) \<in> set (hb_schedules h)" "sched_interval now u = Some n" "st_interval t = n"
      by (auto simp: agent_tasks_iff)
    then show "int64_range (st_interval t)" using assms(1) sched_interval_range by fastforce
  qed
  from sync_message_handled [OF this, of ho w a nano] obtain doc where
    b: "b = sync_schedules w doc (map (\<lambda>t. t\<lparr>st_params := sent_params (st_params t)\<rparr>) (agent_tasks now h (ag_id a))) a"
    "reply = Some (success_response (Some (JStr (''sync-'' @ itoa nano))))"
    "unmarshal dec_tasks [] (Some doc) = Some (map (\<lambda>t. t\<lparr>st_params := sent_params (st_params t)\<rparr>) (agent_tasks now h (ag_id a)))"
    using assms(2) by auto
  have "stored_schedules (ag_disk b) (ag_sched_path b) = ag_schedules b"
    if "w = WriteOk" "\<forall>f. ag_disk a (ag_sched_path a) = Some f \<longrightarrow> df_error f = None"
    using that b(1,3)
    by (auto simp: stored_schedules_def sync_schedules_def Let_def write_doc_def split: option.split)
  then show ?thesis using b by simp
qed

text \<open>C7: What a hub schedules is what its satellite runs, and still runs after a restart. Handling the
  message that a hub pushes for it, a satellite holds exactly the tasks of its schedules that are
  not past, with one new goroutine for each, confirms with the identifier of the message, and,
  when its file can be written, reads the same tasks back from it when it is started again.\<close>

theorem schedules_arrive:
  assumes "\<forall>(k, s)\<in>set (hb_schedules h). int64_range (js_interval s)"
    and "agent_handle_request ho w a (Some (sync_message nano (agent_tasks now h (ag_id a)))) = (b, reply)"
  shows "ag_schedules b = map (\<lambda>t. t\<lparr>st_params := sent_params (st_params t)\<rparr>) (agent_tasks now h (ag_id a)) \<and>
    ag_runners b = ag_runners a @ map (\<lambda>t. \<lparr>rn_task = t, rn_phase = Begun\<rparr>) (ag_schedules b) \<and>
    reply = Some (success_response (Some (JStr (''sync-'' @ itoa nano)))) \<and>
    (w = WriteOk \<and> (\<forall>f. ag_disk a (ag_sched_path a) = Some f \<longrightarrow> df_error f = None) \<longrightarrow>
       stored_schedules (ag_disk b) (ag_sched_path b) = ag_schedules b)"
  by (rule sync_arrives [OF assms])

theorem schedules_arrive_witness:
  "\<exists>b reply. agent_handle_request sample_host WriteOk sample_agent
       (Some (sync_message 1 (agent_tasks 100 (put_schedule sample_hub sample_schedule) ''s1''))) = (b, reply) \<and>
     stored_schedules (ag_disk b) schedules_cache_path = ag_schedules b \<and> length (ag_runners b) = length (ag_schedules b)"
proof -
  obtain b reply where h: "agent_handle_request sample_host WriteOk sample_agent
       (Some (sync_message 1 (agent_tasks 100 (put_schedule sample_hub sample_schedule) (ag_id sample_agent)))) = (b, reply)"
    by fastforce
  have f: "ag_id sample_agent = ''s1''" "ag_disk sample_agent = (\<lambda>_. None)" "ag_sched_path b = schedules_cache_path" "ag_runners sample_agent = []"
    using handle_request_paths [OF h] by (simp_all add: sample_agent_def new_agent_def)
  have "\<forall>(k, s)\<in>set (hb_schedules (put_schedule sample_hub sample_schedule)). int64_range (js_interval s)"
    by (simp add: put_schedule_def sample_hub_def new_hub_def sample_schedule_def int64_range_def)
  from schedules_arrive [OF this h] f h show ?thesis by auto
qed

section \<open>Answers from the satellite to the hub\<close>

text \<open>The response that the outcome of a job gives.\<close>

definition outcome_response :: "json option \<Rightarrow> string \<Rightarrow> json option res option \<Rightarrow> rpc_response" where
  "outcome_response rid meth outcome =
     (case outcome of
        None \<Rightarrow> new_rpc_error_response rid err_method_not_found (''method not found: '' @ meth) None
      | Some (Inl e) \<Rightarrow> new_rpc_error_response rid err_internal_error e None
      | Some (Inr None) \<Rightarrow> new_rpc_error_response rid err_internal_error ''Failed to marshal response result'' None
      | Some (Inr (Some v)) \<Rightarrow> \<lparr>rs_jsonrpc = ''2.0'', rs_result = Some v, rs_error = None, rs_id = rid\<rparr>)"

lemma outcome_response_received:
  "incoming_answer (Some (enc_response (outcome_response (Some (JStr rid)) meth outcome))) =
     Some (rid, outcome_response (Some (JStr rid)) meth outcome)"
proof -
  let ?resp = "outcome_response (Some (JStr rid)) meth outcome"
  have r: "rs_id ?resp = Some (JStr rid)" "rs_result ?resp \<noteq> None \<or> rs_error ?resp \<noteq> None"
    "\<And>e. rs_error ?resp = Some e \<Longrightarrow> int64_range (er_code e) \<and> er_data e \<noteq> Some JNull"
    by (auto simp: outcome_response_def new_rpc_error_response_def err_method_not_found_def err_internal_error_def
        int64_range_def split: option.splits sum.splits)
  have "unmarshal dec_response zero_response (Some (enc_response ?resp)) = Some ?resp"
    by (rule response_roundtrip) (use r in auto)
  then show ?thesis using r(1,2) by (auto simp: incoming_answer_def)
qed

lemma job_answered:
  assumes "rq_jsonrpc req = ''2.0''" "rq_id req = Some (JStr rid)"
    and "rq_method req \<noteq> ''sync_schedules''" "rq_method req \<noteq> ''update_failover_urls''"
  shows "agent_handle_request ho w a (Some (enc_request req)) =
    (a, Some (enc_response (outcome_response (Some (JStr rid)) (rq_method req)
       (run_job ho (ag_commands a) (rq_method req) (rq_params req)))))"
proof -
  have d: "unmarshal dec_request zero_request (Some (enc_request req)) = Some req"
    by (rule request_roundtrip) (simp add: assms(2))
  show ?thesis
    unfolding agent_handle_request_def d
    by (simp add: assms outcome_response_def error_response_def job_response_def new_rpc_response_def
        split: option.split sum.split)
qed

text \<open>C8: A job that a hub sends comes back as its outcome. The satellite's answer to a request reaches
  the call that waits for that identifier: it is the response with the result of the job, or with
  the error of a job that failed, of a result that is not JSON, or of an unknown method, read by
  the hub exactly as the satellite made it.\<close>

theorem answers_reach_hub:
  assumes "rq_jsonrpc req = ''2.0''" "rq_id req = Some (JStr rid)"
    and "rq_method req \<noteq> ''sync_schedules''" "rq_method req \<noteq> ''update_failover_urls''"
  shows "\<exists>m resp. agent_handle_request ho w a (Some (enc_request req)) = (a, Some m) \<and>
    resp = outcome_response (Some (JStr rid)) (rq_method req) (run_job ho (ag_commands a) (rq_method req) (rq_params req)) \<and>
    handle_incoming_message c (Some m) = deliver_response c rid resp"
  unfolding job_answered [OF assms]
  by (simp add: handle_incoming_cases outcome_response_received)

theorem answers_reach_hub_witness:
  "\<exists>m resp. agent_handle_request sample_host WriteOk sample_agent (Some (enc_request
      \<lparr>rq_jsonrpc = ''2.0'', rq_method = ''reboot'', rq_params = None, rq_id = Some (JStr ''s1-1'')\<rparr>)) = (sample_agent, Some m) \<and>
    handle_incoming_message (new_agent_connection ''s1'') (Some m) = deliver_response (new_agent_connection ''s1'') ''s1-1'' resp \<and>
    map_option er_code (rs_error resp) = Some err_method_not_found"
proof -
  let ?req = "\<lparr>rq_jsonrpc = ''2.0'', rq_method = ''reboot'', rq_params = None, rq_id = Some (JStr ''s1-1'')\<rparr>"
  have "run_job sample_host (ag_commands sample_agent) ''reboot'' None = None"
    by (simp add: run_job_def sample_agent_def new_agent_def)
  moreover obtain m resp where "agent_handle_request sample_host WriteOk sample_agent (Some (enc_request ?req)) = (sample_agent, Some m)"
    "resp = outcome_response (Some (JStr ''s1-1'')) (rq_method ?req) (run_job sample_host (ag_commands sample_agent) (rq_method ?req) (rq_params ?req))"
    "handle_incoming_message (new_agent_connection ''s1'') (Some m) = deliver_response (new_agent_connection ''s1'') ''s1-1'' resp"
    using answers_reach_hub [of ?req "''s1-1''" sample_host WriteOk sample_agent "new_agent_connection ''s1''"] by auto
  ultimately show ?thesis by (auto simp: outcome_response_def new_rpc_error_response_def)
qed

section \<open>What schedules the satellite cannot hold\<close>

lemma hub_task:
  assumes "(k, s) \<in> set (hb_schedules h)" "sched_interval now s = Some n"
  shows "\<lparr>st_id = js_id s, st_interval = n, st_method = js_method s, st_params = js_params s\<rparr> \<in> set (agent_tasks now h (js_agent_id s))"
  using assms by (auto simp: agent_tasks_iff)

lemma sync_starts_runner:
  assumes "\<forall>(k, s)\<in>set (hb_schedules h). int64_range (js_interval s)"
    and "agent_handle_request ho w a (Some (sync_message nano (agent_tasks now h (ag_id a)))) = (b, reply)"
    and "(k, s) \<in> set (hb_schedules h)" "js_agent_id s = ag_id a" "sched_interval now s = Some n"
  shows "\<exists>i. length (ag_runners a) \<le> i \<and> i < length (ag_runners b) \<and> phase_at b i = Begun \<and>
    st_id (task_at b i) = js_id s \<and> st_interval (task_at b i) = n"
proof -
  let ?t = "\<lparr>st_id = js_id s, st_interval = n, st_method = js_method s, st_params = js_params s\<rparr>"
  note b = sync_arrives [OF assms(1,2)]
  have "?t\<lparr>st_params := sent_params (st_params ?t)\<rparr> \<in> set (ag_schedules b)"
    using b hub_task [OF assms(3,5)] assms(4) by (auto simp del: scheduled_task.simps)
  then obtain j where j: "j < length (ag_schedules b)" "ag_schedules b ! j = ?t\<lparr>st_params := sent_params (st_params ?t)\<rparr>"
    by (metis in_set_conv_nth)
  then show ?thesis
    using b by (intro exI [of _ "length (ag_runners a) + j"]) (auto simp: phase_at_def task_at_def)
qed

lemma panic_step:
  assumes "i < length (ag_runners a)" "phase_at a i = Begun" "\<not> ag_panicked a" "0 < st_interval (task_at a i)" "\<not> ticker_ok (task_at a i)"
  shows "agent_step ho disk_works a (panic a)"
  using runner_begins [of a i ho disk_works] assms by (simp add: begin_runner_def)

lemma ticker_overflow: "9223372036 < st_interval t \<Longrightarrow> st_interval t \<le> 18446744073 \<Longrightarrow> \<not> ticker_ok t"
proof -
  assume n: "9223372036 < st_interval t" "st_interval t \<le> 18446744073"
  let ?x = "st_interval t * 1000000000 + 2 ^ 63"
  have "?x mod 2 ^ 64 = (?x - 2 ^ 64) mod 2 ^ 64" by (simp only: minus_mod_self2)
  also have "\<dots> = ?x - 2 ^ 64" using n by (intro mod_pos_pos_trivial) auto
  finally show ?thesis using n by (simp add: ticker_ok_def wrap64_def)
qed

text \<open>C31: An interval that the hub accepts can crash its satellite for good. A schedule of at least
  9223372037 and at most 18446744073 seconds passes the hub's checks, but its number of nanoseconds
  lies in the half of the 64-bit range that reads as negative: the goroutine that the satellite
  starts for it panics, which ends the program. The list was written to disk first, so when the
  schedule file could be written and can be read, at the place where the satellite keeps it, a
  satellite that is started again panics again.\<close>

theorem huge_interval_crashes:
  assumes "js_type s = ''interval''" "9223372036 < js_interval s" "js_interval s \<le> 18446744073"
    and "js_id s \<noteq> []" "js_method s \<noteq> []" "js_agent_id s = ag_id a" "ag_id a \<noteq> []"
    and "(k, s) \<in> set (hb_schedules h)" "\<forall>(k, s)\<in>set (hb_schedules h). int64_range (js_interval s)"
    and "\<not> ag_panicked a" "ag_sched_path a = schedules_cache_path"
    and "\<forall>f. ag_disk a schedules_cache_path = Some f \<longrightarrow> df_error f = None"
    and "agent_handle_request ho WriteOk a (Some (sync_message nano (agent_tasks now h (ag_id a)))) = (b, reply)"
  shows "check_schedule s = None \<and> agent_step ho True b (panic b) \<and>
    (let c = boot_agent (ag_disk b) url tok agent_id key path cmds insecure in agent_step ho True c (panic c))"
proof -
  have n: "sched_interval now s = Some (js_interval s)" using assms(1) by (simp add: sched_interval_def)
  note starts = sync_starts_runner [OF assms(9,13,8,6) n]
  have nb: "\<not> ag_panicked b" using handle_request_cases [OF assms(13)] assms(10) by cases simp_all
  have over: "0 < st_interval t \<and> \<not> ticker_ok t" if "st_interval t = js_interval s" for t
    using ticker_overflow [of t] assms(2,3) that by simp
  have crash: "agent_step ho True b (panic b)"
    using starts over nb by (auto intro: panic_step)
  let ?c = "boot_agent (ag_disk b) url tok agent_id key path cmds insecure"
  note arr = sync_arrives [OF assms(9,13)]
  have sch: "ag_schedules ?c = ag_schedules b"
    using arr handle_request_paths [OF assms(13)] assms(11,12) by simp
  obtain i where i: "length (ag_runners a) \<le> i" "i < length (ag_runners b)" "st_interval (task_at b i) = js_interval s"
    using starts by blast
  let ?j = "i - length (ag_runners a)"
  have r: "ag_runners b = ag_runners a @ ag_runners ?c" using arr sch by simp
  then have "task_at ?c ?j = task_at b i" "?j < length (ag_runners ?c)"
    using i by (simp_all add: task_at_def nth_append)
  moreover from this(2) have "phase_at ?c ?j = Begun" by (simp add: phase_at_def)
  ultimately have "agent_step ho True ?c (panic ?c)"
    using over i(3) by (intro panic_step [of ?j]) auto
  then show ?thesis using crash assms(1,2,4-7) by (simp add: check_schedule_def)
qed

definition huge_schedule :: job_schedule where
  "huge_schedule = \<lparr>js_id = ''h'', js_agent_id = ''s1'', js_method = ''ping'', js_params = None,
     js_type = ''interval'', js_interval = 10000000000, js_run_at = 0\<rparr>"

theorem huge_interval_crashes_witness:
  "\<exists>b reply. check_schedule huge_schedule = None \<and>
     agent_handle_request sample_host WriteOk sample_agent
       (Some (sync_message 1 (agent_tasks 100 (put_schedule (new_hub \<lparr>fs_files = [], fs_denied = []\<rparr> [] [] [] [] [] False) huge_schedule) ''s1''))) = (b, reply) \<and>
     agent_step sample_host True b (panic b)"
proof -
  let ?h = "put_schedule (new_hub \<lparr>fs_files = [], fs_denied = []\<rparr> [] [] [] [] [] False) huge_schedule"
  have h: "hb_schedules ?h = [(''h'', huge_schedule)]" by (simp add: put_schedule_def new_hub_def huge_schedule_def)
  obtain b reply where b: "agent_handle_request sample_host WriteOk sample_agent (Some (sync_message 1 (agent_tasks 100 ?h (ag_id sample_agent)))) = (b, reply)"
    by fastforce
  have f: "ag_id sample_agent = ''s1''" "ag_disk sample_agent = (\<lambda>_. None)" "ag_sched_path sample_agent = schedules_cache_path"
    "\<not> ag_panicked sample_agent"
    by (simp_all add: sample_agent_def new_agent_def)
  have "(''h'', huge_schedule) \<in> set (hb_schedules ?h)" "\<forall>(k, s)\<in>set (hb_schedules ?h). int64_range (js_interval s)"
    unfolding h by (simp_all add: huge_schedule_def int64_range_def)
  from huge_interval_crashes [OF _ _ _ _ _ _ _ this f(4,3) _ b] b f(1,2) show ?thesis
    by (auto simp: huge_schedule_def)
qed

text \<open>An \<open>at\<close> schedule does not run once at its time. A satellite that gets one whose time is ahead,
  by no more than the largest interval, starts a recurring task for it, which can run at once and
  then any number of times.\<close>

theorem at_schedule_repeats:
  assumes "js_type s = ''at''" "now < js_run_at s" "js_run_at s - now \<le> 9223372036" "js_agent_id s = ag_id a"
    and "(k, s) \<in> set (hb_schedules h)" "\<forall>(k, s)\<in>set (hb_schedules h). int64_range (js_interval s)"
    and "\<not> ag_panicked a" "int64_range clock"
    and "agent_handle_request ho w a (Some (sync_message nano (agent_tasks now h (ag_id a)))) = (b, reply)"
  shows "\<exists>i c. agent_steps ho True b c \<and> phase_at c i = InJob \<and> st_id (task_at c i) = js_id s \<and>
    (\<forall>n. agent_steps ho True c ((next_round ho i clock ^^ n) c))"
proof -
  have n: "sched_interval now s = Some (js_run_at s - now)"
    using assms(1-3) by (simp add: sched_interval_def Let_def)
  obtain i where i: "i < length (ag_runners b)" "phase_at b i = Begun" "st_id (task_at b i) = js_id s"
    "st_interval (task_at b i) = js_run_at s - now"
    using sync_starts_runner [OF assms(6,9,5,4) n] by blast
  have nb: "\<not> ag_panicked b" using handle_request_cases [OF assms(9)] assms(7) by cases simp_all
  let ?c = "set_runner i (AtFirst (ag_epoch b)) b" and ?d = "set_runner i InJob (set_runner i (AtFirst (ag_epoch b)) b)"
  have "begin_runner b (task_at b i) = Some (AtFirst (ag_epoch b))"
    using i(4) assms(2,3) interval_limit [of "task_at b i"] by (simp add: begin_runner_def)
  then have "agent_step ho True b ?c" using runner_begins [of b i ho True] nb i(1,2) by simp
  moreover have "agent_step ho True ?c ?d"
    by (rule runner_fires [of _ _ "ag_epoch b"]) (use nb i(1) in \<open>simp_all add: phase_at_def set_runner_at\<close>)
  ultimately have s: "agent_steps ho True b ?d" by (meson converse_rtranclp_into_rtranclp r_into_rtranclp)
  have d: "i < length (ag_runners ?d)" "phase_at ?d i = InJob" "\<not> ag_panicked ?d" "st_id (task_at ?d i) = js_id s"
    using i nb by (simp_all add: phase_at_def task_at_def set_runner_at)
  from next_rounds [OF d(1-3) assms(8), of ho True] s d(2,4) show ?thesis by blast
qed

theorem at_schedule_repeats_witness:
  "\<exists>b reply i c. agent_handle_request sample_host WriteOk sample_agent
       (Some (sync_message 1 (agent_tasks 100 (put_schedule (new_hub \<lparr>fs_files = [], fs_denied = []\<rparr> [] [] [] [] [] False)
          (huge_schedule\<lparr>js_type := ''at'', js_run_at := 160\<rparr>)) ''s1''))) = (b, reply) \<and>
     agent_steps sample_host True b c \<and> agent_steps sample_host True c ((next_round sample_host i 0 ^^ 7) c)"
proof -
  let ?s = "huge_schedule\<lparr>js_type := ''at'', js_run_at := 160\<rparr>"
  let ?h = "put_schedule (new_hub \<lparr>fs_files = [], fs_denied = []\<rparr> [] [] [] [] [] False) ?s"
  have h: "hb_schedules ?h = [(''h'', ?s)]" by (simp add: put_schedule_def new_hub_def huge_schedule_def)
  obtain b reply where b: "agent_handle_request sample_host WriteOk sample_agent (Some (sync_message 1 (agent_tasks 100 ?h (ag_id sample_agent)))) = (b, reply)"
    by fastforce
  have f: "ag_id sample_agent = ''s1''" "\<not> ag_panicked sample_agent" "int64_range 0"
    by (simp_all add: sample_agent_def new_agent_def int64_range_def)
  have m: "(''h'', ?s) \<in> set (hb_schedules ?h)" "\<forall>(k, s)\<in>set (hb_schedules ?h). int64_range (js_interval s)"
    unfolding h by (simp_all add: huge_schedule_def int64_range_def)
  obtain i c where c: "agent_steps sample_host True b c" "\<forall>n. agent_steps sample_host True c ((next_round sample_host i 0 ^^ n) c)"
    using at_schedule_repeats [OF _ _ _ _ m f(2,3) b] f(1) by (auto simp: huge_schedule_def)
  have b': "agent_handle_request sample_host WriteOk sample_agent (Some (sync_message 1 (agent_tasks 100 ?h ''s1''))) = (b, reply)"
    using b f(1) by simp
  show ?thesis by (intro exI conjI) (rule b', rule c(1), rule c(2) [rule_format])
qed

text \<open>A \<open>once\<close> schedule runs at every synchronisation. It stays among the schedules of the hub, so
  that each message the hub pushes, also one for another schedule of the same satellite, starts
  it again: after two messages there are two goroutines that will run it.\<close>

theorem once_schedule_repeats:
  assumes "js_type s = ''once''" "js_agent_id s = ag_id a"
    and "(k, s) \<in> set (hb_schedules h)" "\<forall>(k, s)\<in>set (hb_schedules h). int64_range (js_interval s)"
    and "(k', s) \<in> set (hb_schedules h')" "\<forall>(k, s)\<in>set (hb_schedules h'). int64_range (js_interval s)"
    and "agent_handle_request ho w a (Some (sync_message nano (agent_tasks now h (ag_id a)))) = (b, reply)"
    and "agent_handle_request ho w' b (Some (sync_message nano' (agent_tasks now' h' (ag_id a)))) = (c, reply')"
  shows "\<exists>i j. i < j \<and> j < length (ag_runners c) \<and> (\<forall>l\<in>{i, j}. phase_at c l = Begun \<and>
    st_id (task_at c l) = js_id s \<and> begin_runner c (task_at c l) = Some InOneOff)"
proof -
  have n: "sched_interval t s = Some 0" for t using assms(1) by (simp add: sched_interval_def)
  have ib: "ag_id b = ag_id a" using handle_request_cases [OF assms(7)] by cases (simp_all add: sync_schedules_def Let_def)
  obtain i where i: "i < length (ag_runners b)" "phase_at b i = Begun" "st_id (task_at b i) = js_id s" "st_interval (task_at b i) = 0"
    using sync_starts_runner [OF assms(4,7,3,2) n] by blast
  have h: "agent_handle_request ho w' b (Some (sync_message nano' (agent_tasks now' h' (ag_id b)))) = (c, reply')"
    using assms(8) ib by simp
  obtain j where j: "length (ag_runners b) \<le> j" "j < length (ag_runners c)" "phase_at c j = Begun" "st_id (task_at c j) = js_id s"
    "st_interval (task_at c j) = 0"
    using sync_starts_runner [OF assms(6) h assms(5) _ n] assms(2) ib by auto
  have "ag_runners c = ag_runners b @ map (\<lambda>t. \<lparr>rn_task = t, rn_phase = Begun\<rparr>) (ag_schedules c)"
    using sync_arrives [OF assms(6) h] by blast
  then have "phase_at c i = phase_at b i" "task_at c i = task_at b i"
    using i(1) by (simp_all add: phase_at_def task_at_def nth_append)
  then show ?thesis using i j by (intro exI [of _ i] exI [of _ j]) (auto simp: begin_runner_def)
qed

theorem once_schedule_repeats_witness:
  "\<exists>b c reply reply' h. hb_schedules h = [(''h'', huge_schedule\<lparr>js_type := ''once''\<rparr>)] \<and>
     agent_handle_request sample_host WriteOk sample_agent (Some (sync_message 1 (agent_tasks 100 h ''s1''))) = (b, reply) \<and>
     agent_handle_request sample_host WriteOk b (Some (sync_message 2 (agent_tasks 200 h ''s1''))) = (c, reply') \<and>
     (\<exists>i j. i < j \<and> begin_runner c (task_at c i) = Some InOneOff \<and> begin_runner c (task_at c j) = Some InOneOff)"
proof -
  let ?s = "huge_schedule\<lparr>js_type := ''once''\<rparr>"
  let ?h = "put_schedule (new_hub \<lparr>fs_files = [], fs_denied = []\<rparr> [] [] [] [] [] False) ?s"
  have h: "hb_schedules ?h = [(''h'', ?s)]" by (simp add: put_schedule_def new_hub_def huge_schedule_def)
  have f: "ag_id sample_agent = ''s1''" by (simp add: sample_agent_def new_agent_def)
  obtain b reply where b: "agent_handle_request sample_host WriteOk sample_agent (Some (sync_message 1 (agent_tasks 100 ?h (ag_id sample_agent)))) = (b, reply)"
    by fastforce
  obtain c reply' where c: "agent_handle_request sample_host WriteOk b (Some (sync_message 2 (agent_tasks 200 ?h (ag_id sample_agent)))) = (c, reply')"
    by fastforce
  have m: "(''h'', ?s) \<in> set (hb_schedules ?h)" "\<forall>(k, s)\<in>set (hb_schedules ?h). int64_range (js_interval s)"
    unfolding h by (simp_all add: huge_schedule_def int64_range_def)
  have t: "js_type ?s = ''once''" "js_agent_id ?s = ag_id sample_agent" by (simp_all add: f huge_schedule_def)
  from once_schedule_repeats [OF t m m b c] obtain i j where
    "i < j" "begin_runner c (task_at c i) = Some InOneOff" "begin_runner c (task_at c j) = Some InOneOff" by auto
  with b c h f show ?thesis
    by (intro exI [of _ b] exI [of _ c] exI [of _ reply] exI [of _ reply'] exI [of _ ?h] conjI exI [of _ i] exI [of _ j]) simp_all
qed

end
